(* ===== verification/Prelude.thy ===== *)
theory Prelude
  imports Main "HOL-Library.Char_ord" "HOL-Library.List_Lexorder" "HOL-Library.Sublist"
begin

text \<open>
  The vocabulary the components share: the fact collections of the development, Go's
  64-bit signed integers with their wrap-around, Go's truncated division, and the generic
  lemmas on lists that more than one component needs.

  A Go \<open>string\<close> and a Go \<open>[]byte\<close> are both byte sequences; HOL's \<open>string\<close> is a list of
  8-bit characters, so it is used for both, and \<open>length\<close> is Go's \<open>len\<close>.
\<close>

named_theorems go_defs "definitions that only name a Go library operation"
named_theorems frame_simps "what an operation leaves unchanged"
named_theorems sanitary "closure of the well-formedness predicates"

type_synonym bytes = string

section \<open>Characters the code names\<close>

abbreviation (input) nl :: char where "nl \<equiv> CHR 0x0A"
abbreviation (input) cr :: char where "cr \<equiv> CHR 0x0D"
abbreviation (input) dquote :: char where "dquote \<equiv> CHR 0x22"
abbreviation (input) bslash :: char where "bslash \<equiv> CHR 0x5C"
abbreviation (input) lbrace :: char where "lbrace \<equiv> CHR 0x7B"
abbreviation (input) rbrace :: char where "rbrace \<equiv> CHR 0x7D"
abbreviation (input) lbrack :: char where "lbrack \<equiv> CHR 0x5B"
abbreviation (input) rbrack :: char where "rbrack \<equiv> CHR 0x5D"

section \<open>Go's int64: wrap-around and truncated division\<close>

text \<open>
  An \<open>int64\<close> is an \<open>int\<close> in the range of the type; \<open>wrap64\<close> is the reduction every
  arithmetic operation of the machine performs.
\<close>

definition wrap64 :: "int \<Rightarrow> int" where
  "wrap64 x = (x + 2 ^ 63) mod 2 ^ 64 - 2 ^ 63"

definition int64_range :: "int \<Rightarrow> bool" where
  "int64_range x \<longleftrightarrow> - (2 ^ 63) \<le> x \<and> x < 2 ^ 63"

definition go_quot :: "int \<Rightarrow> int \<Rightarrow> int" where
  "go_quot a b = (if (a < 0) = (b < 0) then \<bar>a\<bar> div \<bar>b\<bar> else - (\<bar>a\<bar> div \<bar>b\<bar>))"

lemma wrap64_id [simp]: "int64_range x \<Longrightarrow> wrap64 x = x"
  by (simp add: wrap64_def int64_range_def)

lemma wrap64_range [simp, intro]: "int64_range (wrap64 x)"
proof -
  have "0 \<le> (x + 2 ^ 63) mod 2 ^ 64" and "(x + 2 ^ 63) mod 2 ^ 64 < (2 ^ 64 :: int)"
    by simp_all
  then show ?thesis unfolding int64_range_def wrap64_def by simp
qed

lemma wrap64_add_left [simp]: "wrap64 (wrap64 x + y) = wrap64 (x + y)"
proof -
  have "(wrap64 x + y + 2 ^ 63) mod 2 ^ 64 = ((x + 2 ^ 63) mod 2 ^ 64 + y) mod 2 ^ 64"
    by (simp add: wrap64_def algebra_simps)
  also have "\<dots> = (x + y + 2 ^ 63) mod 2 ^ 64"
    by (simp add: mod_simps algebra_simps)
  finally show ?thesis by (simp add: wrap64_def)
qed

lemma wrap64_add_right [simp]: "wrap64 (x + wrap64 y) = wrap64 (x + y)"
  using wrap64_add_left [of y x] by (simp add: add.commute)

lemma go_quot_nonneg: "0 \<le> a \<Longrightarrow> 0 < b \<Longrightarrow> go_quot a b = a div b"
  by (simp add: go_quot_def)

lemma go_quot_pos_nonneg [simp]: "0 \<le> a \<Longrightarrow> 0 < b \<Longrightarrow> 0 \<le> go_quot a b"
  by (simp add: go_quot_nonneg pos_imp_zdiv_nonneg_iff)

section \<open>Lists\<close>

lemma subseq_append_leftI: "subseq xs ys \<Longrightarrow> subseq xs (zs @ ys)"
  by (simp add: list_emb_append2)

lemma subseq_append_rightI: "subseq xs ys \<Longrightarrow> subseq xs (ys @ zs)"
  using list_emb_append_mono [of "(=)" xs ys "[]" zs] by simp

lemma subseq_set: "subseq xs ys \<Longrightarrow> set xs \<subseteq> set ys"
  by (induction rule: list_emb.induct) auto

lemma list_nonempty_if_less: "i < length xs \<Longrightarrow> xs \<noteq> []"
  by auto

lemma suffix_drop [simp, intro]: "suffix (drop n xs) xs"
  by (simp add: suffix_drop)

end
