(* ===== verification/Go_Defer.thy ===== *)
theory Go_Defer
  imports Prelude
begin

text \<open>
  Functions that call the outside world and clean up behind them. A call is a value of a type of
  calls, and an environment says which calls fail, with the text of the error. A body is written
  in the order of the code: it gets the calls made so far and the calls deferred, and gives its
  result together with everything it called. Returning runs the deferred calls, last first;
  \<open>os.Exit\<close> does not.

  The discipline that is to hold of such a function is \<open>bracketed\<close>: what was opened is closed,
  once, in reverse order, and nothing else is.
\<close>

record 'c frame =
  fr_log :: "'c list"
  fr_defers :: "'c list"

definition new_frame :: "'c frame" where
  "new_frame = \<lparr>fr_log = [], fr_defers = []\<rparr>"

type_synonym ('c, 'r) body = "'c frame \<Rightarrow> 'r \<times> 'c list"

definition do_call :: "'c \<Rightarrow> ('c, 'r) body \<Rightarrow> ('c, 'r) body" where
  "do_call c k fr = k (fr\<lparr>fr_log := fr_log fr @ [c]\<rparr>)"

definition defer_call :: "'c \<Rightarrow> ('c, 'r) body \<Rightarrow> ('c, 'r) body" where
  "defer_call c k fr = k (fr\<lparr>fr_defers := c # fr_defers fr\<rparr>)"

text \<open>\<open>if err := c; err != nil { ... }\<close>: the failing branch gets the text of the error.\<close>

definition try_call ::
  "('c \<Rightarrow> bytes option) \<Rightarrow> 'c \<Rightarrow> (bytes \<Rightarrow> ('c, 'r) body) \<Rightarrow> ('c, 'r) body \<Rightarrow> ('c, 'r) body"
where
  "try_call fails c failed k fr =
     (case fails c of
        Some e \<Rightarrow> failed e (fr\<lparr>fr_log := fr_log fr @ [c]\<rparr>)
      | None \<Rightarrow> k (fr\<lparr>fr_log := fr_log fr @ [c]\<rparr>))"

definition finish :: "'r \<Rightarrow> ('c, 'r) body" where
  "finish r fr = (r, fr_log fr @ fr_defers fr)"

definition leave_now :: "'r \<Rightarrow> ('c, 'r) body" where
  "leave_now r fr = (r, fr_log fr)"

text \<open>What a call does to the resources: it opens one, which the given call closes, or closes one.\<close>

datatype 'c role = Opens 'c | Closes | Uses

fun bracketed :: "('c \<Rightarrow> bytes option) \<Rightarrow> ('c \<Rightarrow> 'c role) \<Rightarrow> 'c list \<Rightarrow> 'c list \<Rightarrow> bool" where
  "bracketed fails role open_calls [] = (open_calls = [])"
| "bracketed fails role open_calls (c # log) =
     (case role c of
        Opens d \<Rightarrow> bracketed fails role (if fails c = None then d # open_calls else open_calls) log
      | Closes \<Rightarrow> open_calls \<noteq> [] \<and> c = hd open_calls \<and> bracketed fails role (tl open_calls) log
      | Uses \<Rightarrow> bracketed fails role open_calls log)"

lemmas body_simps = do_call_def defer_call_def try_call_def finish_def leave_now_def new_frame_def

end
