(* ===== verification/Go_Bytes.thy ===== *)
theory Go_Bytes
  imports Prelude
begin

text \<open>
  The operations of Go's \<open>bytes\<close>, \<open>strings\<close> and \<open>strconv\<close> packages that the program
  uses, on byte sequences: searching for a byte, prefixes, trimming of Unicode white
  space, ASCII case folding and decimal rendering. Go's \<open>-1\<close> for "not found" is \<open>None\<close>.
\<close>

section \<open>Searching\<close>

text \<open>\<open>bytes.IndexAny\<close> and \<open>bytes.IndexByte\<close>, by a predicate on the byte.\<close>

primrec index_where :: "(char \<Rightarrow> bool) \<Rightarrow> bytes \<Rightarrow> nat option" where
  "index_where p [] = None"
| "index_where p (b # bs) = (if p b then Some 0 else map_option Suc (index_where p bs))"

definition IndexByte :: "bytes \<Rightarrow> char \<Rightarrow> nat option" where
  "IndexByte s c = index_where (\<lambda>b. b = c) s"

definition IndexAny :: "bytes \<Rightarrow> bytes \<Rightarrow> nat option" where
  "IndexAny s cs = index_where (\<lambda>b. b \<in> set cs) s"

lemma index_where_None: "index_where p s = None \<longleftrightarrow> (\<forall>b\<in>set s. \<not> p b)"
  by (induction s) auto

lemma index_where_SomeD:
  "index_where p s = Some i \<Longrightarrow>
     i < length s \<and> p (s ! i) \<and> (\<forall>b\<in>set (take i s). \<not> p b)"
  by (induction s arbitrary: i) (auto split: if_splits simp: less_Suc_eq_0_disj)

lemma index_where_takeWhile:
  "index_where p s =
     (if \<exists>b\<in>set s. p b then Some (length (takeWhile (\<lambda>b. \<not> p b) s)) else None)"
  by (induction s) auto

lemma index_where_split:
  assumes "index_where p s = Some i"
  shows "s = take i s @ s ! i # drop (Suc i) s"
  using index_where_SomeD [OF assms] by (simp add: id_take_nth_drop)

lemma index_where_append:
  "index_where p (s @ t) =
     (case index_where p s of Some i \<Rightarrow> Some i
      | None \<Rightarrow> map_option (\<lambda>i. length s + i) (index_where p t))"
proof (induction s)
  case Nil
  show ?case by (cases "index_where p t") simp_all
next
  case (Cons a s)
  then show ?case
    by (cases "index_where p s"; cases "index_where p t") auto
qed

lemma index_where_drop:
  "index_where p s = Some i \<Longrightarrow> drop i s = dropWhile (\<lambda>b. \<not> p b) s"
  by (induction s arbitrary: i) (auto split: if_splits)

lemma IndexByte_less: "IndexByte s c = Some i \<Longrightarrow> i < length s"
  unfolding IndexByte_def by (drule index_where_SomeD) simp

lemma IndexAny_less: "IndexAny s cs = Some i \<Longrightarrow> i < length s"
  unfolding IndexAny_def by (drule index_where_SomeD) simp

lemma IndexByte_None: "IndexByte s c = None \<longleftrightarrow> c \<notin> set s"
  by (auto simp: IndexByte_def index_where_None)

lemma IndexAny_None: "IndexAny s cs = None \<longleftrightarrow> set s \<inter> set cs = {}"
  by (auto simp: IndexAny_def index_where_None)

section \<open>Prefixes\<close>

definition HasPrefix :: "bytes \<Rightarrow> bytes \<Rightarrow> bool" where
  "HasPrefix s pre \<longleftrightarrow> take (length pre) s = pre"

definition TrimPrefix :: "bytes \<Rightarrow> bytes \<Rightarrow> bytes" where
  "TrimPrefix s pre = (if HasPrefix s pre then drop (length pre) s else s)"

primrec Contains :: "bytes \<Rightarrow> bytes \<Rightarrow> bool" where
  "Contains [] pat = (pat = [])"
| "Contains (b # bs) pat = (HasPrefix (b # bs) pat \<or> Contains bs pat)"

lemma HasPrefix_iff_prefix: "HasPrefix s pre \<longleftrightarrow> prefix pre s"
  unfolding HasPrefix_def prefix_def by (metis append_eq_conv_conj append_take_drop_id)

lemma length_TrimPrefix: "length (TrimPrefix s pre) \<le> length s"
  by (simp add: TrimPrefix_def)

section \<open>Unicode white space and \<open>TrimSpace\<close>\<close>

text \<open>
  \<open>bytes.TrimSpace\<close> removes the leading and trailing runes for which \<open>unicode.IsSpace\<close>
  holds. In UTF-8 those runes are exactly the byte sequences below; no other sequence
  decodes to one, and looking at the last bytes finds the same sequences as decoding the
  last rune does.
\<close>

definition space_runes :: "bytes list" where
  "space_runes =
     [[CHR 0x09], [CHR 0x0A], [CHR 0x0B], [CHR 0x0C], [CHR 0x0D], [CHR 0x20],
      [CHR 0xC2, CHR 0x85], [CHR 0xC2, CHR 0xA0], [CHR 0xE1, CHR 0x9A, CHR 0x80],
      [CHR 0xE2, CHR 0x80, CHR 0x80], [CHR 0xE2, CHR 0x80, CHR 0x81],
      [CHR 0xE2, CHR 0x80, CHR 0x82], [CHR 0xE2, CHR 0x80, CHR 0x83],
      [CHR 0xE2, CHR 0x80, CHR 0x84], [CHR 0xE2, CHR 0x80, CHR 0x85],
      [CHR 0xE2, CHR 0x80, CHR 0x86], [CHR 0xE2, CHR 0x80, CHR 0x87],
      [CHR 0xE2, CHR 0x80, CHR 0x88], [CHR 0xE2, CHR 0x80, CHR 0x89],
      [CHR 0xE2, CHR 0x80, CHR 0x8A], [CHR 0xE2, CHR 0x80, CHR 0xA8],
      [CHR 0xE2, CHR 0x80, CHR 0xA9], [CHR 0xE2, CHR 0x80, CHR 0xAF],
      [CHR 0xE2, CHR 0x81, CHR 0x9F], [CHR 0xE3, CHR 0x80, CHR 0x80]]"

definition space_prefix_len :: "bytes list \<Rightarrow> bytes \<Rightarrow> nat" where
  "space_prefix_len rs s =
     (case List.find (HasPrefix s) rs of None \<Rightarrow> 0 | Some r \<Rightarrow> length r)"

function trim_left :: "bytes list \<Rightarrow> bytes \<Rightarrow> bytes" where
  "trim_left rs s =
     (if s = [] \<or> space_prefix_len rs s = 0 then s
      else trim_left rs (drop (space_prefix_len rs s) s))"
  by pat_completeness auto
termination
  by (relation "measure (\<lambda>(rs, s). length s)") auto

declare trim_left.simps [simp del]

definition TrimSpace :: "bytes \<Rightarrow> bytes" where
  "TrimSpace s = rev (trim_left (map rev space_runes) (rev (trim_left space_runes s)))"

lemma trim_left_suffix: "suffix (trim_left rs s) s"
proof (induction rs s rule: trim_left.induct)
  case (1 rs s)
  show ?case
  proof (cases "s = [] \<or> space_prefix_len rs s = 0")
    case True
    then show ?thesis by (subst trim_left.simps) simp
  next
    case False
    with "1.IH" have "suffix (trim_left rs (drop (space_prefix_len rs s) s))
                        (drop (space_prefix_len rs s) s)" by blast
    with False show ?thesis
      by (subst trim_left.simps) (auto intro: suffix_order.trans suffix_drop)
  qed
qed

lemma TrimSpace_sublist: "sublist (TrimSpace s) s"
proof -
  have "suffix (trim_left (map rev space_runes) (rev (trim_left space_runes s)))
          (rev (trim_left space_runes s))"
    by (rule trim_left_suffix)
  then have "prefix (TrimSpace s) (trim_left space_runes s)"
    by (simp add: TrimSpace_def suffix_to_prefix)
  moreover have "suffix (trim_left space_runes s) s"
    by (rule trim_left_suffix)
  ultimately show ?thesis
    by (meson prefix_imp_sublist sublist_order.order_trans suffix_imp_sublist)
qed

lemma length_TrimSpace: "length (TrimSpace s) \<le> length s"
  using TrimSpace_sublist sublist_length_le by blast

lemma TrimSpace_Nil [simp]: "TrimSpace [] = []"
  by (simp add: TrimSpace_def trim_left.simps)

text \<open>A text that neither starts nor ends with a byte of a white space rune is left alone.\<close>

lemma trim_left_id:
  "s = [] \<or> hd s \<notin> hd ` set rs \<Longrightarrow> [] \<notin> set rs \<Longrightarrow> trim_left rs s = s"
proof -
  assume hd: "s = [] \<or> hd s \<notin> hd ` set rs" and ne: "[] \<notin> set rs"
  have "\<not> HasPrefix s r" if "r \<in> set rs" "s \<noteq> []" for r
  proof
    assume "HasPrefix s r"
    moreover have "r \<noteq> []" using that(1) ne by blast
    ultimately have "hd s = hd r" using that(2) unfolding HasPrefix_def by (cases r; cases s) auto
    with that hd show False by auto
  qed
  then have "s = [] \<or> List.find (HasPrefix s) rs = None"
    by (auto simp: find_None_iff)
  then have "s = [] \<or> space_prefix_len rs s = 0"
    by (auto simp: space_prefix_len_def)
  then show ?thesis by (subst trim_left.simps) simp
qed

definition space_heads :: bytes where
  "space_heads = map hd space_runes"

definition space_lasts :: bytes where
  "space_lasts = map last space_runes"

lemma TrimSpace_id:
  assumes "hd s \<notin> set space_heads" "last s \<notin> set space_lasts" "s \<noteq> []"
  shows "TrimSpace s = s"
proof -
  have "trim_left space_runes s = s"
    using assms(1) by (intro trim_left_id) (auto simp: space_heads_def space_runes_def)
  moreover have "trim_left (map rev space_runes) (rev s) = rev s"
    using assms(2,3)
    by (intro trim_left_id) (auto simp: space_lasts_def space_runes_def hd_rev)
  ultimately show ?thesis by (simp add: TrimSpace_def)
qed

lemma TrimSpace_blank:
  assumes "s \<noteq> []" "hd s \<notin> set space_heads"
  shows "TrimSpace (CHR '' '' # s) = TrimSpace s"
proof -
  have "trim_left space_runes s = s"
    using assms by (intro trim_left_id) (auto simp: space_heads_def space_runes_def)
  moreover have "space_prefix_len space_runes (CHR '' '' # s) = 1"
    by (simp add: space_prefix_len_def space_runes_def HasPrefix_def)
  ultimately have "trim_left space_runes (CHR '' '' # s) = s"
    by (subst trim_left.simps) simp
  with \<open>trim_left space_runes s = s\<close> show ?thesis by (simp add: TrimSpace_def)
qed

section \<open>Decimal rendering: \<open>%d\<close> and \<open>%0Nd\<close>\<close>

definition digit_char :: "int \<Rightarrow> char" where
  "digit_char d = char_of (48 + d)"

definition is_digit :: "char \<Rightarrow> bool" where
  "is_digit c \<longleftrightarrow> 48 \<le> (of_char c :: int) \<and> (of_char c :: int) \<le> 57"

definition digit_val :: "char \<Rightarrow> int" where
  "digit_val c = of_char c - 48"

text \<open>The decimal digits of a non-negative number, most significant first.\<close>

function decimal :: "int \<Rightarrow> bytes" where
  "decimal n = (if n < 10 then [digit_char n] else decimal (n div 10) @ [digit_char (n mod 10)])"
  by pat_completeness auto
termination
  by (relation "measure nat") auto

declare decimal.simps [simp del]

primrec digits_val_acc :: "int \<Rightarrow> bytes \<Rightarrow> int" where
  "digits_val_acc a [] = a"
| "digits_val_acc a (c # cs) = digits_val_acc (10 * a + digit_val c) cs"

definition digits_val :: "bytes \<Rightarrow> int" where
  "digits_val ds = digits_val_acc 0 ds"

definition format_d :: "int \<Rightarrow> bytes" where
  "format_d i = (if i < 0 then CHR ''-'' # decimal (- i) else decimal i)"

text \<open>\<open>%0Nd\<close> pads with zeros after the sign up to a total width of \<open>N\<close>.\<close>

definition format_0d :: "nat \<Rightarrow> int \<Rightarrow> bytes" where
  "format_0d w i =
     (if i < 0
      then CHR ''-'' # replicate (w - 1 - length (decimal (- i))) CHR ''0'' @ decimal (- i)
      else replicate (w - length (decimal i)) CHR ''0'' @ decimal i)"

lemma decimal_nonempty [simp]: "decimal n \<noteq> []"
  by (subst decimal.simps) simp

lemma is_digit_digit_char [simp]: "0 \<le> d \<Longrightarrow> d < 10 \<Longrightarrow> is_digit (digit_char d)"
  by (simp add: is_digit_def digit_char_def)

lemma digit_val_digit_char [simp]: "0 \<le> d \<Longrightarrow> d < 10 \<Longrightarrow> digit_val (digit_char d) = d"
  by (simp add: digit_val_def digit_char_def)

lemma digit_char_inject [simp]:
  "0 \<le> d \<Longrightarrow> d < 10 \<Longrightarrow> 0 \<le> d' \<Longrightarrow> d' < 10 \<Longrightarrow> digit_char d = digit_char d' \<longleftrightarrow> d = d'"
  by (metis digit_val_digit_char)

lemma div_10_less: "(n :: int) < 10 * x \<Longrightarrow> n div 10 < x"
  by presburger

lemma decimal_length: "0 \<le> n \<Longrightarrow> n < 10 ^ w \<Longrightarrow> 0 < w \<Longrightarrow> length (decimal n) \<le> w"
proof (induction n arbitrary: w rule: decimal.induct)
  case (1 n)
  show ?case
  proof (cases "n < 10")
    case True
    with 1 show ?thesis by (subst decimal.simps) simp
  next
    case False
    then obtain v where w: "w = Suc v" "0 < v" using 1(3,4) by (cases w; cases "w - 1") auto
    have "n div 10 < 10 ^ v" using 1(3) w by (intro div_10_less) simp
    with 1 False w show ?thesis by (subst decimal.simps) simp
  qed
qed

lemma decimal_digits: "0 \<le> n \<Longrightarrow> \<forall>c\<in>set (decimal n). is_digit c"
proof (induction n rule: decimal.induct)
  case (1 n)
  then show ?case by (subst decimal.simps) auto
qed

lemma digits_val_acc_append:
  "digits_val_acc a (xs @ ys) = digits_val_acc (digits_val_acc a xs) ys"
  by (induction xs arbitrary: a) auto

lemma digits_val_snoc: "digits_val (xs @ [c]) = 10 * digits_val xs + digit_val c"
  by (simp add: digits_val_def digits_val_acc_append)

lemma digits_val_Nil [simp]: "digits_val [] = 0"
  by (simp add: digits_val_def)

lemma digits_val_decimal [simp]: "0 \<le> n \<Longrightarrow> digits_val (decimal n) = n"
proof (induction n rule: decimal.induct)
  case (1 n)
  show ?case
  proof (cases "n < 10")
    case True
    with 1 show ?thesis
      by (subst decimal.simps) (simp add: digits_val_def)
  next
    case False
    with 1 have "digits_val (decimal (n div 10)) = n div 10" by simp
    with False show ?thesis
      by (subst decimal.simps) (simp add: digits_val_snoc)
  qed
qed

lemma decimal_inject: "0 \<le> m \<Longrightarrow> 0 \<le> n \<Longrightarrow> decimal m = decimal n \<longleftrightarrow> m = n"
  by (metis digits_val_decimal)

section \<open>ASCII case folding\<close>

definition ascii_lower :: "char \<Rightarrow> char" where
  "ascii_lower c =
     (if CHR ''A'' \<le> c \<and> c \<le> CHR ''Z'' then char_of (of_char c + 32 :: nat) else c)"

definition ToLowerASCII :: "bytes \<Rightarrow> bytes" where
  "ToLowerASCII s = map ascii_lower s"

end
