(* ===== verification/Framing.thy ===== *)
theory Framing
  imports Go_Bytes
begin

text \<open>
  The contract shared by everything in the program that cuts a byte stream into units:
  the JSON and line extractors of the eBPF transport and the line loops of the HTTP and
  socket interceptors. A \<open>chop\<close> takes the buffered bytes and returns the complete units
  in them together with the bytes it keeps. The law is that cutting early and cutting
  again when more bytes are there gives what cutting everything at once gives; from it
  follows that how the stream was split into reads cannot be observed.
\<close>

fun feed :: "(bytes \<Rightarrow> 'o list \<times> bytes) \<Rightarrow> bytes \<Rightarrow> bytes list \<Rightarrow> 'o list \<times> bytes" where
  "feed chop b [] = ([], b)"
| "feed chop b (c # cs) =
     (let (os, b') = chop (b @ c); (os', b'') = feed chop b' cs in (os @ os', b''))"

locale framer =
  fixes chop :: "bytes \<Rightarrow> 'o list \<times> bytes"
  assumes chop_Nil: "chop [] = ([], [])"
    and chop_append:
      "chop (s @ t) = (let (os, r) = chop s; (os', r') = chop (r @ t) in (os @ os', r'))"
begin

lemma chop_rest: "chop s = (os, r) \<Longrightarrow> chop r = ([], r)"
  using chop_append [of s "[]"] by (auto split: prod.splits)

lemma feed_settled: "chop b = ([], b) \<Longrightarrow> feed chop b cs = chop (b @ concat cs)"
proof (induction cs arbitrary: b)
  case Nil
  then show ?case by simp
next
  case (Cons c cs)
  obtain os r where bc: "chop (b @ c) = (os, r)" by fastforce
  then have "feed chop r cs = chop (r @ concat cs)"
    using Cons.IH [of r] chop_rest by blast
  with bc show ?case
    using chop_append [of "b @ c" "concat cs"] by simp
qed

lemma feed_concat: "feed chop [] cs = chop (concat cs)"
  using feed_settled [of "[]" cs] chop_Nil by simp

lemma feed_chunking: "concat cs = concat ds \<Longrightarrow> feed chop [] cs = feed chop [] ds"
  by (simp add: feed_concat)

lemma chop_units:
  assumes "\<And>u. u \<in> set us \<Longrightarrow> chop u = ([f u], [])"
  shows "chop (concat us) = (map f us, [])"
  using assms
proof (induction us)
  case Nil
  show ?case by (simp add: chop_Nil)
next
  case (Cons u us)
  then have "chop (concat us) = (map f us, [])" by simp
  with Cons.prems [of u] show ?case
    using chop_append [of u "concat us"] by simp
qed

end

section \<open>Cutting at line feeds\<close>

text \<open>
  The reference chop the line loops implement: the bytes up to each line feed, without it;
  what follows the last line feed is kept.
\<close>

function split_lines :: "bytes \<Rightarrow> bytes list \<times> bytes" where
  "split_lines s =
     (case IndexByte s nl of
        None \<Rightarrow> ([], s)
      | Some i \<Rightarrow> (let (ls, r) = split_lines (drop (Suc i) s) in (take i s # ls, r)))"
  by pat_completeness auto
termination
  by (relation "measure length") (auto dest: IndexByte_less)

declare split_lines.simps [simp del]

lemma split_lines_NoneI: "nl \<notin> set s \<Longrightarrow> split_lines s = ([], s)"
  by (subst split_lines.simps) (simp add: IndexByte_None [THEN iffD2])

lemma split_lines_Nil [simp]: "split_lines [] = ([], [])"
  by (simp add: split_lines_NoneI)

lemma IndexByte_line: "nl \<notin> set l \<Longrightarrow> IndexByte (l @ nl # s) nl = Some (length l)"
  by (induction l) (auto simp: IndexByte_def)

lemma split_lines_line:
  "nl \<notin> set l \<Longrightarrow>
     split_lines (l @ nl # s) = (let (ls, r) = split_lines s in (l # ls, r))"
  by (subst split_lines.simps) (simp add: IndexByte_line)

text \<open>Every byte sequence is a sequence of terminated lines and an unterminated rest.\<close>

lemma line_cases:
  obtains (rest) "nl \<notin> set s" | (line) l s' where "s = l @ nl # s'" "nl \<notin> set l"
  by (meson split_list_first)

lemma line_induct [case_names rest line]:
  assumes "\<And>s. nl \<notin> set s \<Longrightarrow> P s"
    and "\<And>l s. nl \<notin> set l \<Longrightarrow> P s \<Longrightarrow> P (l @ nl # s)"
  shows "P s"
proof (induction s rule: length_induct)
  case (1 s)
  then show ?case by (cases s rule: line_cases) (auto intro: assms)
qed

lemma split_lines_append:
  "split_lines (s @ t) =
     (let (ls, r) = split_lines s; (ls', r') = split_lines (r @ t) in (ls @ ls', r'))"
  by (induction s rule: line_induct)
    (auto simp: split_lines_NoneI split_lines_line split: prod.splits)

lemma split_lines_rest: "split_lines s = (ls, r) \<Longrightarrow> nl \<notin> set r"
  by (induction s arbitrary: ls rule: line_induct)
    (auto simp: split_lines_NoneI split_lines_line split: prod.splits)

lemma split_lines_lines: "split_lines s = (ls, r) \<Longrightarrow> l \<in> set ls \<Longrightarrow> nl \<notin> set l"
  by (induction s arbitrary: ls rule: line_induct)
    (auto simp: split_lines_NoneI split_lines_line split: prod.splits)

text \<open>Joining the lines gives the stream back: nothing is lost and nothing invented.\<close>

lemma split_lines_join:
  "split_lines s = (ls, r) \<Longrightarrow> s = concat (map (\<lambda>l. l @ [nl]) ls) @ r"
  by (induction s arbitrary: ls rule: line_induct)
    (auto simp: split_lines_NoneI split_lines_line split: prod.splits)

lemma split_lines_concat:
  "\<forall>l\<in>set ls. nl \<notin> set l \<Longrightarrow> nl \<notin> set r \<Longrightarrow>
     split_lines (concat (map (\<lambda>l. l @ [nl]) ls) @ r) = (ls, r)"
  by (induction ls) (simp_all add: split_lines_NoneI split_lines_line)

text \<open>The lines of a stream, the unterminated one included when there is one.\<close>

definition all_lines :: "bytes \<Rightarrow> bytes list" where
  "all_lines s = (case split_lines s of (ls, r) \<Rightarrow> ls @ (if r = [] then [] else [r]))"

lemma all_lines_NoneI: "nl \<notin> set s \<Longrightarrow> all_lines s = (if s = [] then [] else [s])"
  by (simp add: all_lines_def split_lines_NoneI)

lemma all_lines_append:
  "split_lines s = (ls, r) \<Longrightarrow> all_lines (s @ t) = ls @ all_lines (r @ t)"
  using split_lines_append [of s t] by (simp add: all_lines_def split: prod.splits)

lemma all_lines_line: "nl \<notin> set l \<Longrightarrow> all_lines (l @ nl # s) = l # all_lines s"
  by (simp add: all_lines_def split_lines_line split: prod.splits)

interpretation lines: framer split_lines
  by unfold_locales (simp, rule split_lines_append)

end
