(* ===== verification/Go_Chan.thy ===== *)
theory Go_Chan
  imports Prelude
begin

text \<open>
  Go's buffered channels, as the program uses them. Every sender of the program uses
  \<open>select { case ch <- x: default: }\<close>: the value is queued when the buffer has room and
  dropped otherwise. Receivers take values in order.

  The interface \<open>lossy_queue\<close> states that contract; its lemmas say what a receiver can
  have seen after any interleaving of sends and receives.
\<close>

record 'a chan =
  chan_cap :: nat
  chan_items :: "'a list"

definition make_chan :: "nat \<Rightarrow> 'a chan" where
  "make_chan n = \<lparr>chan_cap = n, chan_items = []\<rparr>"

text \<open>The non-blocking send, and whether it queued the value.\<close>

definition chan_has_room :: "'a chan \<Rightarrow> bool" where
  "chan_has_room c \<longleftrightarrow> length (chan_items c) < chan_cap c"

definition try_send :: "'a \<Rightarrow> 'a chan \<Rightarrow> 'a chan" where
  "try_send x c = (if chan_has_room c then c\<lparr>chan_items := chan_items c @ [x]\<rparr> else c)"

definition recv :: "'a chan \<Rightarrow> ('a \<times> 'a chan) option" where
  "recv c = (case chan_items c of [] \<Rightarrow> None | x # xs \<Rightarrow> Some (x, c\<lparr>chan_items := xs\<rparr>))"

text \<open>A run of sends and receives, over the operations of any queue.\<close>

datatype 'a qop = Put 'a | Get

fun qputs :: "'a qop list \<Rightarrow> 'a list" where
  "qputs [] = []"
| "qputs (Put x # ops) = x # qputs ops"
| "qputs (Get # ops) = qputs ops"

fun queue_run ::
  "('a \<Rightarrow> 'q \<Rightarrow> 'q) \<Rightarrow> ('q \<Rightarrow> ('a \<times> 'q) option) \<Rightarrow> 'q \<Rightarrow> 'a qop list \<Rightarrow> 'a list \<times> 'q" where
  "queue_run put get q [] = ([], q)"
| "queue_run put get q (Put x # ops) = queue_run put get (put x q) ops"
| "queue_run put get q (Get # ops) =
     (case get q of
        None \<Rightarrow> queue_run put get q ops
      | Some (x, q') \<Rightarrow> (let (xs, q'') = queue_run put get q' ops in (x # xs, q'')))"

locale lossy_queue =
  fixes put :: "'a \<Rightarrow> 'q \<Rightarrow> 'q"
    and get :: "'q \<Rightarrow> ('a \<times> 'q) option"
    and queued :: "'q \<Rightarrow> 'a list"
    and room :: "'q \<Rightarrow> nat"
  assumes put_room: "length (queued q) < room q \<Longrightarrow> queued (put x q) = queued q @ [x]"
    and put_full: "room q \<le> length (queued q) \<Longrightarrow> put x q = q"
    and room_put: "room (put x q) = room q"
    and get_None: "get q = None \<Longrightarrow> queued q = []"
    and get_Some: "get q = Some (x, q') \<Longrightarrow> queued q = x # queued q' \<and> room q' = room q"
begin

lemma queued_put:
  "queued (put x q) = queued q @ (if length (queued q) < room q then [x] else [])"
  by (simp add: put_room put_full)

lemma run_room: "queue_run put get q ops = (xs, q') \<Longrightarrow> room q' = room q"
proof (induction ops arbitrary: q xs)
  case (Cons p ops)
  then show ?case
    by (cases p) (auto simp: room_put dest: get_Some split: option.splits prod.splits)
qed simp

text \<open>The buffer never holds more than its capacity.\<close>

lemma run_bounded:
  "queue_run put get q ops = (xs, q') \<Longrightarrow> length (queued q) \<le> room q \<Longrightarrow>
     length (queued q') \<le> room q'"
proof (induction ops arbitrary: q xs)
  case (Cons p ops)
  show ?case
  proof (cases p)
    case (Put x)
    with Cons.prems Cons.IH [of "put x q" xs] show ?thesis
      by (auto simp: queued_put room_put split: if_splits)
  next
    case Get
    with Cons.prems Cons.IH show ?thesis
      by (fastforce dest: get_Some split: option.splits prod.splits)
  qed
qed simp

text \<open>
  First in, first out, with drops: what was received, followed by what is still queued,
  is a subsequence of what was queued at first followed by what was sent.
\<close>

lemma run_subseq:
  "queue_run put get q ops = (xs, q') \<Longrightarrow>
     subseq (xs @ queued q') (queued q @ qputs ops)"
proof (induction ops arbitrary: q xs)
  case (Cons p ops)
  show ?case
  proof (cases p)
    case (Put x)
    with Cons.prems have "subseq (xs @ queued q') (queued (put x q) @ qputs ops)"
      using Cons.IH by simp
    moreover have "subseq (queued (put x q) @ qputs ops) (queued q @ x # qputs ops)"
      by (auto simp: queued_put intro!: list_emb_append_mono)
    ultimately show ?thesis
      unfolding Put qputs.simps by (rule subseq_order.order_trans)
  next
    case Get
    with Cons.prems Cons.IH show ?thesis
      by (fastforce dest: get_Some split: option.splits prod.splits)
  qed
qed simp

text \<open>With room for everything sent, nothing is dropped.\<close>

lemma run_lossless:
  "queue_run put get q ops = (xs, q') \<Longrightarrow>
     length (queued q) + length (qputs ops) \<le> room q \<Longrightarrow>
     xs @ queued q' = queued q @ qputs ops"
proof (induction ops arbitrary: q xs)
  case (Cons p ops)
  show ?case
  proof (cases p)
    case (Put x)
    with Cons.prems Cons.IH [of "put x q" xs] show ?thesis
      by (auto simp: queued_put room_put)
  next
    case Get
    with Cons.prems Cons.IH show ?thesis
      by (fastforce dest: get_Some split: option.splits prod.splits)
  qed
qed simp

end

interpretation gochan: lossy_queue try_send recv chan_items chan_cap
  by unfold_locales (auto simp: try_send_def recv_def chan_has_room_def split: list.splits)

lemma try_send_cap [simp, frame_simps]: "chan_cap (try_send x c) = chan_cap c"
  by (simp add: try_send_def)

lemma fold_try_send_cap [simp, frame_simps]: "chan_cap (fold try_send xs c) = chan_cap c"
  by (induction xs arbitrary: c) simp_all

lemma fold_try_send_room:
  "length (chan_items c) + length xs \<le> chan_cap c \<Longrightarrow>
     chan_items (fold try_send xs c) = chan_items c @ xs"
  by (induction xs arbitrary: c) (auto simp: try_send_def chan_has_room_def)

end
