(* ===== verification/Go_Float.thy ===== *)
theory Go_Float
  imports Complex_Main Go_Bytes
begin

text \<open>
  Go's \<open>float64\<close>: IEEE 754 binary64 with round-to-nearest, ties to even. A finite value is
  a sign, a mantissa and a binary exponent (\<open>Fin s m e\<close> is \<open>\<plusminus> m * 2 ^ e\<close>). Every operation
  is the exact rational result, rounded once (\<open>f64_of_ratio\<close>). The part of \<open>strconv\<close> the
  program reaches is here too: \<open>ParseFloat\<close> on JSON number literals, and the shortest
  decimal that reads back as the same value, laid out as \<open>%v\<close> and as \<open>encoding/json\<close> do.
\<close>

datatype float64 = Fin bool int int | Inf bool | NaN

section \<open>Rounding\<close>

function bit_len :: "int \<Rightarrow> int" where
  "bit_len n = (if n \<le> 0 then 0 else 1 + bit_len (n div 2))"
  by pat_completeness auto
termination
  by (relation "measure nat") auto

declare bit_len.simps [simp del]

definition pow2 :: "int \<Rightarrow> int" where
  "pow2 e = 2 ^ nat e"

definition pow10 :: "int \<Rightarrow> int" where
  "pow10 e = 10 ^ nat e"

text \<open>The nearest integer to \<open>num / den\<close>, the even one if two are as near.\<close>

definition round_half_even :: "int \<Rightarrow> int \<Rightarrow> int" where
  "round_half_even num den =
     (let q = num div den; r = num mod den in
      if 2 * r < den then q
      else if den < 2 * r then q + 1
      else if even q then q else q + 1)"

text \<open>The binary logarithm of \<open>num / den\<close>, rounded down.\<close>

definition ratio_log2 :: "int \<Rightarrow> int \<Rightarrow> int" where
  "ratio_log2 num den =
     (let k = bit_len num - bit_len den in
      if num * pow2 (- k) < den * pow2 k then k - 1 else k)"

definition f64_of_ratio :: "bool \<Rightarrow> int \<Rightarrow> int \<Rightarrow> float64" where
  "f64_of_ratio s num den =
     (if num = 0 then Fin s 0 0
      else
        let e = max (- 1074) (ratio_log2 num den - 52);
            q = round_half_even (num * pow2 (- e)) (den * pow2 e)
        in if q = 2 ^ 53 then (if 971 < e + 1 then Inf s else Fin s (2 ^ 52) (e + 1))
           else if q = 0 then Fin s 0 0
           else if 971 < e then Inf s
           else Fin s q e)"

section \<open>Arithmetic and comparison\<close>

definition f64_of_int :: "int \<Rightarrow> float64" where
  "f64_of_int n = f64_of_ratio (n < 0) \<bar>n\<bar> 1"

definition signed :: "bool \<Rightarrow> int \<Rightarrow> int" where
  "signed s m = (if s then - m else m)"

fun f64_add :: "float64 \<Rightarrow> float64 \<Rightarrow> float64" where
  "f64_add (Fin s m e) (Fin s' m' e') =
     (let e0 = min e e';
          sum = signed s m * pow2 (e - e0) + signed s' m' * pow2 (e' - e0)
      in if sum = 0 then Fin (s \<and> s') 0 0
         else f64_of_ratio (sum < 0) (\<bar>sum\<bar> * pow2 e0) (pow2 (- e0)))"
| "f64_add (Fin s m e) x = x"
| "f64_add (Inf s) (Inf s') = (if s = s' then Inf s else NaN)"
| "f64_add (Inf s) NaN = NaN"
| "f64_add (Inf s) (Fin s' m' e') = Inf s"
| "f64_add NaN x = NaN"

fun f64_mul :: "float64 \<Rightarrow> float64 \<Rightarrow> float64" where
  "f64_mul (Fin s m e) (Fin s' m' e') =
     f64_of_ratio (s \<noteq> s') (m * m' * pow2 (e + e')) (pow2 (- (e + e')))"
| "f64_mul (Fin s m e) (Inf s') = (if m = 0 then NaN else Inf (s \<noteq> s'))"
| "f64_mul (Inf s) (Fin s' m' e') = (if m' = 0 then NaN else Inf (s \<noteq> s'))"
| "f64_mul (Inf s) (Inf s') = Inf (s \<noteq> s')"
| "f64_mul NaN x = NaN"
| "f64_mul x NaN = NaN"

fun f64_div :: "float64 \<Rightarrow> float64 \<Rightarrow> float64" where
  "f64_div (Fin s m e) (Fin s' m' e') =
     (if m' = 0 then (if m = 0 then NaN else Inf (s \<noteq> s'))
      else f64_of_ratio (s \<noteq> s') (m * pow2 (e - e')) (m' * pow2 (e' - e)))"
| "f64_div (Fin s m e) (Inf s') = Fin (s \<noteq> s') 0 0"
| "f64_div (Inf s) (Fin s' m' e') = Inf (s \<noteq> s')"
| "f64_div (Inf s) (Inf s') = NaN"
| "f64_div NaN x = NaN"
| "f64_div x NaN = NaN"

fun f64_less :: "float64 \<Rightarrow> float64 \<Rightarrow> bool" where
  "f64_less (Fin s m e) (Fin s' m' e') =
     (let e0 = min e e' in
      signed s m * pow2 (e - e0) < signed s' m' * pow2 (e' - e0))"
| "f64_less (Fin s m e) (Inf s') = (\<not> s')"
| "f64_less (Inf s) (Fin s' m' e') = s"
| "f64_less (Inf s) (Inf s') = (s \<and> \<not> s')"
| "f64_less NaN x = False"
| "f64_less x NaN = False"

section \<open>\<open>ParseFloat\<close> on a JSON number literal\<close>

text \<open>
  The literal is already known to be \<open>-?(0|[1-9][0-9]*)(.[0-9]+)?([eE][+-]?[0-9]+)?\<close>; it is
  read as sign, decimal mantissa and decimal exponent. \<open>None\<close> is a syntax error.
\<close>

type_synonym dec_num = "bool \<times> int \<times> int"

definition scan_digits :: "bytes \<Rightarrow> bytes \<times> bytes" where
  "scan_digits s = (takeWhile is_digit s, dropWhile is_digit s)"

definition scan_int :: "bytes \<Rightarrow> (bytes \<times> bytes) option" where
  "scan_int s =
     (case s of
        [] \<Rightarrow> None
      | c # t \<Rightarrow> if c = CHR ''0'' then Some ([c], t)
               else if is_digit c then Some (scan_digits s) else None)"

definition scan_frac :: "bytes \<Rightarrow> (bytes \<times> bytes) option" where
  "scan_frac s =
     (case s of
        [] \<Rightarrow> Some ([], [])
      | c # t \<Rightarrow>
          if c = CHR ''.'' then
            (if fst (scan_digits t) = [] then None else Some (scan_digits t))
          else Some ([], s))"

definition scan_exp :: "bytes \<Rightarrow> (int \<times> bytes) option" where
  "scan_exp s =
     (case s of
        [] \<Rightarrow> Some (0, [])
      | c # t \<Rightarrow>
          if c = CHR ''e'' \<or> c = CHR ''E'' then
            (let (neg, t') = (case t of
                 [] \<Rightarrow> (False, t)
               | c' # t' \<Rightarrow> if c' = CHR ''-'' then (True, t')
                          else if c' = CHR ''+'' then (False, t') else (False, t));
                 (ds, r) = scan_digits t'
             in if ds = [] then None else Some (signed neg (digits_val ds), r))
          else Some (0, s))"

definition scan_sign :: "bytes \<Rightarrow> bool \<times> bytes" where
  "scan_sign s = (case s of [] \<Rightarrow> (False, [])
     | c # t \<Rightarrow> if c = CHR ''-'' then (True, t) else (False, s))"

definition scan_number :: "bytes \<Rightarrow> (dec_num \<times> bytes) option" where
  "scan_number s =
     (let (neg, s1) = scan_sign s in
      Option.bind (scan_int s1) (\<lambda>(ip, s2).
      Option.bind (scan_frac s2) (\<lambda>(fp, s3).
      Option.bind (scan_exp s3) (\<lambda>(x, s4).
        Some ((neg, digits_val (ip @ fp), x - int (length fp)), s4)))))"

definition f64_of_dec :: "dec_num \<Rightarrow> float64" where
  "f64_of_dec d = (case d of (neg, m, x) \<Rightarrow> f64_of_ratio neg (m * pow10 x) (pow10 (- x)))"

section \<open>The shortest decimal\<close>

text \<open>
  A positive value is \<open>0.d1 d2 ... dn * 10 ^ dp\<close> for a digit string \<open>ds\<close> and a decimal
  point position \<open>dp\<close>, as in \<open>strconv\<close>'s \<open>decimalSlice\<close>.
\<close>

definition zeros :: "int \<Rightarrow> bytes" where
  "zeros n = replicate (nat n) CHR ''0''"

definition sign_text :: "bool \<Rightarrow> bytes" where
  "sign_text neg = (if neg then ''-'' else [])"

definition layout_f :: "bool \<Rightarrow> bytes \<Rightarrow> int \<Rightarrow> bytes" where
  "layout_f neg ds dp =
     sign_text neg @
     (if dp \<le> 0 then ''0.'' @ zeros (- dp) @ ds
      else if int (length ds) \<le> dp then ds @ zeros (dp - int (length ds))
      else take (nat dp) ds @ ''.'' @ drop (nat dp) ds)"

text \<open>\<open>%e\<close> writes at least two exponent digits; \<open>encoding/json\<close> turns \<open>e-0d\<close> into \<open>e-d\<close>.\<close>

definition exp_text :: "nat \<Rightarrow> int \<Rightarrow> bytes" where
  "exp_text w x = (if x < 0 then ''e-'' else ''e+'') @
     replicate (w - length (decimal \<bar>x\<bar>)) CHR ''0'' @ decimal \<bar>x\<bar>"

definition layout_e :: "nat \<Rightarrow> bool \<Rightarrow> bytes \<Rightarrow> int \<Rightarrow> bytes" where
  "layout_e w neg ds dp =
     sign_text neg @ take 1 ds @ (if length ds \<le> 1 then [] else ''.'' @ drop 1 ds)
       @ exp_text w (dp - 1)"

definition json_layout :: "bool \<Rightarrow> bytes \<Rightarrow> int \<Rightarrow> bytes" where
  "json_layout neg ds dp =
     (if dp - 1 < - 6 \<or> 21 \<le> dp - 1
      then layout_e (if dp - 1 < 0 then 1 else 2) neg ds dp
      else layout_f neg ds dp)"

text \<open>\<open>%v\<close> is \<open>%g\<close> with the shortest digits: exponent form for exponents below -4 and from 6.\<close>

definition v_layout :: "bool \<Rightarrow> bytes \<Rightarrow> int \<Rightarrow> bytes" where
  "v_layout neg ds dp =
     (if dp - 1 < - 4 \<or> 6 \<le> dp - 1 then layout_e 2 neg ds dp else layout_f neg ds dp)"

text \<open>
  \<open>num / den\<close> as a decimal of \<open>n\<close> digits: the position of the decimal point, then the two
  neighbours, the nearer one first.
\<close>

function point_small :: "int \<Rightarrow> int \<Rightarrow> int" where
  "point_small num den =
     (if num \<le> 0 \<or> den \<le> 10 * num then 0 else point_small (10 * num) den - 1)"
  by pat_completeness auto
termination
  by (relation "measure (\<lambda>(num, den). nat (den - num))") auto

declare point_small.simps [simp del]

definition point_pos :: "int \<Rightarrow> int \<Rightarrow> int" where
  "point_pos num den =
     (if den \<le> num then int (length (decimal (num div den))) else point_small num den)"

definition neighbours :: "int \<Rightarrow> int \<Rightarrow> int list" where
  "neighbours a b =
     (let lo = a div b; r = a mod b in
      if 2 * r < b \<or> (2 * r = b \<and> even lo) then [lo, lo + 1] else [lo + 1, lo])"

definition strip_zeros :: "bytes \<Rightarrow> bytes" where
  "strip_zeros ds = rev (dropWhile (\<lambda>c. c = CHR ''0'') (rev ds))"

text \<open>The digit string and point position of \<open>d * 10 ^ x\<close>.\<close>

definition digits_of :: "int \<Rightarrow> int \<Rightarrow> bytes \<times> int" where
  "digits_of d x = (strip_zeros (decimal d), int (length (decimal d)) + x)"

definition candidates :: "int \<Rightarrow> int \<Rightarrow> int \<Rightarrow> (bytes \<times> int) list" where
  "candidates num den n =
     (let dp = point_pos num den; k = n - dp in
      map (\<lambda>d. digits_of d (- k)) (filter (\<lambda>d. 0 < d) (neighbours (num * pow10 k) (den * pow10 (- k)))))"

definition reads_back :: "bool \<Rightarrow> float64 \<Rightarrow> bytes \<times> int \<Rightarrow> bool" where
  "reads_back neg f c =
     (case scan_number (json_layout neg (fst c) (snd c)) of
        Some (d, r) \<Rightarrow> r = [] \<and> f64_of_dec d = f
      | None \<Rightarrow> False)"

fun find_digits :: "bool \<Rightarrow> float64 \<Rightarrow> int \<Rightarrow> int \<Rightarrow> int list \<Rightarrow> (bytes \<times> int) option" where
  "find_digits neg f num den [] = None"
| "find_digits neg f num den (n # ns) =
     (case List.find (reads_back neg f) (candidates num den n) of
        Some c \<Rightarrow> Some c
      | None \<Rightarrow> find_digits neg f num den ns)"

text \<open>
  The shortest digits that read back as the value; the exact expansion, which always does,
  if none of up to 17 digits did.
\<close>

definition exact_digits :: "int \<Rightarrow> int \<Rightarrow> bytes \<times> int" where
  "exact_digits m e =
     (if 0 \<le> e then digits_of (m * pow2 e) 0 else digits_of (m * 5 ^ nat (- e)) e)"

definition shortest_digits :: "bool \<Rightarrow> int \<Rightarrow> int \<Rightarrow> bytes \<times> int" where
  "shortest_digits s m e =
     (if m = 0 then (''0'', 1)
      else case find_digits s (Fin s m e) (m * pow2 e) (pow2 (- e)) [1..17] of
        Some c \<Rightarrow> c
      | None \<Rightarrow> exact_digits m e)"

text \<open>\<open>fmt.Sprintf("%v", f)\<close>, and the number encoder of \<open>encoding/json\<close> (which refuses
  infinities and NaN).\<close>

fun f64_fmt_v :: "float64 \<Rightarrow> bytes" where
  "f64_fmt_v (Fin s m e) = (let (ds, dp) = shortest_digits s m e in v_layout s ds dp)"
| "f64_fmt_v (Inf s) = (if s then ''-Inf'' else ''+Inf'')"
| "f64_fmt_v NaN = ''NaN''"

fun f64_json :: "float64 \<Rightarrow> bytes option" where
  "f64_json (Fin s m e) = (let (ds, dp) = shortest_digits s m e in Some (json_layout s ds dp))"
| "f64_json (Inf s) = None"
| "f64_json NaN = None"

section \<open>What rounding guarantees\<close>

abbreviation rat_of :: "int \<Rightarrow> rat" where "rat_of \<equiv> of_int"

lemma pow2_pos [simp]: "0 < pow2 e"
  by (simp add: pow2_def)

lemma pow10_pos [simp]: "0 < pow10 e"
  by (simp add: pow10_def)

lemma pow2_nonzero [simp]: "pow2 e \<noteq> 0"
  by (simp add: pow2_def)

lemma pow10_nonzero [simp]: "pow10 e \<noteq> 0"
  by (simp add: pow10_def)

lemma pow2_ratio: "rat_of (pow2 e) / rat_of (pow2 (- e)) = 2 powi e"
  by (auto simp: pow2_def power_int_def field_simps)

lemma pow10_ratio: "rat_of (pow10 e) / rat_of (pow10 (- e)) = 10 powi e"
  by (auto simp: pow10_def power_int_def field_simps)

lemma bit_len_bounds:
  "0 < n \<Longrightarrow> \<exists>b. bit_len n = int b + 1 \<and> 2 ^ b \<le> n \<and> n < 2 * 2 ^ b"
proof (induction n rule: bit_len.induct)
  case (1 n)
  show ?case
  proof (cases "n = 1")
    case True
    have "bit_len 1 = 1" by (simp add: bit_len.simps)
    with True show ?thesis by (intro exI [of _ 0]) simp
  next
    case False
    with 1 have "0 < n div 2" by simp
    with 1 obtain b where b: "bit_len (n div 2) = int b + 1" "2 ^ b \<le> n div 2" "n div 2 < 2 * 2 ^ b"
      by auto
    have "bit_len n = 1 + bit_len (n div 2)"
      using 1 by (subst bit_len.simps) simp
    moreover have "2 ^ Suc b \<le> n" "n < 2 * 2 ^ Suc b"
      using b(2,3) by simp_all
    ultimately show ?thesis
      using b(1) by (intro exI [of _ "Suc b"]) simp
  qed
qed

lemma powi_strict: "i < j \<Longrightarrow> (2::rat) powi i < 2 powi j"
  by (rule power_int_strict_increasing) simp_all

lemma rat_pow2_le: "2 ^ b \<le> n \<Longrightarrow> (2::rat) ^ b \<le> rat_of n"
  using of_int_le_iff [where 'a = rat, of "2 ^ b" n] by simp

lemma rat_pow2_less: "n < 2 ^ b \<Longrightarrow> rat_of n < (2::rat) ^ b"
  using of_int_less_iff [where 'a = rat, of n "2 ^ b"] by simp

lemma ratio_log2_bounds:
  assumes "0 < num" "0 < den"
  shows "2 powi ratio_log2 num den \<le> rat_of num / rat_of den"
    and "rat_of num / rat_of den < 2 powi (ratio_log2 num den + 1)"
proof -
  obtain b where b: "bit_len num = int b + 1" "2 ^ b \<le> num" "num < 2 * 2 ^ b"
    using bit_len_bounds [OF assms(1)] by blast
  obtain c where c: "bit_len den = int c + 1" "2 ^ c \<le> den" "den < 2 * 2 ^ c"
    using bit_len_bounds [OF assms(2)] by blast
  define k where "k = int b - int c"
  have B: "(2::rat) ^ b \<le> rat_of num" "rat_of num < 2 * 2 ^ b"
    using b(2,3) rat_pow2_le [of b num] rat_pow2_less [of num "Suc b"] by simp_all
  have C: "(2::rat) ^ c \<le> rat_of den" "rat_of den < 2 * 2 ^ c"
    using c(2,3) rat_pow2_le [of c den] rat_pow2_less [of den "Suc c"] by simp_all
  have pk: "(2::rat) powi k = 2 ^ b / 2 ^ c"
    by (simp add: k_def power_int_diff)
  have den: "0 < rat_of den" and num: "0 \<le> rat_of num" using assms by simp_all
  have "rat_of num * 2 ^ c < 2 * 2 ^ b * rat_of den"
    using B C den num by (intro mult_less_le_imp_less) auto
  then have hi: "rat_of num / rat_of den < 2 powi (k + 1)"
    using den by (simp add: pk power_int_add field_simps)
  have "2 ^ b * rat_of den < rat_of num * (2 * 2 ^ c)"
    using B C den num by (intro mult_le_less_imp_less) auto
  then have lo: "2 powi (k - 1) < rat_of num / rat_of den"
    using den by (simp add: pk power_int_diff field_simps)
  have test: "num * pow2 (- k) < den * pow2 k \<longleftrightarrow> rat_of num / rat_of den < 2 powi k"
  proof -
    have "num * pow2 (- k) < den * pow2 k \<longleftrightarrow>
        rat_of num * rat_of (pow2 (- k)) < rat_of den * rat_of (pow2 k)"
      by (simp flip: of_int_mult)
    also have "\<dots> \<longleftrightarrow> rat_of num / rat_of den < rat_of (pow2 k) / rat_of (pow2 (- k))"
      using den by (simp add: field_simps)
    finally show ?thesis by (simp only: pow2_ratio)
  qed
  have L: "ratio_log2 num den = (if num * pow2 (- k) < den * pow2 k then k - 1 else k)"
    by (simp add: ratio_log2_def b(1) c(1) k_def)
  show "2 powi ratio_log2 num den \<le> rat_of num / rat_of den"
    and "rat_of num / rat_of den < 2 powi (ratio_log2 num den + 1)"
    using lo hi unfolding L test by (auto simp del: power_int_add)
qed

lemma powi_bracket_unique:
  assumes "(2::rat) powi i \<le> r" "r < 2 powi (i + 1)" "2 powi j \<le> r" "r < 2 powi (j + 1)"
  shows "i = j"
proof (rule ccontr)
  assume "i \<noteq> j"
  then consider "i + 1 \<le> j" | "j + 1 \<le> i" by linarith
  then show False
  proof cases
    case 1
    then have "(2::rat) powi (i + 1) \<le> 2 powi j" by (intro power_int_increasing) simp_all
    with assms show False by linarith
  next
    case 2
    then have "(2::rat) powi (j + 1) \<le> 2 powi i" by (intro power_int_increasing) simp_all
    with assms show False by linarith
  qed
qed

lemma round_half_even_exact: "0 < den \<Longrightarrow> round_half_even (q * den) den = q"
  by (simp add: round_half_even_def)

lemma frac_less_iff: "0 < b \<Longrightarrow> rat_of a / rat_of b < rat_of c \<longleftrightarrow> a < c * b"
  by (simp add: pos_divide_less_eq flip: of_int_mult)

lemma frac_ge_iff: "0 < b \<Longrightarrow> rat_of c \<le> rat_of a / rat_of b \<longleftrightarrow> c * b \<le> a"
  by (simp add: pos_le_divide_eq flip: of_int_mult)

section \<open>Canonical values\<close>

text \<open>
  The values the operations produce: zero, and the mantissas below \<open>2 ^ 53\<close> that are
  normalised or at the smallest exponent.
\<close>

definition f64_canonical :: "int \<Rightarrow> int \<Rightarrow> bool" where
  "f64_canonical m e \<longleftrightarrow>
     (m = 0 \<and> e = 0) \<or>
     (0 < m \<and> m < 2 ^ 53 \<and> - 1074 \<le> e \<and> e \<le> 971 \<and> (e = - 1074 \<or> 2 ^ 52 \<le> m))"

fun f64_wf :: "float64 \<Rightarrow> bool" where
  "f64_wf (Fin s m e) = f64_canonical m e"
| "f64_wf (Inf s) = True"
| "f64_wf NaN = True"

text \<open>A ratio that is exactly a canonical value is rounded to that value.\<close>

lemma f64_of_ratio_exact:
  assumes "0 < num" "0 < den" "f64_canonical m e" "0 < m"
    and eq: "rat_of num / rat_of den = rat_of m * 2 powi e"
  shows "f64_of_ratio s num den = Fin s m e"
proof -
  from assms(3,4) have m: "0 < m" "m < 2 ^ 53" "- 1074 \<le> e" "e \<le> 971"
      "e = - 1074 \<or> 2 ^ 52 \<le> m" by (auto simp: f64_canonical_def)
  let ?L = "ratio_log2 num den"
  note L = ratio_log2_bounds [OF assms(1,2), unfolded eq]
  have hi: "rat_of m * 2 powi e < 2 powi (53 + e)"
  proof -
    have "rat_of m < 2 ^ 53" using m(2) by (rule rat_pow2_less)
    then show ?thesis by (simp add: power_int_add)
  qed
  have ex: "max (- 1074) (?L - 52) = e"
  proof (cases "2 ^ 52 \<le> m")
    case True
    then have "2 ^ 52 \<le> rat_of m" by (rule rat_pow2_le)
    then have "2 powi (52 + e) \<le> rat_of m * 2 powi e" by (simp add: power_int_add)
    then have "?L = 52 + e"
      using L hi by (intro powi_bracket_unique [of ?L "rat_of m * 2 powi e"])
        (simp_all add: add.commute add.left_commute)
    with m(3) show ?thesis by simp
  next
    case False
    with m(5) have e: "e = - 1074" by simp
    have "rat_of m < 2 ^ 52" using False by (intro rat_pow2_less) simp
    then have "rat_of m * 2 powi e < 2 powi (52 + e)" by (simp add: power_int_add)
    with L(1) have "(2::rat) powi ?L < 2 powi (52 + e)" by linarith
    then have "?L < 52 + e" by (metis not_less power_int_increasing one_le_numeral leD)
    with e show ?thesis by simp
  qed
  have "rat_of (num * pow2 (- e)) = rat_of (m * (den * pow2 e))"
  proof -
    have "rat_of num * rat_of (pow2 (- e)) = rat_of m * (rat_of den * rat_of (pow2 e))"
      using eq assms(2) by (simp add: pow2_ratio [symmetric] field_simps)
    then show ?thesis by simp
  qed
  then have "num * pow2 (- e) = m * (den * pow2 e)" by (simp only: of_int_eq_iff)
  then have "round_half_even (num * pow2 (- e)) (den * pow2 e) = m"
    using assms(2) by (simp add: round_half_even_exact)
  then show ?thesis
    using assms(1) m by (simp add: f64_of_ratio_def ex Let_def)
qed

lemma round_half_even_bounds:
  assumes "0 < den" "lo * den \<le> num" "num \<le> hi * den"
  shows "lo \<le> round_half_even num den \<and> round_half_even num den \<le> hi"
proof -
  have "lo \<le> num div den"
    using assms(1,2) by (metis nonzero_mult_div_cancel_right order_less_irrefl zdiv_mono1)
  moreover have "num div den \<le> hi"
    using assms(1,3) by (metis nonzero_mult_div_cancel_right order_less_irrefl zdiv_mono1)
  moreover have "num div den + 1 \<le> hi" if "0 < num mod den"
  proof (rule ccontr)
    assume "\<not> num div den + 1 \<le> hi"
    with \<open>num div den \<le> hi\<close> have "num div den = hi" by simp
    then have "num = hi * den + num mod den" by (metis mult_div_mod_eq mult.commute)
    with that assms(3) show False by linarith
  qed
  ultimately show ?thesis
    using assms(1) by (auto simp: round_half_even_def Let_def)
qed


text \<open>Rounding always gives zero, a canonical value or an infinity.\<close>

lemma f64_of_ratio_wf:
  assumes "0 \<le> num" "0 < den"
  shows "f64_wf (f64_of_ratio s num den)"
proof (cases "num = 0")
  case True
  then show ?thesis by (simp add: f64_of_ratio_def f64_canonical_def)
next
  case False
  with assms have num: "0 < num" by simp
  let ?L = "ratio_log2 num den"
  define e where "e = max (- 1074) (?L - 52)"
  let ?a = "num * pow2 (- e)" let ?b = "den * pow2 e"
  note L = ratio_log2_bounds [OF num assms(2)]
  have b: "0 < ?b" using assms(2) by simp
  have ab: "rat_of ?a / rat_of ?b = rat_of num / rat_of den / 2 powi e"
    using assms(2) by (simp add: pow2_ratio [symmetric] field_simps)
  have "rat_of num / rat_of den < 2 powi (53 + e)"
    using L(2) by (rule order_less_le_trans) (auto simp: e_def intro!: power_int_increasing)
  then have "rat_of ?a / rat_of ?b < 2 ^ 53"
    unfolding ab
    by (simp add: power_int_add pos_divide_less_eq mult.commute del: divide_divide_eq_left)
  then have "rat_of ?a / rat_of ?b < rat_of (2 ^ 53)" by simp
  then have up: "?a \<le> 2 ^ 53 * ?b" unfolding frac_less_iff [OF b] by simp
  have low: "2 ^ 52 * ?b \<le> ?a" if "e \<noteq> - 1074"
  proof -
    have "e = ?L - 52" using that by (auto simp: e_def)
    then have "2 ^ 52 * 2 powi e = (2::rat) powi ?L" by (simp add: power_int_diff)
    with L(1) have "2 ^ 52 \<le> rat_of ?a / rat_of ?b"
      unfolding ab by (simp add: pos_le_divide_eq del: divide_divide_eq_left)
    then have "rat_of (2 ^ 52) \<le> rat_of ?a / rat_of ?b" by simp
    then show ?thesis unfolding frac_ge_iff [OF b] .
  qed
  let ?q = "round_half_even ?a ?b"
  have "0 \<le> ?q \<and> ?q \<le> 2 ^ 53"
    using num up b by (intro round_half_even_bounds) (simp_all add: zero_le_mult_iff less_imp_le)
  moreover have "2 ^ 52 \<le> ?q" if "e \<noteq> - 1074"
    using round_half_even_bounds [OF b low [OF that] up] by blast
  moreover have "- 1074 \<le> e" by (simp add: e_def)
  ultimately show ?thesis
    using False by (auto simp: f64_of_ratio_def f64_canonical_def Let_def e_def [symmetric])
qed

section \<open>Reading back a printed number\<close>

lemma digits_val_acc_shift: "digits_val_acc a ds = a * 10 ^ length ds + digits_val_acc 0 ds"
proof (induction ds arbitrary: a)
  case (Cons c ds)
  show ?case
    using Cons.IH [of "10 * a + digit_val c"] Cons.IH [of "digit_val c"]
    by (simp add: algebra_simps)
qed simp

lemma digits_val_append: "digits_val (xs @ ys) = digits_val xs * 10 ^ length ys + digits_val ys"
  unfolding digits_val_def digits_val_acc_append by (rule digits_val_acc_shift)

lemma digit_val_zero [simp]: "digit_val CHR ''0'' = 0"
  by (simp add: digit_val_def)

lemma digits_val_zeros [simp]: "digits_val (replicate n CHR ''0'') = 0"
  by (induction n) (simp_all add: digits_val_def)

lemma digits_val_nonneg: "\<forall>c\<in>set ds. is_digit c \<Longrightarrow> 0 \<le> digits_val ds"
  by (induction ds rule: rev_induct) (auto simp: digits_val_snoc is_digit_def digit_val_def)

lemma is_digit_zero [simp]: "is_digit CHR ''0''"
  by (simp add: is_digit_def)

lemma not_digit [simp]: "\<not> is_digit CHR ''.''" "\<not> is_digit CHR ''e''" "\<not> is_digit CHR ''E''"
    "\<not> is_digit CHR ''-''" "\<not> is_digit CHR ''+''"
  by (simp_all add: is_digit_def)

lemma decimal_hd: "0 < n \<Longrightarrow> hd (decimal n) \<noteq> CHR ''0''"
proof (induction n rule: decimal.induct)
  case (1 n)
  show ?case
  proof (cases "n < 10")
    case True
    with 1 have "digit_val (digit_char n) \<noteq> digit_val CHR ''0''" by simp
    with True show ?thesis by (subst decimal.simps) auto
  next
    case False
    with 1 have "hd (decimal (n div 10)) \<noteq> CHR ''0''" by simp
    with False show ?thesis by (subst decimal.simps) simp
  qed
qed

definition number_ends :: "bytes \<Rightarrow> bool" where
  "number_ends r \<longleftrightarrow>
     (r = [] \<or> \<not> is_digit (hd r) \<and> hd r \<noteq> CHR ''.'' \<and> hd r \<noteq> CHR ''e'' \<and> hd r \<noteq> CHR ''E'')"

lemma scan_digits_append:
  "\<forall>c\<in>set ds. is_digit c \<Longrightarrow> r = [] \<or> \<not> is_digit (hd r) \<Longrightarrow> scan_digits (ds @ r) = (ds, r)"
  by (cases r) (auto simp: scan_digits_def takeWhile_append dropWhile_append)

lemma scan_int_append:
  assumes "\<forall>c\<in>set ds. is_digit c" "ds \<noteq> []" "hd ds \<noteq> CHR ''0'' \<or> ds = ''0''"
    "r = [] \<or> \<not> is_digit (hd r)"
  shows "scan_int (ds @ r) = Some (ds, r)"
  using assms scan_digits_append [OF assms(1,4)]
  by (cases ds) (auto simp: scan_int_def)

lemma scan_frac_append:
  assumes "\<forall>c\<in>set ds. is_digit c" "ds \<noteq> []" "r = [] \<or> \<not> is_digit (hd r)"
  shows "scan_frac (CHR ''.'' # ds @ r) = Some (ds, r)"
  using assms scan_digits_append [OF assms(1,3)] by (simp add: scan_frac_def)

lemma scan_frac_none: "r = [] \<or> hd r \<noteq> CHR ''.'' \<Longrightarrow> scan_frac r = Some ([], r)"
  by (cases r) (auto simp: scan_frac_def)

lemma scan_exp_none: "number_ends r \<Longrightarrow> scan_exp r = Some (0, r)"
  by (cases r) (auto simp: scan_exp_def number_ends_def)

lemma scan_exp_text:
  assumes "number_ends r"
  shows "scan_exp (exp_text w x @ r) = Some (x, r)"
proof -
  let ?ds = "replicate (w - length (decimal \<bar>x\<bar>)) CHR ''0'' @ decimal \<bar>x\<bar>"
  have ds: "\<forall>c\<in>set ?ds. is_digit c" using decimal_digits [of "\<bar>x\<bar>"] by auto
  have "scan_digits (?ds @ r) = (?ds, r)"
    by (rule scan_digits_append [OF ds]) (use assms in \<open>auto simp: number_ends_def\<close>)
  moreover have "digits_val ?ds = \<bar>x\<bar>" by (simp add: digits_val_append)
  ultimately show ?thesis by (auto simp: scan_exp_def exp_text_def signed_def)
qed

lemma scan_sign_text:
  "s = [] \<or> hd s \<noteq> CHR ''-'' \<Longrightarrow> scan_sign (sign_text neg @ s) = (neg, s)"
  by (cases s) (auto simp: scan_sign_def sign_text_def)

lemma exp_text_hd [simp]: "exp_text w x \<noteq> []" "hd (exp_text w x @ r) = CHR ''e''"
    "hd (exp_text w x) = CHR ''e''"
  by (simp_all add: exp_text_def)

text \<open>A literal made of a sign, an integer part, a fraction and an exponent is read as such.\<close>

lemma scan_number_parts:
  assumes "\<forall>c\<in>set ip. is_digit c" "ip \<noteq> []" "hd ip \<noteq> CHR ''0'' \<or> ip = ''0''"
    and "\<forall>c\<in>set fp. is_digit c" "number_ends r"
    and "et = [] \<and> x = 0 \<or> et = exp_text w x"
  shows "scan_number (sign_text neg @ ip @ (if fp = [] then [] else CHR ''.'' # fp) @ et @ r) =
           Some ((neg, digits_val (ip @ fp), x - int (length fp)), r)"
proof -
  have not_minus: "hd (ip @ u) \<noteq> CHR ''-''" for u
    using assms(1,2) by (cases ip) auto
  have et: "scan_exp (et @ r) = Some (x, r)"
    using assms(5,6) scan_exp_none scan_exp_text by auto
  have stop: "et @ r = [] \<or> \<not> is_digit (hd (et @ r)) \<and> hd (et @ r) \<noteq> CHR ''.''"
    using assms(5,6) by (auto simp: number_ends_def)
  have fr: "scan_frac ((if fp = [] then [] else CHR ''.'' # fp) @ et @ r) = Some (fp, et @ r)"
    using stop assms(4) scan_frac_append [of fp "et @ r"] scan_frac_none [of "et @ r"] by auto
  have it: "scan_int (ip @ (if fp = [] then [] else CHR ''.'' # fp) @ et @ r) =
      Some (ip, (if fp = [] then [] else CHR ''.'' # fp) @ et @ r)"
    using stop assms(1-3) by (intro scan_int_append) auto
  show ?thesis
    using not_minus by (simp add: scan_number_def scan_sign_text it fr et)
qed

lemma scan_json_layout:
  assumes ds: "\<forall>c\<in>set ds. is_digit c" "ds \<noteq> []" and hd0: "hd ds \<noteq> CHR ''0'' \<or> (ds = ''0'' \<and> dp = 1)"
  shows "\<exists>d x. (\<forall>r. number_ends r \<longrightarrow> scan_number (json_layout neg ds dp @ r) = Some ((neg, d, x), r))
           \<and> 0 \<le> d \<and> rat_of d * 10 powi x = rat_of (digits_val ds) * 10 powi (dp - int (length ds))"
proof -
  have nn: "0 \<le> digits_val ds" using ds by (simp add: digits_val_nonneg)
  consider (e) "dp - 1 < - 6 \<or> 21 \<le> dp - 1" | (small) "\<not> (dp - 1 < - 6 \<or> 21 \<le> dp - 1)" "dp \<le> 0"
    | (big) "\<not> (dp - 1 < - 6 \<or> 21 \<le> dp - 1)" "0 < dp" "int (length ds) \<le> dp"
    | (mid) "\<not> (dp - 1 < - 6 \<or> 21 \<le> dp - 1)" "0 < dp" "dp < int (length ds)" by linarith
  then show ?thesis
  proof cases
    case e
    let ?w = "if dp - 1 < 0 then 1 else 2 :: nat"
    have eq: "json_layout neg ds dp @ r = sign_text neg @ take 1 ds @
        (if drop 1 ds = [] then [] else CHR ''.'' # drop 1 ds) @ exp_text ?w (dp - 1) @ r" for r
      using e by (simp add: json_layout_def layout_e_def)
    have "scan_number (json_layout neg ds dp @ r) =
        Some ((neg, digits_val ds, dp - 1 - int (length (drop 1 ds))), r)" if "number_ends r" for r
    proof -
      have "hd (take 1 ds) \<noteq> CHR ''0'' \<or> take 1 ds = ''0''" using hd0 ds(2) by (cases ds) auto
      then show ?thesis
        unfolding eq using that ds
        by (subst scan_number_parts [where w = ?w and x = "dp - 1"])
          (auto dest: in_set_takeD in_set_dropD simp del: drop_Suc_Cons length_drop)
    qed
    moreover have "dp - 1 - int (length (drop 1 ds)) = dp - int (length ds)"
      using ds(2) by (cases ds) auto
    ultimately show ?thesis using nn by auto
  next
    case small
    let ?fp = "zeros (- dp) @ ds"
    have "json_layout neg ds dp @ r =
        sign_text neg @ ''0'' @ (if ?fp = [] then [] else CHR ''.'' # ?fp) @ [] @ r" for r
      using small ds(2) by (simp add: json_layout_def layout_f_def)
    moreover have "scan_number (sign_text neg @ ''0'' @ (if ?fp = [] then [] else CHR ''.'' # ?fp) @ [] @ r)
        = Some ((neg, digits_val (''0'' @ ?fp), 0 - int (length ?fp)), r)" if "number_ends r" for r
      using that ds by (intro scan_number_parts) (auto simp: zeros_def)
    moreover have "digits_val (''0'' @ ?fp) = digits_val ds"
      using digits_val_zeros [of 1] by (simp only: digits_val_append zeros_def) simp
    moreover have "0 - int (length ?fp) = dp - int (length ds)"
      using small by (simp add: zeros_def)
    ultimately show ?thesis using nn by auto
  next
    case big
    let ?ip = "ds @ zeros (dp - int (length ds))"
    have "json_layout neg ds dp @ r = sign_text neg @ ?ip @ r" for r
      using big by (simp add: json_layout_def layout_f_def)
    moreover have "scan_number (sign_text neg @ ?ip @ r) = Some ((neg, digits_val ?ip, 0), r)"
      if "number_ends r" for r
    proof -
      have "\<forall>c\<in>set ?ip. is_digit c" using ds by (auto simp: zeros_def)
      moreover have "hd ?ip \<noteq> CHR ''0'' \<or> ?ip = ''0''" using ds hd0 by (auto simp: zeros_def)
      ultimately show ?thesis
        using that ds scan_number_parts
          [where ip = ?ip and fp = "[]" and et = "[]" and x = 0 and r = r and neg = neg] by simp
    qed
    moreover have "rat_of (digits_val ?ip) * 10 powi 0 =
        rat_of (digits_val ds) * 10 powi (dp - int (length ds))"
      using big by (simp add: digits_val_append zeros_def power_int_def)
    moreover have "0 \<le> digits_val ?ip"
      using nn by (simp add: digits_val_append zeros_def)
    ultimately show ?thesis by metis
  next
    case mid
    let ?ip = "take (nat dp) ds" and ?fp = "drop (nat dp) ds"
    have ne: "?ip \<noteq> []" "?fp \<noteq> []" using mid ds by auto
    have "json_layout neg ds dp @ r = sign_text neg @ ?ip @ (if ?fp = [] then [] else CHR ''.'' # ?fp) @ [] @ r" for r
      using mid ne by (simp add: json_layout_def layout_f_def)
    moreover have "scan_number (sign_text neg @ ?ip @ (if ?fp = [] then [] else CHR ''.'' # ?fp) @ [] @ r)
        = Some ((neg, digits_val (?ip @ ?fp), 0 - int (length ?fp)), r)" if "number_ends r" for r
      using that ds hd0 ne mid by (intro scan_number_parts) (auto dest: in_set_takeD in_set_dropD)
    moreover have "0 - int (length ?fp) = dp - int (length ds)" using mid by simp
    ultimately show ?thesis using nn by (metis append_take_drop_id)
  qed
qed


lemma strip_zeros_decomp: "\<exists>k. ds = strip_zeros ds @ replicate k CHR ''0''"
proof -
  let ?z = "takeWhile (\<lambda>c. c = CHR ''0'') (rev ds)"
  have "rev ?z = replicate (length ?z) CHR ''0''"
    by (rule replicate_eqI) (auto dest: set_takeWhileD)
  moreover have "ds = rev (dropWhile (\<lambda>c. c = CHR ''0'') (rev ds)) @ rev ?z"
    by (metis rev_append rev_rev_ident takeWhile_dropWhile_id)
  ultimately show ?thesis unfolding strip_zeros_def by metis
qed

lemma digits_of_spec:
  assumes "0 < d" "digits_of d x = (ds, dp)"
  shows "\<forall>c\<in>set ds. is_digit c" and "ds \<noteq> []" and "hd ds \<noteq> CHR ''0''"
    and "rat_of (digits_val ds) * 10 powi (dp - int (length ds)) = rat_of d * 10 powi x"
proof -
  have ds: "ds = strip_zeros (decimal d)" and dp: "dp = int (length (decimal d)) + x"
    using assms(2) by (simp_all add: digits_of_def)
  obtain k where k: "decimal d = ds @ replicate k CHR ''0''"
    using strip_zeros_decomp ds by metis
  have "set ds \<subseteq> set (decimal d)" using k by simp
  with assms(1) show "\<forall>c\<in>set ds. is_digit c" using decimal_digits [of d] by auto
  have val: "digits_val ds * 10 ^ k = d"
    using digits_val_decimal [of d] assms(1) unfolding k by (simp add: digits_val_append)
  show ne: "ds \<noteq> []" using val assms(1) by auto
  show "hd ds \<noteq> CHR ''0''" using decimal_hd [OF assms(1)] ne by (simp add: k)
  have "dp - int (length ds) = int k + x" using dp by (simp add: k)
  then show "rat_of (digits_val ds) * 10 powi (dp - int (length ds)) = rat_of d * 10 powi x"
    using val by (simp add: power_int_add flip: val)
qed

lemma find_digits_spec:
  assumes "find_digits neg f num den ns = Some (ds, dp)"
  shows "reads_back neg f (ds, dp) \<and> (\<exists>d x. 0 < d \<and> digits_of d x = (ds, dp))"
  using assms
proof (induction ns)
  case (Cons n ns)
  show ?case
  proof (cases "List.find (reads_back neg f) (candidates num den n)")
    case None
    with Cons show ?thesis by simp
  next
    case (Some c)
    then have rb: "reads_back neg f c" and "c \<in> set (candidates num den n)"
      by (auto simp: find_Some_iff)
    then obtain d x where "0 < d" "c = digits_of d x"
      by (auto simp: candidates_def Let_def)
    with Cons.prems Some rb show ?thesis by auto
  qed
qed simp

lemma f64_of_dec_exact:
  assumes "f64_canonical m e" "0 < m" "0 \<le> d" "rat_of d * 10 powi x = rat_of m * 2 powi e"
  shows "f64_of_dec (s, d, x) = Fin s m e"
proof -
  have "rat_of d * 10 powi x \<noteq> 0" using assms(2,4) by simp
  then have "0 < d" using assms(3) by auto
  then show ?thesis
    unfolding f64_of_dec_def prod.case
    using assms by (intro f64_of_ratio_exact)
      (simp_all add: pow10_ratio [symmetric] mult.commute)
qed

lemma f64_of_dec_zero: "f64_of_dec (s, 0, x) = Fin s 0 0"
  by (simp add: f64_of_dec_def f64_of_ratio_def)

lemma exact_digits_spec:
  assumes "0 < m" "exact_digits m e = (ds, dp)"
  shows "\<exists>d x. 0 < d \<and> digits_of d x = (ds, dp) \<and> rat_of d * 10 powi x = rat_of m * 2 powi e"
proof (cases "0 \<le> e")
  case True
  then show ?thesis
    using assms by (intro exI [of _ "m * pow2 e"] exI [of _ 0])
      (auto simp: exact_digits_def pow2_def power_int_def)
next
  case False
  have ten: "(10::rat) ^ n = 5 ^ n * 2 ^ n" for n
    by (simp flip: power_mult_distrib)
  have "(10::rat) powi e = inverse (5 ^ nat (- e)) * 2 powi e"
    using False ten [of "nat (- e)"] by (simp add: power_int_def field_simps power_one_over)
  then show ?thesis
    using assms False by (intro exI [of _ "m * 5 ^ nat (- e)"] exI [of _ e])
      (auto simp: exact_digits_def)
qed

text \<open>
  What the JSON number encoder writes, the JSON number scanner and \<open>ParseFloat\<close> read back
  as the same value, whatever follows the number in the text.
\<close>

lemma f64_json_reads_back:
  assumes "f64_wf (Fin s m e)" "f64_json (Fin s m e) = Some t"
  shows "\<exists>d. (\<forall>r. number_ends r \<longrightarrow> scan_number (t @ r) = Some (d, r)) \<and> f64_of_dec d = Fin s m e"
proof -
  obtain ds dp where sd: "shortest_digits s m e = (ds, dp)" by fastforce
  have t: "t = json_layout s ds dp" using assms(2) sd by simp
  have scan: "\<exists>d x. (\<forall>r. number_ends r \<longrightarrow> scan_number (t @ r) = Some ((s, d, x), r)) \<and> 0 \<le> d \<and>
      rat_of d * 10 powi x = rat_of d' * 10 powi x'"
    if "0 < d'" "digits_of d' x' = (ds, dp)" for d' x'
    unfolding t using scan_json_layout [of ds dp s] digits_of_spec [OF that] by metis
  show ?thesis
  proof (cases "m = 0")
    case True
    then have "ds = ''0''" "dp = 1" "e = 0"
      using sd assms(1) by (simp_all add: shortest_digits_def f64_canonical_def)
    then obtain d x where d: "\<forall>r. number_ends r \<longrightarrow> scan_number (t @ r) = Some ((s, d, x), r)"
        and "rat_of d * 10 powi x = 0"
      unfolding t using scan_json_layout [of ds dp s] by (auto simp: digits_val_def)
    then have "d = 0" by simp
    with d True \<open>e = 0\<close> show ?thesis using f64_of_dec_zero by blast
  next
    case False
    then have m: "0 < m" using assms(1) by (auto simp: f64_canonical_def)
    show ?thesis
    proof (cases "find_digits s (Fin s m e) (m * pow2 e) (pow2 (- e)) [1..17]")
      case (Some c)
      then have "find_digits s (Fin s m e) (m * pow2 e) (pow2 (- e)) [1..17] = Some (ds, dp)"
        using sd False by (simp add: shortest_digits_def)
      then obtain d' x' where rb: "reads_back s (Fin s m e) (ds, dp)"
          and "0 < d'" "digits_of d' x' = (ds, dp)" using find_digits_spec by blast
      then obtain d x where d: "\<forall>r. number_ends r \<longrightarrow> scan_number (t @ r) = Some ((s, d, x), r)"
        using scan by blast
      from d have "scan_number t = Some ((s, d, x), [])"
        by (metis append_Nil2 number_ends_def)
      with rb d show ?thesis by (auto simp: reads_back_def t)
    next
      case None
      then have "exact_digits m e = (ds, dp)"
        using sd False by (simp add: shortest_digits_def)
      then obtain d' x' where "0 < d'" "digits_of d' x' = (ds, dp)"
          and v: "rat_of d' * 10 powi x' = rat_of m * 2 powi e"
        using exact_digits_spec [OF m] by blast
      then obtain d x where "\<forall>r. number_ends r \<longrightarrow> scan_number (t @ r) = Some ((s, d, x), r)"
          "0 \<le> d" "rat_of d * 10 powi x = rat_of m * 2 powi e"
        using scan by metis
      moreover have "f64_of_dec (s, d, x) = Fin s m e"
        using calculation assms(1) m by (intro f64_of_dec_exact) simp_all
      ultimately show ?thesis by blast
    qed
  qed
qed

text \<open>What the scanner and \<open>ParseFloat\<close> produce is zero, canonical or an overflow.\<close>

lemma scan_number_nonneg: "scan_number s = Some ((neg, d, x), r) \<Longrightarrow> 0 \<le> d"
proof -
  assume "scan_number s = Some ((neg, d, x), r)"
  then obtain s1 ip s2 fp s3 where "scan_int s1 = Some (ip, s2)" "scan_frac s2 = Some (fp, s3)"
      "d = digits_val (ip @ fp)"
    by (auto simp: scan_number_def bind_eq_Some_conv split: prod.splits)
  moreover from this have "\<forall>c\<in>set (ip @ fp). is_digit c"
    by (auto simp: scan_int_def scan_frac_def scan_digits_def
        split: list.splits if_splits dest: set_takeWhileD)
  ultimately show ?thesis by (simp add: digits_val_nonneg)
qed

lemma f64_of_dec_wf: "0 \<le> d \<Longrightarrow> f64_wf (f64_of_dec (neg, d, x))"
  by (simp add: f64_of_dec_def f64_of_ratio_wf zero_le_mult_iff less_imp_le)

lemma f64_of_int_wf: "f64_wf (f64_of_int n)"
  by (simp add: f64_of_int_def f64_of_ratio_wf)

end
