(* ===== verification/Go_UTF8.thy ===== *)
theory Go_UTF8
  imports Go_Bytes
begin

text \<open>
  UTF-8 as Go's \<open>utf8.DecodeRune\<close> sees it: the length of the valid encoding at the head
  of a byte sequence (0 if there is none), and the replacement of every byte that starts no
  valid encoding by U+FFFD, which is what \<open>encoding/json\<close> does to strings.
\<close>

definition byte_in :: "char \<Rightarrow> int \<Rightarrow> int \<Rightarrow> bool" where
  "byte_in c lo hi \<longleftrightarrow> lo \<le> of_char c \<and> of_char c \<le> hi"

definition cont_byte :: "char \<Rightarrow> bool" where
  "cont_byte c \<longleftrightarrow> byte_in c 0x80 0xBF"

definition two_ok :: "char \<Rightarrow> char \<Rightarrow> bool" where
  "two_ok a b \<longleftrightarrow> byte_in a 0xC2 0xDF \<and> cont_byte b"

definition three_ok :: "char \<Rightarrow> char \<Rightarrow> char \<Rightarrow> bool" where
  "three_ok a b c \<longleftrightarrow> byte_in a 0xE0 0xEF \<and>
     byte_in b (if byte_in a 0xE0 0xE0 then 0xA0 else 0x80)
               (if byte_in a 0xED 0xED then 0x9F else 0xBF) \<and> cont_byte c"

definition four_ok :: "char \<Rightarrow> char \<Rightarrow> char \<Rightarrow> char \<Rightarrow> bool" where
  "four_ok a b c d \<longleftrightarrow> byte_in a 0xF0 0xF4 \<and>
     byte_in b (if byte_in a 0xF0 0xF0 then 0x90 else 0x80)
               (if byte_in a 0xF4 0xF4 then 0x8F else 0xBF) \<and> cont_byte c \<and> cont_byte d"

definition ascii :: "char \<Rightarrow> bool" where
  "ascii c \<longleftrightarrow> byte_in c 0 0x7F"

fun rune_len :: "bytes \<Rightarrow> nat" where
  "rune_len [] = 0"
| "rune_len [a] = (if ascii a then 1 else 0)"
| "rune_len [a, b] = (if ascii a then 1 else if two_ok a b then 2 else 0)"
| "rune_len [a, b, c] =
     (if ascii a then 1 else if two_ok a b then 2 else if three_ok a b c then 3 else 0)"
| "rune_len (a # b # c # d # s) =
     (if ascii a then 1 else if two_ok a b then 2 else if three_ok a b c then 3
      else if four_ok a b c d then 4 else 0)"

definition replacement_rune :: bytes where
  "replacement_rune = [CHR 0xEF, CHR 0xBF, CHR 0xBD]"

lemma rune_len_le: "rune_len s \<le> length s"
  by (cases s rule: rune_len.cases) auto

lemma rune_len_ascii: "ascii a \<Longrightarrow> rune_len (a # t) = 1"
  by (cases "a # t" rule: rune_len.cases) auto

lemma rune_len_two: "\<not> ascii a \<Longrightarrow> two_ok a b \<Longrightarrow> rune_len (a # b # t) = 2"
  by (cases "a # b # t" rule: rune_len.cases) auto

lemma rune_len_three:
  "\<not> ascii a \<Longrightarrow> \<not> two_ok a b \<Longrightarrow> three_ok a b c \<Longrightarrow> rune_len (a # b # c # t) = 3"
  by (cases "a # b # c # t" rule: rune_len.cases) auto

lemma rune_len_append: "0 < rune_len s \<Longrightarrow> rune_len (s @ t) = rune_len s"
  by (cases s rule: rune_len.cases)
    (auto simp: rune_len_ascii rune_len_two rune_len_three split: if_splits)

lemma rune_len_take: "rune_len (take (rune_len s) s) = rune_len s"
  by (cases s rule: rune_len.cases) auto

text \<open>The code point of a valid encoding, and the encoding of a code point.\<close>

definition low6 :: "char \<Rightarrow> int" where
  "low6 c = of_char c mod 64"

definition decode_rune :: "bytes \<Rightarrow> int" where
  "decode_rune s =
     (case s of
        [] \<Rightarrow> 0xFFFD
      | a # _ \<Rightarrow>
          if ascii a then of_char a
          else if rune_len s = 2 then (of_char a mod 32) * 64 + low6 (s ! 1)
          else if rune_len s = 3 then
            (of_char a mod 16) * 4096 + low6 (s ! 1) * 64 + low6 (s ! 2)
          else if rune_len s = 4 then
            (of_char a mod 8) * 262144 + low6 (s ! 1) * 4096 + low6 (s ! 2) * 64 + low6 (s ! 3)
          else 0xFFFD)"

definition encode_rune :: "int \<Rightarrow> bytes" where
  "encode_rune r =
     (if r < 0x80 then [char_of r]
      else if r < 0x800 then [char_of (0xC0 + r div 64), char_of (0x80 + r mod 64)]
      else if r < 0x10000 then
        [char_of (0xE0 + r div 4096), char_of (0x80 + r div 64 mod 64), char_of (0x80 + r mod 64)]
      else [char_of (0xF0 + r div 262144), char_of (0x80 + r div 4096 mod 64),
            char_of (0x80 + r div 64 mod 64), char_of (0x80 + r mod 64)])"

text \<open>Replacing what is not UTF-8, and being UTF-8.\<close>

function to_valid_utf8 :: "bytes \<Rightarrow> bytes" where
  "to_valid_utf8 s =
     (if s = [] then []
      else if rune_len s = 0 then replacement_rune @ to_valid_utf8 (drop 1 s)
      else take (rune_len s) s @ to_valid_utf8 (drop (rune_len s) s))"
  by pat_completeness auto
termination
  by (relation "measure length") auto

declare to_valid_utf8.simps [simp del]

function valid_utf8 :: "bytes \<Rightarrow> bool" where
  "valid_utf8 s =
     (if s = [] then True
      else if rune_len s = 0 then False
      else valid_utf8 (drop (rune_len s) s))"
  by pat_completeness auto
termination
  by (relation "measure length") auto

declare valid_utf8.simps [simp del]

lemma valid_utf8_Nil [simp]: "valid_utf8 []"
  by (simp add: valid_utf8.simps)

lemma valid_utf8_rune:
  assumes "0 < rune_len u" "rune_len u = length u"
  shows "valid_utf8 (u @ s) = valid_utf8 s"
proof -
  have "rune_len (u @ s) = length u" using assms by (simp add: rune_len_append)
  with assms show ?thesis by (subst valid_utf8.simps) auto
qed

text \<open>Valid text is a sequence of valid runes.\<close>

lemma valid_utf8_induct [consumes 1, case_names nil rune]:
  assumes "valid_utf8 s" and "P []"
    and "\<And>u s. 0 < rune_len u \<Longrightarrow> rune_len u = length u \<Longrightarrow> valid_utf8 s \<Longrightarrow> P s \<Longrightarrow> P (u @ s)"
  shows "P s"
  using assms(1)
proof (induction s rule: valid_utf8.induct)
  case (1 s)
  show ?case
  proof (cases "s = []")
    case False
    with "1.prems" have len: "0 < rune_len s" and rest: "valid_utf8 (drop (rune_len s) s)"
      by (simp_all add: valid_utf8.simps [of s] split: if_splits)
    with False 1 have "P (drop (rune_len s) s)" by blast
    with len rest have "P (take (rune_len s) s @ drop (rune_len s) s)"
      using rune_len_le [of s] by (intro assms(3)) (simp_all add: rune_len_take)
    then show ?thesis by simp
  qed (simp add: assms(2))
qed

lemma valid_utf8_append: "valid_utf8 s \<Longrightarrow> valid_utf8 (s @ t) = valid_utf8 t"
  by (induction s rule: valid_utf8_induct) (simp_all add: valid_utf8_rune)

lemma valid_replacement [simp]: "rune_len replacement_rune = 3" "length replacement_rune = 3"
  by (simp_all add: replacement_rune_def ascii_def byte_in_def two_ok_def three_ok_def
      cont_byte_def)

lemma to_valid_utf8_valid [simp]: "valid_utf8 (to_valid_utf8 s)"
proof (induction s rule: to_valid_utf8.induct)
  case (1 s)
  consider "s = []" | "s \<noteq> []" "rune_len s = 0" | "s \<noteq> []" "0 < rune_len s" by blast
  then show ?case
  proof cases
    case 1
    then show ?thesis by (simp add: to_valid_utf8.simps)
  next
    case 2
    with "1.IH"(1) show ?thesis
      by (subst to_valid_utf8.simps) (simp add: valid_utf8_rune)
  next
    case 3
    with "1.IH"(2) show ?thesis
      using rune_len_le [of s]
      by (subst to_valid_utf8.simps) (simp add: valid_utf8_rune rune_len_take)
  qed
qed

lemma to_valid_utf8_id: "valid_utf8 s \<Longrightarrow> to_valid_utf8 s = s"
proof (induction s rule: valid_utf8_induct)
  case nil
  show ?case by (simp add: to_valid_utf8.simps)
next
  case (rune u s)
  then have "rune_len (u @ s) = length u" by (simp add: rune_len_append)
  with rune show ?case by (subst to_valid_utf8.simps) auto
qed

end
