(* ===== verification/Go_JSON.thy ===== *)
theory Go_JSON
  imports Go_Float Go_UTF8
begin

text \<open>
  Go's \<open>encoding/json\<close>, as the program uses it: decoding a text into an \<open>interface{}\<close>
  (the datatype \<open>json\<close>), encoding such a value, and \<open>fmt\<close>'s \<open>%v\<close> on it. A Go map has no
  order of its own, but both \<open>Marshal\<close> and \<open>%v\<close> visit it in key order; it is kept as an
  association list in increasing key order.
\<close>

datatype json =
    JNull
  | JBool bool
  | JNum float64
  | JStr bytes
  | JArr "json list"
  | JObj "(bytes \<times> json) list"

fun map_put :: "bytes \<Rightarrow> 'v \<Rightarrow> (bytes \<times> 'v) list \<Rightarrow> (bytes \<times> 'v) list" where
  "map_put k v [] = [(k, v)]"
| "map_put k v ((k', v') # m) =
     (if k < k' then (k, v) # (k', v') # m
      else if k = k' then (k, v) # m
      else (k', v') # map_put k v m)"

section \<open>Decoding\<close>

definition is_ws :: "char \<Rightarrow> bool" where
  "is_ws c \<longleftrightarrow> c = CHR '' '' \<or> c = CHR 0x09 \<or> c = cr \<or> c = nl"

definition skip_ws :: "bytes \<Rightarrow> bytes" where
  "skip_ws s = dropWhile is_ws s"

lemma skip_ws_Cons_length: "skip_ws s = c # t \<Longrightarrow> length t < length s"
  using length_dropWhile_le [of is_ws s] by (simp add: skip_ws_def)

lemma skip_ws_length [simp]: "length (skip_ws s) \<le> length s"
  by (simp add: skip_ws_def length_dropWhile_le)

subsection \<open>Strings\<close>

definition hex_val :: "char \<Rightarrow> int option" where
  "hex_val c =
     (let n = of_char c in
      if 48 \<le> n \<and> n \<le> 57 then Some (n - 48)
      else if 97 \<le> n \<and> n \<le> 102 then Some (n - 87)
      else if 65 \<le> n \<and> n \<le> 70 then Some (n - 55)
      else None)"

text \<open>The code unit of a \<open>\uXXXX\<close> escape at the head of the text.\<close>

definition getu4 :: "bytes \<Rightarrow> int option" where
  "getu4 s =
     (case s of
        b # u # h1 # h2 # h3 # h4 # _ \<Rightarrow>
          if b = bslash \<and> u = CHR ''u'' then
            Option.bind (hex_val h1) (\<lambda>a. Option.bind (hex_val h2) (\<lambda>b.
            Option.bind (hex_val h3) (\<lambda>c. Option.bind (hex_val h4) (\<lambda>d.
              Some (((a * 16 + b) * 16 + c) * 16 + d)))))
          else None
      | _ \<Rightarrow> None)"

definition is_surrogate :: "int \<Rightarrow> bool" where
  "is_surrogate r \<longleftrightarrow> 0xD800 \<le> r \<and> r < 0xE000"

definition surrogate_pair :: "int \<Rightarrow> int \<Rightarrow> int option" where
  "surrogate_pair r1 r2 =
     (if 0xD800 \<le> r1 \<and> r1 < 0xDC00 \<and> 0xDC00 \<le> r2 \<and> r2 < 0xE000
      then Some ((r1 - 0xD800) * 1024 + (r2 - 0xDC00) + 0x10000) else None)"

text \<open>An escape at the head of the text: the bytes it stands for and its length.\<close>

definition unescape_u :: "bytes \<Rightarrow> (bytes \<times> nat) option" where
  "unescape_u s =
     (case getu4 s of
        None \<Rightarrow> None
      | Some r \<Rightarrow>
          if is_surrogate r then
            (case Option.bind (getu4 (drop 6 s)) (surrogate_pair r) of
               Some r' \<Rightarrow> Some (encode_rune r', 12)
             | None \<Rightarrow> Some (replacement_rune, 6))
          else Some (encode_rune r, 6))"

definition unescape :: "bytes \<Rightarrow> (bytes \<times> nat) option" where
  "unescape s =
     (case s of
        _ # c # _ \<Rightarrow>
          if c = dquote \<or> c = bslash \<or> c = CHR ''/'' then Some ([c], 2)
          else if c = CHR ''b'' then Some ([CHR 0x08], 2)
          else if c = CHR ''f'' then Some ([CHR 0x0C], 2)
          else if c = CHR ''n'' then Some ([nl], 2)
          else if c = CHR ''r'' then Some ([cr], 2)
          else if c = CHR ''t'' then Some ([CHR 0x09], 2)
          else if c = CHR ''u'' then unescape_u s
          else None
      | _ \<Rightarrow> None)"

definition prepend :: "bytes \<Rightarrow> (bytes \<times> bytes) option \<Rightarrow> (bytes \<times> bytes) option" where
  "prepend out res = map_option (\<lambda>(v, r). (out @ v, r)) res"

text \<open>The rest of a string literal after its opening quote: its value and what follows.\<close>

function scan_string :: "bytes \<Rightarrow> (bytes \<times> bytes) option" where
  "scan_string s =
     (if s = [] then None
      else if hd s = dquote then Some ([], drop 1 s)
      else if hd s = bslash then
        (case unescape s of
           None \<Rightarrow> None
         | Some (out, n) \<Rightarrow> prepend out (scan_string (drop (max 1 n) s)))
      else if of_char (hd s) < (32 :: int) then None
      else if rune_len s = 0 then prepend replacement_rune (scan_string (drop 1 s))
      else prepend (take (rune_len s) s) (scan_string (drop (rune_len s) s)))"
  by pat_completeness auto
termination
  by (relation "measure length") auto

declare scan_string.simps [simp del]

subsection \<open>Values\<close>

text \<open>
  The recursive descent the scanner and the decoder perform together. \<open>d\<close> is how many more
  levels of nesting are allowed (\<open>encoding/json\<close> stops at 10000). The length tests guard the
  recursive calls; they always hold, since every production consumes input.

  The target decides two things. Decoded into an \<open>interface{}\<close> (\<open>raw\<close> false), an object
  becomes a Go map, where the last of several equal keys wins, and a number that overflows
  \<open>float64\<close> is an error. With \<open>raw\<close> true the members are kept in text order, duplicates
  included, and numbers are not checked: this is the order in which decoding into a struct
  visits the members, skipping those that match no field.
\<close>

definition member_put ::
  "bool \<Rightarrow> bytes \<Rightarrow> 'v \<Rightarrow> (bytes \<times> 'v) list \<Rightarrow> (bytes \<times> 'v) list"
where
  "member_put raw k v m = (if raw then m @ [(k, v)] else map_put k v m)"

function pvalue :: "bool \<Rightarrow> int \<Rightarrow> bytes \<Rightarrow> (json \<times> bytes) option"
  and pelems :: "bool \<Rightarrow> int \<Rightarrow> bytes \<Rightarrow> (json list \<times> bytes) option"
  and pmembers :: "bool \<Rightarrow> int \<Rightarrow> (bytes \<times> json) list \<Rightarrow> bytes \<Rightarrow> ((bytes \<times> json) list \<times> bytes) option"
where
  "pvalue raw d s =
     (case skip_ws s of
        [] \<Rightarrow> None
      | c # t \<Rightarrow>
          if c = lbrace then
            (if d \<le> 0 then None
             else if take 1 (skip_ws t) = [rbrace] then Some (JObj [], drop 1 (skip_ws t))
             else map_option (\<lambda>(m, r). (JObj m, r)) (pmembers raw (d - 1) [] t))
          else if c = lbrack then
            (if d \<le> 0 then None
             else if take 1 (skip_ws t) = [rbrack] then Some (JArr [], drop 1 (skip_ws t))
             else map_option (\<lambda>(vs, r). (JArr vs, r)) (pelems raw (d - 1) t))
          else if c = dquote then map_option (\<lambda>(v, r). (JStr v, r)) (scan_string t)
          else if HasPrefix (c # t) ''true'' then Some (JBool True, drop 4 (c # t))
          else if HasPrefix (c # t) ''false'' then Some (JBool False, drop 5 (c # t))
          else if HasPrefix (c # t) ''null'' then Some (JNull, drop 4 (c # t))
          else (case scan_number (c # t) of
                  None \<Rightarrow> None
                | Some (n, r) \<Rightarrow>
                    (case f64_of_dec n of
                       Fin sg m e \<Rightarrow> Some (JNum (Fin sg m e), r)
                     | f \<Rightarrow> if raw then Some (JNum f, r) else None)))"
| "pelems raw d s =
     (case pvalue raw d s of
        None \<Rightarrow> None
      | Some (v, r) \<Rightarrow>
          (case skip_ws r of
             [] \<Rightarrow> None
           | c # r' \<Rightarrow>
               if c = CHR '','' then
                 (if length r' < length s
                  then map_option (\<lambda>(vs, r''). (v # vs, r'')) (pelems raw d r') else None)
               else if c = rbrack then Some ([v], r')
               else None))"
| "pmembers raw d m s =
     (case skip_ws s of
        [] \<Rightarrow> None
      | c # t \<Rightarrow>
          if c \<noteq> dquote then None
          else (case scan_string t of
             None \<Rightarrow> None
           | Some (k, r) \<Rightarrow>
               (case skip_ws r of
                  [] \<Rightarrow> None
                | c1 # r1 \<Rightarrow>
                    if c1 = CHR '':'' \<and> length r1 < length s then
                      (case pvalue raw d r1 of
                         None \<Rightarrow> None
                       | Some (v, r2) \<Rightarrow>
                           (case skip_ws r2 of
                              [] \<Rightarrow> None
                            | c3 # r3 \<Rightarrow>
                                if c3 = CHR '','' then
                                  (if length r3 < length s then pmembers raw d (member_put raw k v m) r3
                                   else None)
                                else if c3 = rbrace then Some (member_put raw k v m, r3)
                                else None))
                    else None)))"
  by pat_completeness auto
termination
  by (relation "measures
      [\<lambda>x. case x of Inl (_, d, s) \<Rightarrow> length s | Inr (Inl (_, d, s)) \<Rightarrow> length s
                  | Inr (Inr (_, d, m, s)) \<Rightarrow> length s,
       \<lambda>x. case x of Inl (_, d, s) \<Rightarrow> 0 | Inr (Inl (_, d, s)) \<Rightarrow> 1 | Inr (Inr (_, d, m, s)) \<Rightarrow> 1]")
    (auto dest: skip_ws_Cons_length)

declare pvalue.simps [simp del] pelems.simps [simp del] pmembers.simps [simp del]

definition max_nesting :: int where
  "max_nesting = 10000"

text \<open>\<open>json.Unmarshal\<close>: one value, and nothing but white space after it.\<close>

definition unmarshal :: "bool \<Rightarrow> bytes \<Rightarrow> json option" where
  "unmarshal raw s =
     (case pvalue raw max_nesting s of
        None \<Rightarrow> None
      | Some (v, r) \<Rightarrow> if skip_ws r = [] then Some v else None)"

abbreviation json_decode :: "bytes \<Rightarrow> json option" where
  "json_decode \<equiv> unmarshal False"

section \<open>Encoding\<close>

definition hex_digit :: "int \<Rightarrow> char" where
  "hex_digit n = (if n < 10 then char_of (48 + n) else char_of (87 + n))"

definition html_safe :: "char \<Rightarrow> bool" where
  "html_safe c \<longleftrightarrow> (32 :: int) \<le> of_char c \<and>
     c \<notin> {dquote, bslash, CHR ''<'', CHR ''>'', CHR ''&''}"

definition escape_byte :: "char \<Rightarrow> bytes" where
  "escape_byte c =
     (if c = bslash \<or> c = dquote then [bslash, c]
      else if c = CHR 0x08 then [bslash, CHR ''b'']
      else if c = CHR 0x0C then [bslash, CHR ''f'']
      else if c = nl then [bslash, CHR ''n'']
      else if c = cr then [bslash, CHR ''r'']
      else if c = CHR 0x09 then [bslash, CHR ''t'']
      else [bslash, CHR ''u'', CHR ''0'', CHR ''0'',
            hex_digit (of_char c div 16), hex_digit (of_char c mod 16)])"

definition escape_rune :: "bytes \<Rightarrow> bytes" where
  "escape_rune u =
     (if length u = 1 then (if html_safe (hd u) then u else escape_byte (hd u))
      else if u = [CHR 0xE2, CHR 0x80, CHR 0xA8] then bslash # ''u2028''
      else if u = [CHR 0xE2, CHR 0x80, CHR 0xA9] then bslash # ''u2029''
      else u)"

function escape_string :: "bytes \<Rightarrow> bytes" where
  "escape_string s =
     (if s = [] then []
      else if rune_len s = 0 then bslash # ''ufffd'' @ escape_string (drop 1 s)
      else escape_rune (take (rune_len s) s) @ escape_string (drop (rune_len s) s))"
  by pat_completeness auto
termination
  by (relation "measure length") auto

declare escape_string.simps [simp del]

definition string_text :: "bytes \<Rightarrow> bytes" where
  "string_text s = dquote # escape_string s @ [dquote]"

fun commas :: "bytes list \<Rightarrow> bytes" where
  "commas [] = []"
| "commas [x] = x"
| "commas (x # y # zs) = x @ CHR '','' # commas (y # zs)"

fun json_text :: "json \<Rightarrow> bytes" where
  "json_text JNull = ''null''"
| "json_text (JBool b) = (if b then ''true'' else ''false'')"
| "json_text (JNum f) = (case f64_json f of Some t \<Rightarrow> t | None \<Rightarrow> [])"
| "json_text (JStr s) = string_text s"
| "json_text (JArr vs) = lbrack # commas (map json_text vs) @ [rbrack]"
| "json_text (JObj m) =
     lbrace # commas (map (\<lambda>(k, v). string_text k @ CHR '':'' # json_text v) m) @ [rbrace]"

fun json_finite :: "json \<Rightarrow> bool" where
  "json_finite (JNum f) = (case f of Fin s m e \<Rightarrow> True | _ \<Rightarrow> False)"
| "json_finite (JArr vs) = list_all json_finite vs"
| "json_finite (JObj m) = list_all (\<lambda>(k, v). json_finite v) m"
| "json_finite _ = True"

text \<open>\<open>json.Marshal\<close> with its error dropped: no bytes for a value that has no JSON text.\<close>

definition json_marshal :: "json \<Rightarrow> bytes" where
  "json_marshal v = (if json_finite v then json_text v else [])"

section \<open>\<open>fmt.Sprintf("%v", v)\<close>\<close>

fun spaced :: "bytes list \<Rightarrow> bytes" where
  "spaced [] = []"
| "spaced [x] = x"
| "spaced (x # y # zs) = x @ CHR '' '' # spaced (y # zs)"

fun json_fmt_v :: "json \<Rightarrow> bytes" where
  "json_fmt_v JNull = ''<nil>''"
| "json_fmt_v (JBool b) = (if b then ''true'' else ''false'')"
| "json_fmt_v (JNum f) = f64_fmt_v f"
| "json_fmt_v (JStr s) = s"
| "json_fmt_v (JArr vs) = CHR ''['' # spaced (map json_fmt_v vs) @ '']''"
| "json_fmt_v (JObj m) = ''map['' @ spaced (map (\<lambda>(k, v). k @ CHR '':'' # json_fmt_v v) m) @ '']''"

end
