(* ===== verification/Go_JSON_Roundtrip.thy ===== *)
theory Go_JSON_Roundtrip
  imports Go_JSON
begin

text \<open>
  \<open>json.Unmarshal\<close> undoes \<open>json.Marshal\<close>: every value the decoder can produce is
  well-formed (\<open>json_decode_wf\<close>), and a well-formed value is read back from its own text,
  whatever delimiter follows it (\<open>pvalue_text\<close>, \<open>json_roundtrip\<close>). The components use
  this to say that what they store re-encoded is still what was observed.
\<close>

section \<open>Encoded runes are valid\<close>

lemma of_char_small [simp]:
  "0 \<le> n \<Longrightarrow> n < 256 \<Longrightarrow> (of_char (char_of n :: char) :: int) = n"
  by simp

lemma three_ok_bytes:
  fixes q a b :: int
  assumes "0 \<le> q" "q < 16" "0 \<le> a" "a < 64" "0 \<le> b" "b < 64"
    "q = 0 \<Longrightarrow> 32 \<le> a" "q = 13 \<Longrightarrow> a < (32 :: int)"
  shows "three_ok (char_of (224 + q)) (char_of (128 + a)) (char_of (128 + b))"
  using assms by (auto simp: three_ok_def byte_in_def cont_byte_def)

lemma four_ok_bytes:
  fixes q a b c :: int
  assumes "0 \<le> q" "q < 5" "0 \<le> a" "a < 64" "0 \<le> b" "b < 64" "0 \<le> c" "c < 64"
    "q = 0 \<Longrightarrow> 16 \<le> a" "q = 4 \<Longrightarrow> a < (16 :: int)"
  shows "four_ok (char_of (240 + q)) (char_of (128 + a)) (char_of (128 + b)) (char_of (128 + c))"
  using assms by (auto simp: four_ok_def byte_in_def cont_byte_def)

lemma encode_rune_valid:
  assumes "0 \<le> r" "r < 0x110000" "\<not> is_surrogate r"
  shows "rune_len (encode_rune r) = length (encode_rune r) \<and> 0 < rune_len (encode_rune r)"
proof -
  consider "r < 0x80" | "0x80 \<le> r" "r < 0x800" | "0x800 \<le> r" "r < 0x10000" | "0x10000 \<le> r"
    by linarith
  then show ?thesis
  proof cases
    case 1
    with assms show ?thesis by (simp add: encode_rune_def ascii_def byte_in_def)
  next
    case 2
    then have "2 \<le> r div 64" "r div 64 < 32" by linarith+
    moreover have "0 \<le> r mod 64" "r mod 64 < 64" by simp_all
    ultimately show ?thesis using 2
      by (simp add: encode_rune_def ascii_def byte_in_def two_ok_def cont_byte_def)
  next
    case 3
    then have q: "0 \<le> r div 4096" "r div 4096 < 16" by linarith+
    have m: "0 \<le> r mod 64" "r mod 64 < 64" "0 \<le> r div 64 mod 64" "r div 64 mod 64 < 64"
      by simp_all
    have split: "r div 64 = 64 * (r div 4096) + r div 64 mod 64"
      using mult_div_mod_eq [of 64 "r div 64"] by (simp add: zdiv_zmult2_eq [symmetric])
    have lo: "32 \<le> r div 64 mod 64" if "r div 4096 = 0"
    proof -
      have "32 \<le> r div 64" using 3 by simp
      with split that show ?thesis by linarith
    qed
    have hi: "r div 64 mod 64 < 32" if "r div 4096 = 13"
    proof -
      have "r < 0xD800" using assms(3) 3 that by (simp add: is_surrogate_def) linarith
      then have "r div 64 < 864" by simp
      with split that show ?thesis by linarith
    qed
    have "three_ok (char_of (224 + r div 4096)) (char_of (128 + r div 64 mod 64))
            (char_of (128 + r mod 64))"
      using q m lo hi by (intro three_ok_bytes)
    with 3 q show ?thesis
      by (simp add: encode_rune_def ascii_def byte_in_def two_ok_def)
  next
    case 4
    then have q: "0 \<le> r div 262144" "r div 262144 < 5" using assms by linarith+
    have m: "0 \<le> r mod 64" "r mod 64 < 64" "0 \<le> r div 64 mod 64" "r div 64 mod 64 < 64"
        "0 \<le> r div 4096 mod 64" "r div 4096 mod 64 < 64"
      by simp_all
    have split: "r div 4096 = 64 * (r div 262144) + r div 4096 mod 64"
      using mult_div_mod_eq [of 64 "r div 4096"] by (simp add: zdiv_zmult2_eq [symmetric])
    have lo: "16 \<le> r div 4096 mod 64" if "r div 262144 = 0"
    proof -
      have "16 \<le> r div 4096" using 4 by simp
      with split that show ?thesis by linarith
    qed
    have hi: "r div 4096 mod 64 < 16" if "r div 262144 = 4"
    proof -
      have "r div 4096 < 272" using assms by simp
      with split that show ?thesis by linarith
    qed
    have "four_ok (char_of (240 + r div 262144)) (char_of (128 + r div 4096 mod 64))
            (char_of (128 + r div 64 mod 64)) (char_of (128 + r mod 64))"
      using q m lo hi by (intro four_ok_bytes)
    with 4 q show ?thesis
      by (simp add: encode_rune_def ascii_def byte_in_def two_ok_def three_ok_def)
  qed
qed

lemma hex_val_range: "hex_val c = Some n \<Longrightarrow> 0 \<le> n \<and> n < 16"
  by (auto simp: hex_val_def Let_def split: if_splits)

lemma getu4_range: "getu4 s = Some r \<Longrightarrow> 0 \<le> r \<and> r < 0x10000"
  by (auto simp: getu4_def bind_eq_Some_conv split: list.splits if_splits dest!: hex_val_range)

lemma surrogate_pair_range:
  "surrogate_pair a b = Some r \<Longrightarrow> 0x10000 \<le> r \<and> r < 0x110000"
  by (auto simp: surrogate_pair_def split: if_splits)

text \<open>A non-empty byte sequence that is one rune.\<close>

definition is_rune :: "bytes \<Rightarrow> bool" where
  "is_rune u \<longleftrightarrow> 0 < rune_len u \<and> rune_len u = length u"

lemma is_rune_valid: "is_rune u \<Longrightarrow> valid_utf8 (u @ s) = valid_utf8 s"
  unfolding is_rune_def using valid_utf8_rune by blast

lemma is_rune_ascii: "ascii c \<Longrightarrow> is_rune [c]"
  by (simp add: is_rune_def)

lemma is_rune_replacement [simp]: "is_rune replacement_rune"
  by (simp add: is_rune_def)

lemma unescape_u_rune:
  assumes "unescape_u s = Some (out, n)"
  shows "is_rune out"
proof -
  obtain r where r: "getu4 s = Some r"
    using assms by (cases "getu4 s") (simp_all add: unescape_u_def)
  show ?thesis
  proof (cases "is_surrogate r")
    case False
    then show ?thesis
      using assms r encode_rune_valid [of r] getu4_range [OF r]
      by (auto simp: unescape_u_def is_rune_def)
  next
    case True
    show ?thesis
    proof (cases "Option.bind (getu4 (drop 6 s)) (surrogate_pair r)")
      case None
      then show ?thesis using assms r True by (simp add: unescape_u_def)
    next
      case (Some r')
      then have "0x10000 \<le> r' \<and> r' < 0x110000"
        by (auto simp: bind_eq_Some_conv dest: surrogate_pair_range)
      then have "is_rune (encode_rune r')"
        using encode_rune_valid [of r'] by (auto simp: is_rune_def is_surrogate_def)
      then show ?thesis using assms r True Some by (simp add: unescape_u_def)
    qed
  qed
qed

lemma ascii_escapes [simp]:
  "ascii dquote" "ascii bslash" "ascii CHR ''/''" "ascii CHR 0x08" "ascii CHR 0x0C"
  "ascii nl" "ascii cr" "ascii CHR 0x09"
  by (simp_all add: ascii_def byte_in_def)

lemma unescape_rune:
  assumes "unescape s = Some (out, n)"
  shows "is_rune out"
proof -
  obtain b c t where s: "s = b # c # t"
    using assms by (auto simp: unescape_def split: list.splits)
  have "(\<exists>a. ascii a \<and> out = [a]) \<or> unescape_u s = Some (out, n)"
    using assms unfolding s unescape_def list.case by (auto split: if_split_asm)
  then show ?thesis using is_rune_ascii unescape_u_rune by blast
qed

lemma prepend_Some: "prepend out x = Some (v, r) \<longleftrightarrow> (\<exists>w. x = Some (w, r) \<and> v = out @ w)"
  by (cases x) (auto simp: prepend_def)

lemma scan_string_valid: "scan_string s = Some (v, r) \<Longrightarrow> valid_utf8 v"
proof (induction s arbitrary: v r rule: scan_string.induct)
  case (1 s)
  have take_rune: "0 < rune_len s \<Longrightarrow> is_rune (take (rune_len s) s)"
    using rune_len_le [of s] by (simp add: is_rune_def rune_len_take)
  show ?case
    using "1.prems" "1.IH" take_rune
    by (subst (asm) scan_string.simps)
      (auto simp: prepend_Some is_rune_valid split: if_splits option.splits dest!: unescape_rune)
qed

section \<open>Values a text can denote\<close>

text \<open>
  \<open>json_wf d v\<close>: every string is UTF-8, every number a canonical finite \<open>float64\<close>, every
  object has its keys in strictly increasing order, and the nesting is at most \<open>d\<close>.
\<close>

fun json_wf :: "int \<Rightarrow> json \<Rightarrow> bool" where
  "json_wf d JNull = True"
| "json_wf d (JBool b) = True"
| "json_wf d (JNum f) = (json_finite (JNum f) \<and> f64_wf f)"
| "json_wf d (JStr s) = valid_utf8 s"
| "json_wf d (JArr vs) = (0 < d \<and> (\<forall>v\<in>set vs. json_wf (d - 1) v))"
| "json_wf d (JObj m) =
     (0 < d \<and> sorted_wrt (<) (map fst m) \<and>
      (\<forall>x\<in>set m. valid_utf8 (fst x) \<and> json_wf (d - 1) (snd x)))"

definition members_wf :: "int \<Rightarrow> (bytes \<times> json) list \<Rightarrow> bool" where
  "members_wf d m \<longleftrightarrow> sorted_wrt (<) (map fst m) \<and>
     (\<forall>x\<in>set m. valid_utf8 (fst x) \<and> json_wf d (snd x))"

lemma json_wf_JObj: "json_wf d (JObj m) \<longleftrightarrow> 0 < d \<and> members_wf (d - 1) m"
  by (auto simp: members_wf_def)

lemma json_wf_finite: "json_wf d v \<Longrightarrow> json_finite v"
  by (induction d v rule: json_wf.induct) (auto simp: list_all_iff)

lemma json_wf_mono: "json_wf d v \<Longrightarrow> d \<le> d' \<Longrightarrow> json_wf d' v"
proof (induction d v arbitrary: d' rule: json_wf.induct)
  case (5 d vs)
  then have "json_wf (d' - 1) v" if "v \<in> set vs" for v using that by simp
  with 5 show ?case by simp
next
  case (6 d m)
  then have "json_wf (d' - 1) (snd x)" if "x \<in> set m" for x using that by simp
  with 6 show ?case by simp
qed simp_all

lemma set_map_put: "set (map_put k v m) \<subseteq> insert (k, v) (set m)"
  by (induction k v m rule: map_put.induct) auto

lemma map_put_sorted: "sorted_wrt (<) (map fst m) \<Longrightarrow> sorted_wrt (<) (map fst (map_put k v m))"
proof (induction k v m rule: map_put.induct)
  case (2 k v k' v' m)
  have keys: "\<forall>x\<in>set (map_put k v m). fst x = k \<or> fst x \<in> fst ` set m"
    using set_map_put [of k v m] by auto
  show ?case
  proof (cases "k < k' \<or> k = k'")
    case True
    with 2 show ?thesis by auto
  next
    case False
    then have "k' < k" by auto
    moreover have "\<forall>x\<in>set m. k' < fst x" using "2.prems" by simp
    ultimately have "\<forall>x\<in>set (map_put k v m). k' < fst x" using keys by fastforce
    with False 2 show ?thesis by simp
  qed
qed simp

lemma map_put_last:
  "\<forall>x\<in>set m. fst x < k \<Longrightarrow> map_put k v m = m @ [(k, v)]"
  by (induction m) auto

lemma members_wf_put:
  "members_wf d m \<Longrightarrow> valid_utf8 k \<Longrightarrow> json_wf d v \<Longrightarrow> members_wf d (map_put k v m)"
  using set_map_put [of k v m] map_put_sorted [of m k v] by (auto simp: members_wf_def)

text \<open>Whatever is decoded is well-formed.\<close>

lemma scan_number_wf:
  assumes "scan_number s = Some (n, r)" shows "f64_wf (f64_of_dec n)"
proof -
  obtain neg d x where n: "n = (neg, d, x)" by (cases n) auto
  with assms have "0 \<le> d" using scan_number_nonneg by blast
  then show ?thesis unfolding n by (rule f64_of_dec_wf)
qed

lemma decode_wf_aux:
  "\<not> raw \<Longrightarrow> (\<forall>v r. pvalue raw d s = Some (v, r) \<longrightarrow> json_wf d v)"
  "\<not> raw' \<Longrightarrow> (\<forall>vs r. pelems raw' d' s' = Some (vs, r) \<longrightarrow> (\<forall>v\<in>set vs. json_wf d' v))"
  "\<not> raw'' \<Longrightarrow> (\<forall>m' r. members_wf d'' m \<longrightarrow> pmembers raw'' d'' m s'' = Some (m', r) \<longrightarrow> members_wf d'' m')"
proof (induction raw d s and raw' d' s' and raw'' d'' m s'' rule: pvalue_pelems_pmembers.induct)
  case (1 raw d s)
  show ?case
  proof (intro allI impI)
    fix v r
    assume p: "pvalue raw d s = Some (v, r)"
    then obtain c t where ct: "skip_ws s = c # t"
      by (subst (asm) pvalue.simps) (auto split: list.splits)
    note p' = p [unfolded pvalue.simps [of raw d s] ct list.case]
    consider (obj) "c = lbrace" | (arr) "c = lbrack" | (str) "c = dquote"
      | (other) "c \<noteq> lbrace" "c \<noteq> lbrack" "c \<noteq> dquote" by blast
    then show "json_wf d v"
    proof cases
      case obj
      show ?thesis
      proof (cases "take 1 (skip_ws t) = [rbrace]")
        case True
        with p' obj show ?thesis by (auto split: if_splits)
      next
        case False
        with p' obj obtain m where m: "pmembers raw (d - 1) [] t = Some (m, r)" "v = JObj m" "0 < d"
          by (auto split: if_splits)
        have "members_wf (d - 1) []" by (simp add: members_wf_def)
        with 1(1) [OF ct obj _ False] 1(3) m have "members_wf (d - 1) m" by (simp add: not_le)
        with m show ?thesis by (simp only: json_wf_JObj)
      qed
    next
      case arr
      show ?thesis
      proof (cases "take 1 (skip_ws t) = [rbrack]")
        case True
        with p' arr show ?thesis by (auto split: if_splits)
      next
        case False
        with p' arr obtain vs where vs: "pelems raw (d - 1) t = Some (vs, r)" "v = JArr vs" "0 < d"
          by (auto split: if_splits)
        with 1(2) [OF ct _ arr _ False] 1(3) arr show ?thesis by (simp add: not_le)
      qed
    next
      case str
      with p' show ?thesis by (auto dest: scan_string_valid)
    next
      case other
      with p' 1(3) consider "v = JBool True" | "v = JBool False" | "v = JNull"
        | n r' sg m e where "scan_number (c # t) = Some (n, r')" "f64_of_dec n = Fin sg m e"
            "v = JNum (Fin sg m e)"
        by (auto split: if_splits option.splits float64.splits)
      then show ?thesis
        by cases (use scan_number_wf in \<open>force+\<close>)
    qed
  qed
next
  case (2 raw d s)
  show ?case
  proof (intro allI impI)
    fix vs r
    assume p: "pelems raw d s = Some (vs, r)"
    then obtain v r1 where v: "pvalue raw d s = Some (v, r1)"
      by (subst (asm) pelems.simps) (auto split: option.splits)
    from p v obtain c r2 where c: "skip_ws r1 = c # r2"
      by (subst (asm) pelems.simps) (auto split: list.splits)
    note p' = p [unfolded pelems.simps [of raw d s] v c option.case prod.case list.case]
    have "json_wf d v" using 2(1,3) v by blast
    moreover have "\<forall>w\<in>set vs'. json_wf d w" if "pelems raw d r2 = Some (vs', r)"
        "c = CHR '',''" "length r2 < length s" for vs'
      using 2(2) [OF v refl c] 2(3) that by simp
    ultimately show "\<forall>v\<in>set vs. json_wf d v" using p' by (auto split: if_splits)
  qed
next
  case (3 raw d m s)
  show ?case
  proof (intro allI impI)
    fix m' r
    assume wf: "members_wf d m" and p: "pmembers raw d m s = Some (m', r)"
    from p obtain t where t: "skip_ws s = dquote # t"
      by (subst (asm) pmembers.simps) (auto split: list.splits if_splits)
    from p t obtain k r0 where k: "scan_string t = Some (k, r0)"
      by (subst (asm) pmembers.simps) (auto split: option.splits)
    from p t k obtain r1 where r1: "skip_ws r0 = CHR '':'' # r1" "length r1 < length s"
      by (subst (asm) pmembers.simps) (auto split: list.splits if_splits)
    from p t k r1 obtain v r2 where v: "pvalue raw d r1 = Some (v, r2)"
      by (subst (asm) pmembers.simps) (auto split: option.splits)
    from p t k r1 v obtain c r3 where c: "skip_ws r2 = c # r3"
      by (subst (asm) pmembers.simps) (auto split: list.splits)
    note p' = p [unfolded pmembers.simps [of raw d m s] t k r1 v c option.case prod.case list.case]
    have "json_wf d v" using 3(1) [OF t _ k refl r1(1)] 3(3) r1(2) v by simp
    with wf k have put: "members_wf d (member_put raw k v m)"
      using 3(3) by (auto simp: member_put_def intro: members_wf_put dest: scan_string_valid)
    moreover have "members_wf d m'" if "pmembers raw d (member_put raw k v m) r3 = Some (m', r)"
        "c = CHR '',''" "length r3 < length s"
      using 3(2) [OF t _ k refl r1(1) _ v refl c] 3(3) that put r1(2) by simp
    ultimately show "members_wf d m'" using p' r1(2) by (auto split: if_splits)
  qed
qed

lemma json_decode_wf: "json_decode s = Some v \<Longrightarrow> json_wf max_nesting v"
  using decode_wf_aux(1) [of False max_nesting s]
  by (auto simp: unmarshal_def split: option.splits if_splits)

section \<open>Strings round trip\<close>

lemma of_char_nonneg [simp]: "(0 :: int) \<le> of_char c"
  by (metis of_nat_0_le_iff of_nat_of_char)

lemma hex_val_hex_digit: "0 \<le> n \<Longrightarrow> n < 16 \<Longrightarrow> hex_val (hex_digit n) = Some n"
  by (simp add: hex_val_def hex_digit_def)

lemma scan_string_escaped:
  "unescape s = Some (out, n) \<Longrightarrow> hd s = bslash \<Longrightarrow> s \<noteq> [] \<Longrightarrow> 0 < n \<Longrightarrow>
     scan_string s = prepend out (scan_string (drop n s))"
  by (subst scan_string.simps) (simp add: max_def)

lemma scan_string_plain:
  "0 < rune_len u \<Longrightarrow> rune_len u = length u \<Longrightarrow> hd u \<noteq> dquote \<Longrightarrow> hd u \<noteq> bslash \<Longrightarrow>
     (32 :: int) \<le> of_char (hd u) \<Longrightarrow> scan_string (u @ x) = prepend u (scan_string x)"
  by (subst scan_string.simps) (auto simp: rune_len_append hd_append)

lemma getu4_00:
  "0 \<le> a \<Longrightarrow> a < 16 \<Longrightarrow> 0 \<le> b \<Longrightarrow> b < 16 \<Longrightarrow>
     getu4 ([bslash, CHR ''u'', CHR ''0'', CHR ''0'', hex_digit a, hex_digit b] @ x) = Some (a * 16 + b)"
  by (simp add: getu4_def hex_val_hex_digit) (simp add: hex_val_def)

lemma unescape_u00:
  assumes "ascii c"
  shows "unescape ([bslash, CHR ''u'', CHR ''0'', CHR ''0'',
    hex_digit (of_char c div 16), hex_digit (of_char c mod 16)] @ x) = Some ([c], 6)"
proof -
  let ?n = "of_char c :: int"
  have n: "0 \<le> ?n" "?n < 128" using assms by (simp_all add: ascii_def byte_in_def)
  then have "0 \<le> ?n div 16" "?n div 16 < 16" by linarith+
  then have "getu4 ([bslash, CHR ''u'', CHR ''0'', CHR ''0'',
      hex_digit (?n div 16), hex_digit (?n mod 16)] @ x) = Some (?n div 16 * 16 + ?n mod 16)"
    by (intro getu4_00) simp_all
  then have "getu4 ([bslash, CHR ''u'', CHR ''0'', CHR ''0'',
      hex_digit (?n div 16), hex_digit (?n mod 16)] @ x) = Some ?n"
    by simp
  then show ?thesis
    using n by (simp add: unescape_def unescape_u_def is_surrogate_def encode_rune_def)
qed

lemma scan_string_escape_byte:
  assumes "ascii c"
  shows "scan_string (escape_byte c @ x) = prepend [c] (scan_string x)"
proof -
  have two: "scan_string ([bslash, e] @ x) = prepend [c] (scan_string x)"
    if "unescape ([bslash, e] @ x) = Some ([c], 2)" for e
    using scan_string_escaped [OF that] by simp
  have six: "scan_string ([bslash, CHR ''u'', CHR ''0'', CHR ''0'',
      hex_digit (of_char c div 16), hex_digit (of_char c mod 16)] @ x) = prepend [c] (scan_string x)"
    using scan_string_escaped [OF unescape_u00 [OF assms]] by simp
  show ?thesis
  proof (cases "c \<in> {bslash, dquote, CHR 0x08, CHR 0x0C, nl, cr, CHR 0x09}")
    case True
    then obtain e where "escape_byte c = [bslash, e]" "unescape ([bslash, e] @ x) = Some ([c], 2)"
      by (auto simp: escape_byte_def unescape_def)
    with two show ?thesis by simp
  next
    case False
    then have "escape_byte c = [bslash, CHR ''u'', CHR ''0'', CHR ''0'',
        hex_digit (of_char c div 16), hex_digit (of_char c mod 16)]"
      by (simp add: escape_byte_def)
    with six show ?thesis by simp
  qed
qed

lemma unescape_lines:
  "unescape (bslash # ''u2028'' @ x) = Some ([CHR 0xE2, CHR 0x80, CHR 0xA8], 6)"
  "unescape (bslash # ''u2029'' @ x) = Some ([CHR 0xE2, CHR 0x80, CHR 0xA9], 6)"
  by (simp_all add: unescape_def unescape_u_def getu4_def hex_val_def is_surrogate_def encode_rune_def)
    (simp_all add: char_of_def)

lemma scan_string_lines:
  "scan_string (bslash # ''u2028'' @ x) = prepend [CHR 0xE2, CHR 0x80, CHR 0xA8] (scan_string x)"
  "scan_string (bslash # ''u2029'' @ x) = prepend [CHR 0xE2, CHR 0x80, CHR 0xA9] (scan_string x)"
  using scan_string_escaped [OF unescape_lines(1)] scan_string_escaped [OF unescape_lines(2)] by simp_all

lemma rune_hd:
  assumes "rune_len u = length u" "length u \<noteq> 1" "0 < rune_len u"
  shows "\<not> ascii (hd u)"
  using assms rune_len_ascii [of "hd u" "tl u"] by (cases u) auto

lemma scan_string_rune:
  assumes "0 < rune_len u" "rune_len u = length u"
  shows "scan_string (escape_rune u @ x) = prepend u (scan_string x)"
proof (cases "length u = 1")
  case True
  then obtain c where u: "u = [c]" by (cases u) auto
  then have "ascii c" using assms by (auto split: if_splits)
  then show ?thesis
    using assms u scan_string_plain [of u x]
    by (auto simp: escape_rune_def html_safe_def scan_string_escape_byte)
next
  case False
  then have "\<not> ascii (hd u)" using assms rune_hd by simp
  then have "(32 :: int) \<le> of_char (hd u)" "hd u \<noteq> dquote" "hd u \<noteq> bslash"
    by (auto simp: ascii_def byte_in_def)
  with False assms show ?thesis
    using scan_string_lines [of x] by (auto simp: escape_rune_def scan_string_plain)
qed

lemma escape_string_rune:
  assumes "0 < rune_len u" "rune_len u = length u"
  shows "escape_string (u @ s) = escape_rune u @ escape_string s"
  using assms by (subst escape_string.simps) (auto simp: rune_len_append)

lemma scan_escape_string:
  "valid_utf8 s \<Longrightarrow> scan_string (escape_string s @ dquote # r) = Some (s, r)"
proof (induction s rule: valid_utf8_induct)
  case nil
  show ?case by (simp add: escape_string.simps scan_string.simps)
next
  case (rune u s)
  then show ?case by (simp add: escape_string_rune scan_string_rune prepend_Some)
qed

section \<open>Values round trip\<close>

lemma number_ends_simps [simp]:
  "number_ends []" "number_ends (CHR '','' # r)" "number_ends (rbrace # r)" "number_ends (rbrack # r)"
  by (simp_all add: number_ends_def is_digit_def)

lemma skip_ws_Cons: "\<not> is_ws c \<Longrightarrow> skip_ws (c # t) = c # t"
  by (simp add: skip_ws_def)

lemma not_ws [simp]:
  "\<not> is_ws dquote" "\<not> is_ws lbrace" "\<not> is_ws rbrace" "\<not> is_ws lbrack" "\<not> is_ws rbrack"
  "\<not> is_ws CHR '',''" "\<not> is_ws CHR '':''" "\<not> is_ws CHR ''t''" "\<not> is_ws CHR ''f''" "\<not> is_ws CHR ''n''"
  by (simp_all add: is_ws_def)

lemma scan_number_hd:
  assumes "scan_number s = Some (d, r)"
  shows "\<exists>c t. s = c # t \<and> (c = CHR ''-'' \<or> is_digit c)"
  using assms
  by (cases s) (auto simp: scan_number_def scan_sign_def scan_int_def Let_def is_digit_def split: if_splits)

lemma pvalue_number:
  assumes "scan_number s = Some (d, r)" "f64_of_dec d = Fin sg m e"
  shows "pvalue raw n s = Some (JNum (Fin sg m e), r)"
proof -
  obtain c t where s: "s = c # t" and c: "c = CHR ''-'' \<or> is_digit c"
    using scan_number_hd [OF assms(1)] by blast
  have "\<not> is_ws c" and ne: "c \<noteq> lbrace" "c \<noteq> lbrack" "c \<noteq> dquote" "c \<noteq> CHR ''t''" "c \<noteq> CHR ''f''" "c \<noteq> CHR ''n''"
    using c by (auto simp: is_ws_def is_digit_def)
  then have ws: "skip_ws s = c # t" unfolding s by (rule_tac skip_ws_Cons)
  have "\<not> HasPrefix (c # t) ''true''" "\<not> HasPrefix (c # t) ''false''" "\<not> HasPrefix (c # t) ''null''"
    using ne by (simp_all add: HasPrefix_def)
  with ne ws assms [unfolded s] show ?thesis
    by (simp add: pvalue.simps [of raw n s])
qed

lemma pvalue_null: "pvalue raw d (''null'' @ r) = Some (JNull, r)"
  and pvalue_true: "pvalue raw d (''true'' @ r) = Some (JBool True, r)"
  and pvalue_false: "pvalue raw d (''false'' @ r) = Some (JBool False, r)"
  by (subst pvalue.simps; simp add: skip_ws_Cons HasPrefix_def)+

lemma pvalue_string: "valid_utf8 s \<Longrightarrow> pvalue raw d (string_text s @ r) = Some (JStr s, r)"
  by (subst pvalue.simps) (simp add: skip_ws_Cons string_text_def scan_escape_string)

lemma f64_json_some: "\<exists>t. f64_json (Fin s m e) = Some t"
  by (cases "shortest_digits s m e") simp

lemma json_text_hd:
  assumes "json_wf d v"
  shows "\<exists>c t. json_text v = c # t \<and> \<not> is_ws c \<and> c \<noteq> rbrack \<and> c \<noteq> rbrace"
proof (cases v)
  case (JNum f)
  with assms obtain s m e where f: "f = Fin s m e" "f64_wf (Fin s m e)"
    by (cases f) auto
  obtain t where t: "f64_json (Fin s m e) = Some t" using f64_json_some by blast
  then obtain d where "scan_number (t @ []) = Some (d, [])"
    using f64_json_reads_back [OF f(2)] number_ends_simps(1) by blast
  then obtain c t' where "t @ [] = c # t'" "c = CHR ''-'' \<or> is_digit c"
    using scan_number_hd by blast
  then show ?thesis using t JNum f by (auto simp: is_ws_def is_digit_def)
qed (auto simp: string_text_def)

lemma skip_ws_text:
  "json_wf d v \<Longrightarrow> skip_ws (json_text v @ r) = json_text v @ r"
  using json_text_hd [of d v] by (auto simp: skip_ws_Cons)

lemma json_text_nonempty: "json_wf d v \<Longrightarrow> json_text v \<noteq> []"
  using json_text_hd [of d v] by auto

abbreviation pair_text :: "bytes \<times> json \<Rightarrow> bytes" where
  "pair_text x \<equiv> string_text (fst x) @ CHR '':'' # json_text (snd x)"

lemma json_text_JObj: "json_text (JObj m) = lbrace # commas (map pair_text m) @ [rbrace]"
  by (simp add: split_def)

lemma commas_Cons: "commas (x # xs) = x @ (if xs = [] then [] else CHR '','' # commas xs)"
  by (cases xs) auto

lemma commas_length: "x \<in> set xs \<Longrightarrow> length x \<le> length (commas xs)"
  by (induction xs) (auto simp: commas_Cons)

text \<open>Reading back the elements of an array, and the members of an object.\<close>

lemma pelems_text:
  assumes "vs \<noteq> []" "\<And>v. v \<in> set vs \<Longrightarrow> json_wf d v"
    and "\<And>v r. v \<in> set vs \<Longrightarrow> number_ends r \<Longrightarrow> pvalue raw d (json_text v @ r) = Some (v, r)"
  shows "pelems raw d (commas (map json_text vs) @ rbrack # r) = Some (vs, r)"
  using assms
proof (induction vs)
  case (Cons v vs)
  have wf: "json_text v \<noteq> []" using Cons.prems(2) [of v] json_text_nonempty [of d v] by simp
  show ?case
  proof (cases "vs = []")
    case True
    then show ?thesis using Cons.prems(3) [of v "rbrack # r"]
      by (simp add: pelems.simps skip_ws_Cons)
  next
    case False
    let ?r = "CHR '','' # commas (map json_text vs) @ rbrack # r"
    have "pelems raw d (commas (map json_text vs) @ rbrack # r) = Some (vs, r)"
      using Cons False by simp
    moreover have "pvalue raw d (json_text v @ ?r) = Some (v, ?r)" using Cons.prems(3) by simp
    ultimately show ?thesis using False wf
      by (subst pelems.simps) (simp add: commas_Cons skip_ws_Cons)
  qed
qed simp

lemma pmembers_step:
  assumes "valid_utf8 k" "pvalue raw d (json_text v @ r) = Some (v, r)"
  shows "pmembers raw d acc (pair_text (k, v) @ r) =
    (case skip_ws r of [] \<Rightarrow> None
     | c # r' \<Rightarrow> if c = CHR '','' then
           (if length r' < length (pair_text (k, v) @ r) then pmembers raw d (member_put raw k v acc) r' else None)
         else if c = rbrace then Some (member_put raw k v acc, r') else None)"
proof -
  have s: "skip_ws (pair_text (k, v) @ r) = dquote # escape_string k @ dquote # CHR '':'' # json_text v @ r"
    by (simp add: string_text_def skip_ws_Cons)
  have k: "scan_string (escape_string k @ dquote # CHR '':'' # json_text v @ r)
      = Some (k, CHR '':'' # json_text v @ r)"
    using assms(1) by (rule scan_escape_string)
  have c: "skip_ws (CHR '':'' # json_text v @ r) = CHR '':'' # json_text v @ r"
    by (simp add: skip_ws_Cons)
  have l: "length (json_text v @ r) < length (pair_text (k, v) @ r)"
    by (simp add: string_text_def)
  show ?thesis
    by (subst pmembers.simps)
      (simp only: s k c l assms(2) list.case option.case prod.case simp_thms if_True if_False)
qed

lemma pmembers_text:
  assumes "m \<noteq> []" "members_wf d m" "\<forall>x\<in>set acc. \<forall>y\<in>set m. fst x < fst y"
    and "\<And>x r. x \<in> set m \<Longrightarrow> number_ends r \<Longrightarrow> pvalue raw d (json_text (snd x) @ r) = Some (snd x, r)"
  shows "pmembers raw d acc (commas (map pair_text m) @ rbrace # r) = Some (acc @ m, r)"
  using assms
proof (induction m arbitrary: acc)
  case (Cons x m)
  obtain k v where x: "x = (k, v)" by fastforce
  have k: "valid_utf8 k" and wf: "members_wf d m" and lt: "\<forall>y\<in>set m. k < fst y"
    using Cons.prems(2) x by (auto simp: members_wf_def)
  have put: "member_put raw k v acc = acc @ [x]"
    using Cons.prems(3) x map_put_last [of acc k v] by (simp add: member_put_def)
  have read: "pvalue raw d (json_text v @ r') = Some (v, r')" if "number_ends r'" for r'
    using Cons.prems(4) [of x r'] that x by simp
  show ?case
  proof (cases "m = []")
    case True
    then show ?thesis using pmembers_step [OF k read, of "rbrace # r" acc] put x
      by (simp add: skip_ws_Cons)
  next
    case False
    let ?r = "CHR '','' # commas (map pair_text m) @ rbrace # r"
    have "pmembers raw d (acc @ [x]) (commas (map pair_text m) @ rbrace # r) = Some ((acc @ [x]) @ m, r)"
      using False wf Cons.prems(3,4) lt x by (intro Cons.IH) auto
    moreover have "length (commas (map pair_text m) @ rbrace # r) < length (pair_text (k, v) @ ?r)"
      by simp
    ultimately show ?thesis
      using pmembers_step [OF k read, of ?r acc] put x False
      by (simp add: skip_ws_Cons commas_Cons)
  qed
qed simp

theorem pvalue_text:
  "json_wf d v \<Longrightarrow> number_ends r \<Longrightarrow> pvalue raw d (json_text v @ r) = Some (v, r)"
proof (induction d v arbitrary: r rule: json_wf.induct)
  case (1 d)
  show ?case using pvalue_null by simp
next
  case (2 d b)
  show ?case using pvalue_true pvalue_false by simp
next
  case (3 d f)
  then obtain s m e where f: "f = Fin s m e" "f64_wf (Fin s m e)" by (cases f) auto
  obtain t where t: "f64_json (Fin s m e) = Some t" using f64_json_some by blast
  with f 3 obtain n where "scan_number (t @ r) = Some (n, r)" "f64_of_dec n = Fin s m e"
    using f64_json_reads_back by blast
  then show ?case using f t by (simp del: f64_json.simps add: pvalue_number)
next
  case (4 d s)
  then show ?case by (simp add: pvalue_string)
next
  case (5 d vs)
  show ?case
  proof (cases "vs = []")
    case True
    with 5 show ?thesis by (subst pvalue.simps) (simp add: skip_ws_Cons)
  next
    case False
    have el: "pelems raw (d - 1) (commas (map json_text vs) @ rbrack # r) = Some (vs, r)"
      using False 5 by (intro pelems_text) auto
    obtain c t where "json_text (hd vs) = c # t" "\<not> is_ws c" "c \<noteq> rbrack"
      using json_text_hd [of "d - 1" "hd vs"] False 5 by auto
    then have "take 1 (skip_ws (commas (map json_text vs) @ rbrack # r)) \<noteq> [rbrack]"
      using False by (cases vs) (auto simp: commas_Cons skip_ws_Cons)
    with el 5(2) show ?thesis
      by (subst pvalue.simps) (simp add: skip_ws_Cons)
  qed
next
  case (6 d m)
  show ?case
  proof (cases "m = []")
    case True
    with 6 show ?thesis by (subst pvalue.simps) (simp add: skip_ws_Cons)
  next
    case False
    have el: "pmembers raw (d - 1) [] (commas (map pair_text m) @ rbrace # r) = Some (m, r)"
      using False 6 pmembers_text [of m "d - 1" "[]" raw r] by (auto simp: members_wf_def)
    have "take 1 (skip_ws (commas (map pair_text m) @ rbrace # r)) \<noteq> [rbrace]"
      using False by (cases m) (auto simp: commas_Cons skip_ws_Cons string_text_def)
    with el 6(2) show ?thesis
      unfolding json_text_JObj
      by (subst pvalue.simps) (simp add: skip_ws_Cons)
  qed
qed

theorem json_roundtrip: "json_wf max_nesting v \<Longrightarrow> json_decode (json_marshal v) = Some v"
  using pvalue_text [of max_nesting v "[]" False] json_wf_finite [of max_nesting v]
  by (simp add: unmarshal_def json_marshal_def skip_ws_def)

section \<open>The text of a value is printable\<close>

definition printable :: "char \<Rightarrow> bool" where
  "printable c \<longleftrightarrow> (32 :: int) \<le> of_char c"

lemma printable_simps [simp]:
  "printable dquote" "printable bslash" "printable lbrace" "printable rbrace" "printable lbrack"
  "printable rbrack" "printable CHR '',''" "printable CHR '':''"
  "printable CHR ''b''" "printable CHR ''f''" "printable CHR ''n''" "printable CHR ''r''"
  "printable CHR ''t''" "printable CHR ''u''" "printable CHR ''0''"
  by (simp_all add: printable_def)

lemma printable_digit: "is_digit c \<Longrightarrow> printable c"
  by (simp add: is_digit_def printable_def)

lemma scan_digits_printable:
  "scan_digits s = (ds, r) \<Longrightarrow> c \<in> set s \<Longrightarrow> printable c \<or> c \<in> set r"
proof -
  assume "scan_digits s = (ds, r)" "c \<in> set s"
  moreover have "set s = set (takeWhile is_digit s) \<union> set (dropWhile is_digit s)"
    by (metis set_append takeWhile_dropWhile_id)
  ultimately show ?thesis
    by (auto simp: scan_digits_def dest: set_takeWhileD intro: printable_digit)
qed

lemma scan_number_printable:
  assumes "scan_number s = Some (d, r)" "c \<in> set s"
  shows "printable c \<or> c \<in> set r"
proof -
  obtain s1 ip s2 fp s3 x where
      sign: "s1 = snd (scan_sign s)" and i: "scan_int s1 = Some (ip, s2)"
      and f: "scan_frac s2 = Some (fp, s3)" and e: "scan_exp s3 = Some (x, r)"
    using assms(1) by (auto simp: scan_number_def bind_eq_Some_conv split: prod.splits)
  have 1: "printable c \<or> c \<in> set s1"
    using assms(2) sign by (cases s) (auto simp: scan_sign_def printable_def split: if_splits)
  have 2: "c \<in> set s1 \<Longrightarrow> printable c \<or> c \<in> set s2"
    using i scan_digits_printable [of s1 ip s2 c]
    by (auto simp: scan_int_def printable_def split: list.splits if_splits)
  have 3: "c \<in> set s2 \<Longrightarrow> printable c \<or> c \<in> set s3"
    using f scan_digits_printable [of "tl s2" fp s3 c]
    by (auto simp: scan_frac_def printable_def split: list.splits if_splits)
  have 4: "c \<in> set s3 \<Longrightarrow> printable c \<or> c \<in> set r"
  proof (cases s3)
    case (Cons a t)
    assume c: "c \<in> set s3"
    show ?thesis
    proof (cases "a = CHR ''e'' \<or> a = CHR ''E''")
      case True
      then obtain t' ds where t': "scan_digits t' = (ds, r)" "t' = t \<or> (\<exists>b. t = b # t' \<and> printable b)"
        using e Cons by (auto simp: scan_exp_def Let_def printable_def split: list.splits if_splits prod.splits)
      have "c = a \<or> printable c \<or> c \<in> set t'" using t'(2) c Cons by auto
      then show ?thesis
        using True scan_digits_printable [OF t'(1)] by (auto simp: printable_def)
    next
      case False
      with e Cons c show ?thesis by (simp add: scan_exp_def)
    qed
  qed simp
  from 1 2 3 4 show ?thesis by blast
qed

lemma rune_bytes_high:
  "rune_len u = length u \<Longrightarrow> length u \<noteq> 1 \<Longrightarrow> c \<in> set u \<Longrightarrow> (128 :: int) \<le> of_char c"
  by (cases u rule: rune_len.cases)
    (auto simp: two_ok_def three_ok_def four_ok_def byte_in_def cont_byte_def split: if_splits)

lemma hex_digit_printable: "0 \<le> n \<Longrightarrow> n < 16 \<Longrightarrow> printable (hex_digit n)"
  by (simp add: hex_digit_def printable_def)

lemma escape_rune_printable:
  assumes "0 < rune_len u" "rune_len u = length u" "c \<in> set (escape_rune u)"
  shows "printable c"
proof (cases "length u = 1")
  case True
  then obtain a where u: "u = [a]" by (cases u) auto
  have "ascii a" using assms u by (auto split: if_splits)
  then have "0 \<le> (of_char a :: int) div 16" "(of_char a :: int) div 16 < 16"
    unfolding ascii_def byte_in_def by linarith+
  then have "printable (hex_digit (of_char a div 16))" "printable (hex_digit (of_char a mod 16))"
    by (auto intro: hex_digit_printable)
  then have "\<forall>b\<in>set (escape_byte a). printable b"
    unfolding escape_byte_def by simp
  moreover have "html_safe a \<Longrightarrow> printable a" by (simp add: html_safe_def printable_def)
  ultimately show ?thesis
    using assms(3) u by (auto simp: escape_rune_def split: if_splits)
next
  case False
  then show ?thesis
    using assms(3) rune_bytes_high [OF assms(2) False, of c]
    by (auto simp: escape_rune_def printable_def split: if_splits)
qed

lemma escape_string_printable:
  "valid_utf8 s \<Longrightarrow> c \<in> set (escape_string s) \<Longrightarrow> printable c"
proof (induction s rule: valid_utf8_induct)
  case nil
  then show ?case by (simp add: escape_string.simps)
next
  case (rune u s)
  then show ?case using escape_rune_printable by (auto simp: escape_string_rune)
qed

lemma string_text_printable: "valid_utf8 s \<Longrightarrow> c \<in> set (string_text s) \<Longrightarrow> printable c"
  using escape_string_printable by (auto simp: string_text_def)

lemma set_commas: "c \<in> set (commas xs) \<Longrightarrow> c = CHR '','' \<or> (\<exists>x\<in>set xs. c \<in> set x)"
  by (induction xs) (auto simp: commas_Cons split: if_splits)

lemma json_text_printable:
  "json_wf d v \<Longrightarrow> c \<in> set (json_text v) \<Longrightarrow> printable c"
proof (induction d v rule: json_wf.induct)
  case (3 d f)
  then obtain s m e where f: "f = Fin s m e" "f64_wf (Fin s m e)" by (cases f) auto
  obtain t where t: "f64_json (Fin s m e) = Some t" using f64_json_some by blast
  then obtain n where "scan_number (t @ []) = Some (n, [])"
    using f64_json_reads_back [OF f(2)] number_ends_simps(1) by blast
  then show ?case
    using scan_number_printable [of t n "[]" c] 3 f t by (simp del: f64_json.simps)
next
  case (4 d s)
  then show ?case using string_text_printable by simp
next
  case (5 d vs)
  then show ?case using set_commas [of c "map json_text vs"] by fastforce
next
  case (6 d m)
  then have "c \<in> {lbrace, rbrace} \<or> c \<in> set (commas (map pair_text m))"
    unfolding json_text_JObj by auto
  then have "printable c \<or> (\<exists>x\<in>set m. c \<in> set (pair_text x))"
    using set_commas [of c "map pair_text m"] by fastforce
  with 6 show ?case using string_text_printable by auto
qed (auto simp: printable_def split: if_splits)

lemma json_text_no_nl: "json_wf d v \<Longrightarrow> nl \<notin> set (json_text v)"
  using json_text_printable by (fastforce simp: printable_def)

end
