(* ===== verification/Engine_Message.thy ===== *)
theory Engine_Message
  imports Go_JSON_Roundtrip
begin

text \<open>
  \<open>internal/engine/message.go\<close>: the message record every component passes on. A
  \<open>time.Time\<close> is its reading in nanoseconds since the Unix epoch, \<open>MsgType\<close> is a Go string
  type, and the \<open>int64\<close> fields are \<open>int\<close>s in the range of the type.
\<close>

type_synonym time = int

abbreviation MsgTypeRequest :: bytes where "MsgTypeRequest \<equiv> ''request''"
abbreviation MsgTypeResponse :: bytes where "MsgTypeResponse \<equiv> ''response''"
abbreviation MsgTypeNotification :: bytes where "MsgTypeNotification \<equiv> ''notification''"
abbreviation MsgTypeStderr :: bytes where "MsgTypeStderr \<equiv> ''stderr''"

record message =
  ID :: int
  Timestamp :: time
  Transport :: bytes
  Direction :: bytes
  MsgType :: bytes
  Method :: bytes
  JSONRPCID :: bytes
  Params :: bytes
  Result :: bytes
  ErrorData :: bytes
  LatencyMS :: int
  SizeBytes :: int
  TokenEstimate :: int
  ErrorCode :: bytes
  Raw :: bytes

text \<open>The zero value of the struct; the zero \<open>time.Time\<close> is January 1 of the year 1.\<close>

definition zero_time :: time where
  "zero_time = - 62135596800000000000"

definition zero_message :: message where
  "zero_message =
     \<lparr>ID = 0, Timestamp = zero_time, Transport = [], Direction = [], MsgType = [], Method = [],
      JSONRPCID = [], Params = [], Result = [], ErrorData = [], LatencyMS = 0, SizeBytes = 0,
      TokenEstimate = 0, ErrorCode = [], Raw = []\<rparr>"

text \<open>\<open>t.Sub(u)\<close> saturates at the ends of \<open>time.Duration\<close>; \<open>Milliseconds\<close> truncates.\<close>

definition time_sub :: "time \<Rightarrow> time \<Rightarrow> int" where
  "time_sub t u = max (- (2 ^ 63)) (min (2 ^ 63 - 1) (t - u))"

definition milliseconds :: "int \<Rightarrow> int" where
  "milliseconds d = go_quot d 1000000"

lemma time_sub_exact: "int64_range (t - u) \<Longrightarrow> time_sub t u = t - u"
  by (simp add: time_sub_def int64_range_def)

lemma time_sub_range: "int64_range (time_sub t u)"
  by (simp add: time_sub_def int64_range_def)

lemma milliseconds_elapsed: "u \<le> t \<Longrightarrow> int64_range (t - u) \<Longrightarrow>
    milliseconds (time_sub t u) = (t - u) div 1000000"
  by (simp add: milliseconds_def time_sub_exact go_quot_nonneg)

text \<open>What \<open>json.Marshal\<close> followed by \<open>json.Unmarshal\<close> makes of a message: every string is
  turned into valid UTF-8, everything else comes back.\<close>

definition message_utf8 :: "message \<Rightarrow> message" where
  "message_utf8 m =
     m\<lparr>Transport := to_valid_utf8 (Transport m), Direction := to_valid_utf8 (Direction m),
       MsgType := to_valid_utf8 (MsgType m), Method := to_valid_utf8 (Method m),
       JSONRPCID := to_valid_utf8 (JSONRPCID m), Params := to_valid_utf8 (Params m),
       Result := to_valid_utf8 (Result m), ErrorData := to_valid_utf8 (ErrorData m),
       ErrorCode := to_valid_utf8 (ErrorCode m), Raw := to_valid_utf8 (Raw m)\<rparr>"

definition message_valid_utf8 :: "message \<Rightarrow> bool" where
  "message_valid_utf8 m \<longleftrightarrow>
     valid_utf8 (Transport m) \<and> valid_utf8 (Direction m) \<and> valid_utf8 (MsgType m) \<and>
     valid_utf8 (Method m) \<and> valid_utf8 (JSONRPCID m) \<and> valid_utf8 (Params m) \<and>
     valid_utf8 (Result m) \<and> valid_utf8 (ErrorData m) \<and> valid_utf8 (ErrorCode m) \<and>
     valid_utf8 (Raw m)"

lemma message_utf8_id: "message_valid_utf8 m \<Longrightarrow> message_utf8 m = m"
  by (simp add: message_utf8_def message_valid_utf8_def to_valid_utf8_id)

lemma message_utf8_valid: "message_valid_utf8 (message_utf8 m)"
  by (simp add: message_utf8_def message_valid_utf8_def)

lemma message_utf8_idem [simp]: "message_utf8 (message_utf8 m) = message_utf8 m"
  by (simp add: message_utf8_id message_utf8_valid)

lemma message_utf8_simps [simp, frame_simps]:
  "ID (message_utf8 m) = ID m" "Timestamp (message_utf8 m) = Timestamp m"
  "LatencyMS (message_utf8 m) = LatencyMS m" "SizeBytes (message_utf8 m) = SizeBytes m"
  "TokenEstimate (message_utf8 m) = TokenEstimate m"
  by (simp_all add: message_utf8_def)

end
