(* ===== verification/Engine_Parser.thy ===== *)
theory Engine_Parser
  imports Engine_Message
begin

text \<open>
  \<open>internal/engine/parser.go\<close>: \<open>ParseJSONRPC\<close> turns the raw text of one JSON-RPC message
  into a \<open>message\<close>. The clock is an argument. The \<open>Parser\<close> interface of the code is the
  locale \<open>message_parser\<close>; the transports are written against it.
\<close>

section \<open>The parser\<close>

text \<open>
  \<open>json.Unmarshal\<close> into a \<open>map[string]interface{}\<close>: an object is the map, \<open>null\<close> leaves the
  map nil (a lookup in it finds nothing), everything else is a type error.
\<close>

definition unmarshal_object :: "bytes \<Rightarrow> (bytes \<times> json) list option" where
  "unmarshal_object raw =
     (case json_decode raw of
        Some (JObj obj) \<Rightarrow> Some obj
      | Some JNull \<Rightarrow> Some []
      | _ \<Rightarrow> None)"

definition set_method :: "(bytes \<times> json) list \<Rightarrow> message \<Rightarrow> message" where
  "set_method obj msg =
     (case map_of obj ''method'' of
        Some (JStr method) \<Rightarrow> msg\<lparr>Method := method\<rparr>
      | _ \<Rightarrow> msg)"

definition set_id :: "(bytes \<times> json) list \<Rightarrow> message \<Rightarrow> message" where
  "set_id obj msg =
     (case map_of obj ''id'' of
        None \<Rightarrow> msg
      | Some ident \<Rightarrow> if ident \<noteq> JNull then msg\<lparr>JSONRPCID := json_fmt_v ident\<rparr> else msg)"

definition set_params :: "(bytes \<times> json) list \<Rightarrow> message \<Rightarrow> message" where
  "set_params obj msg =
     (case map_of obj ''params'' of
        None \<Rightarrow> msg
      | Some params \<Rightarrow> msg\<lparr>Params := json_marshal params\<rparr>)"

definition set_result :: "(bytes \<times> json) list \<Rightarrow> message \<Rightarrow> message" where
  "set_result obj msg =
     (case map_of obj ''result'' of
        None \<Rightarrow> msg
      | Some result \<Rightarrow> msg\<lparr>Result := json_marshal result\<rparr>)"

definition set_error :: "(bytes \<times> json) list \<Rightarrow> message \<Rightarrow> message" where
  "set_error obj msg =
     (case map_of obj ''error'' of
        None \<Rightarrow> msg
      | Some errData \<Rightarrow>
          (let msg = msg\<lparr>ErrorData := json_marshal errData\<rparr> in
           case errData of
             JObj errMap \<Rightarrow>
               (case map_of errMap ''code'' of
                  None \<Rightarrow> msg
                | Some code \<Rightarrow> msg\<lparr>ErrorCode := json_fmt_v code\<rparr>)
           | _ \<Rightarrow> msg))"

definition set_size :: "bytes \<Rightarrow> message \<Rightarrow> message" where
  "set_size raw msg =
     (let msg = msg\<lparr>SizeBytes := int (length raw)\<rparr>
      in msg\<lparr>TokenEstimate := go_quot (SizeBytes msg) 4\<rparr>)"

definition set_type :: "message \<Rightarrow> message" where
  "set_type msg =
     (if Method msg \<noteq> [] \<and> JSONRPCID msg \<noteq> [] then msg\<lparr>MsgType := ''request''\<rparr>
      else if Method msg \<noteq> [] \<and> JSONRPCID msg = [] then msg\<lparr>MsgType := ''notification''\<rparr>
      else if JSONRPCID msg \<noteq> [] then msg\<lparr>MsgType := ''response''\<rparr>
      else msg)"

definition ParseJSONRPC :: "time \<Rightarrow> bytes \<Rightarrow> bytes \<Rightarrow> bytes \<Rightarrow> message option" where
  "ParseJSONRPC now raw direction transport =
     (case unmarshal_object raw of
        None \<Rightarrow> None
      | Some obj \<Rightarrow>
          (let msg = zero_message\<lparr>Timestamp := now, Transport := transport,
                                  Direction := direction, Raw := raw\<rparr>
           in Some (set_type (set_size raw (set_error obj (set_result obj
                (set_params obj (set_id obj (set_method obj msg)))))))))"

section \<open>The interface\<close>

text \<open>
  What the transports rely on: a parsed message says where it came from and carries the text
  it was parsed from, and the answer depends on the text alone.
\<close>

locale message_parser =
  fixes Parse :: "time \<Rightarrow> bytes \<Rightarrow> bytes \<Rightarrow> bytes \<Rightarrow> message option"
  assumes parse_origin: "Parse now raw dir tr = Some m \<Longrightarrow>
      Raw m = raw \<and> Direction m = dir \<and> Transport m = tr \<and> Timestamp m = now"
    and parse_text: "(Parse now raw dir tr = None) = (Parse now' raw dir' tr' = None)"
    and parse_new: "Parse now raw dir tr = Some m \<Longrightarrow> ID m = 0 \<and> LatencyMS m = 0"
begin

definition accepts :: "bytes \<Rightarrow> bool" where
  "accepts raw \<longleftrightarrow> Parse 0 raw [] [] \<noteq> None"

lemma parse_accepts: "Parse now raw dir tr \<noteq> None \<longleftrightarrow> accepts raw"
  using parse_text [of now raw dir tr 0 "[]" "[]"] by (simp add: accepts_def)

lemma parse_map_Raw:
  "map Raw (List.map_filter (\<lambda>l. Parse now l dir tr) ls) = filter accepts ls"
proof (induction ls)
  case (Cons l ls)
  then show ?case
    using parse_accepts [of now l dir tr] parse_origin [of now l dir tr]
    by (cases "Parse now l dir tr") (simp_all add: List.map_filter_simps)
qed (simp add: List.map_filter_simps)

lemma parse_all_from:
  "m \<in> set (List.map_filter (\<lambda>l. Parse now l dir tr) ls) \<Longrightarrow>
     Direction m = dir \<and> Transport m = tr \<and> Raw m \<in> set ls"
  using parse_origin by (fastforce simp: List.map_filter_def)

end

section \<open>The fields of a parsed message\<close>

text \<open>Each field as a function of the decoded object; \<open>ParseJSONRPC_eq\<close> collects them.\<close>

definition obj_method :: "(bytes \<times> json) list \<Rightarrow> bytes" where
  "obj_method obj = (case map_of obj ''method'' of Some (JStr s) \<Rightarrow> s | _ \<Rightarrow> [])"

definition obj_id :: "(bytes \<times> json) list \<Rightarrow> bytes" where
  "obj_id obj =
     (case map_of obj ''id'' of Some v \<Rightarrow> if v = JNull then [] else json_fmt_v v | None \<Rightarrow> [])"

definition obj_text :: "bytes \<Rightarrow> (bytes \<times> json) list \<Rightarrow> bytes" where
  "obj_text k obj = (case map_of obj k of Some v \<Rightarrow> json_marshal v | None \<Rightarrow> [])"

definition obj_error_code :: "(bytes \<times> json) list \<Rightarrow> bytes" where
  "obj_error_code obj =
     (case map_of obj ''error'' of
        Some (JObj e) \<Rightarrow> (case map_of e ''code'' of Some c \<Rightarrow> json_fmt_v c | None \<Rightarrow> [])
      | _ \<Rightarrow> [])"

definition msg_type_of :: "bytes \<Rightarrow> bytes \<Rightarrow> bytes" where
  "msg_type_of method ident =
     (if method \<noteq> [] then (if ident \<noteq> [] then MsgTypeRequest else MsgTypeNotification)
      else if ident \<noteq> [] then MsgTypeResponse else [])"

definition parsed_message ::
  "time \<Rightarrow> bytes \<Rightarrow> bytes \<Rightarrow> bytes \<Rightarrow> (bytes \<times> json) list \<Rightarrow> message" where
  "parsed_message now raw direction transport obj =
     \<lparr>ID = 0, Timestamp = now, Transport = transport, Direction = direction,
      MsgType = msg_type_of (obj_method obj) (obj_id obj),
      Method = obj_method obj, JSONRPCID = obj_id obj, Params = obj_text ''params'' obj,
      Result = obj_text ''result'' obj, ErrorData = obj_text ''error'' obj, LatencyMS = 0,
      SizeBytes = int (length raw), TokenEstimate = int (length raw) div 4,
      ErrorCode = obj_error_code obj, Raw = raw\<rparr>"

lemma set_method_eq: "Method m = [] \<Longrightarrow> set_method obj m = m\<lparr>Method := obj_method obj\<rparr>"
  by (simp add: set_method_def obj_method_def split: option.splits json.splits)

lemma set_id_eq: "JSONRPCID m = [] \<Longrightarrow> set_id obj m = m\<lparr>JSONRPCID := obj_id obj\<rparr>"
  by (simp add: set_id_def obj_id_def split: option.splits)

lemma set_params_eq: "Params m = [] \<Longrightarrow> set_params obj m = m\<lparr>Params := obj_text ''params'' obj\<rparr>"
  by (simp add: set_params_def obj_text_def split: option.splits)

lemma set_result_eq: "Result m = [] \<Longrightarrow> set_result obj m = m\<lparr>Result := obj_text ''result'' obj\<rparr>"
  by (simp add: set_result_def obj_text_def split: option.splits)

lemma set_error_eq:
  "ErrorData m = [] \<Longrightarrow> ErrorCode m = [] \<Longrightarrow>
     set_error obj m = m\<lparr>ErrorData := obj_text ''error'' obj, ErrorCode := obj_error_code obj\<rparr>"
  by (simp add: set_error_def obj_text_def obj_error_code_def Let_def
      split: option.splits json.splits)

lemma set_type_eq:
  "MsgType m = [] \<Longrightarrow> set_type m = m\<lparr>MsgType := msg_type_of (Method m) (JSONRPCID m)\<rparr>"
  by (simp add: set_type_def msg_type_of_def)

lemmas set_eqs = set_method_eq set_id_eq set_params_eq set_result_eq set_error_eq set_type_eq

lemma ParseJSONRPC_eq:
  "ParseJSONRPC now raw dir tr = map_option (parsed_message now raw dir tr) (unmarshal_object raw)"
  by (simp add: ParseJSONRPC_def zero_message_def set_eqs set_size_def go_quot_nonneg
      parsed_message_def Let_def split: option.splits)

lemma parsed_message_simps [simp]:
  "Raw (parsed_message now raw dir tr obj) = raw"
  "Direction (parsed_message now raw dir tr obj) = dir"
  "Transport (parsed_message now raw dir tr obj) = tr"
  "Timestamp (parsed_message now raw dir tr obj) = now"
  "ID (parsed_message now raw dir tr obj) = 0"
  "LatencyMS (parsed_message now raw dir tr obj) = 0"
  "Method (parsed_message now raw dir tr obj) = obj_method obj"
  "JSONRPCID (parsed_message now raw dir tr obj) = obj_id obj"
  "MsgType (parsed_message now raw dir tr obj) = msg_type_of (obj_method obj) (obj_id obj)"
  "SizeBytes (parsed_message now raw dir tr obj) = int (length raw)"
  by (simp_all add: parsed_message_def)

interpretation jsonrpc: message_parser ParseJSONRPC
  by unfold_locales (auto simp: ParseJSONRPC_eq)

section \<open>Classification\<close>

lemma v_layout_nonempty: "v_layout neg ds dp \<noteq> []"
  by (auto simp: v_layout_def layout_e_def layout_f_def exp_text_def zeros_def)

lemma json_fmt_v_empty: "json_fmt_v v = [] \<longleftrightarrow> v = JStr []"
proof (cases v)
  case (JNum f)
  then show ?thesis
    by (cases f) (auto simp: v_layout_nonempty split: prod.splits)
qed auto

lemma obj_id_empty:
  "obj_id obj = [] \<longleftrightarrow> map_of obj ''id'' \<in> {None, Some JNull, Some (JStr [])}"
  by (auto simp: obj_id_def json_fmt_v_empty split: option.splits)

lemma obj_method_nonempty:
  "obj_method obj \<noteq> [] \<longleftrightarrow> (\<exists>s. map_of obj ''method'' = Some (JStr s) \<and> s \<noteq> [])"
  by (auto simp: obj_method_def split: option.splits json.splits)

lemma msg_type_of_simps:
  "msg_type_of m i = MsgTypeRequest \<longleftrightarrow> m \<noteq> [] \<and> i \<noteq> []"
  "msg_type_of m i = MsgTypeNotification \<longleftrightarrow> m \<noteq> [] \<and> i = []"
  "msg_type_of m i = MsgTypeResponse \<longleftrightarrow> m = [] \<and> i \<noteq> []"
  "msg_type_of m i = [] \<longleftrightarrow> m = [] \<and> i = []"
  by (auto simp: msg_type_of_def)

lemma unmarshal_object_cases:
  "unmarshal_object raw = Some obj \<longleftrightarrow>
     json_decode raw = Some (JObj obj) \<or> json_decode raw = Some JNull \<and> obj = []"
  by (auto simp: unmarshal_object_def split: option.splits json.splits)

text \<open>
  \<open>ParseJSONRPC\<close> drops a text exactly when it does not decode to a JSON object or to
  \<open>null\<close>: malformed JSON, scalars and JSON-RPC batches (arrays) give no message, whatever
  the time, direction and transport.
\<close>

theorem parse_drops:
  "(ParseJSONRPC now raw dir tr = None) =
     (case json_decode raw of
        Some (JObj obj) \<Rightarrow> False
      | Some JNull \<Rightarrow> False
      | _ \<Rightarrow> True)"
  by (auto simp: ParseJSONRPC_eq unmarshal_object_def split: option.splits json.splits)

definition has_method :: "(bytes \<times> json) list \<Rightarrow> bool" where
  "has_method obj \<longleftrightarrow> (case map_of obj ''method'' of Some (JStr s) \<Rightarrow> s \<noteq> [] | _ \<Rightarrow> False)"

definition has_id :: "(bytes \<times> json) list \<Rightarrow> bool" where
  "has_id obj \<longleftrightarrow> map_of obj ''id'' \<notin> {None, Some JNull, Some (JStr [])}"

lemma obj_method_has: "obj_method obj \<noteq> [] \<longleftrightarrow> has_method obj"
  by (simp add: obj_method_def has_method_def split: option.splits json.splits)

text \<open>
  The classification of a decoded object: a request has a non-empty string \<open>method\<close> and
  an \<open>id\<close> that is neither null nor the empty string; a notification has the method but no
  such id; a response has such an id and no such method; the type is left empty otherwise.
  No other type is ever assigned.
\<close>

theorem parse_classifies:
  assumes "json_decode raw = Some (JObj obj)" "ParseJSONRPC now raw dir tr = Some m"
  shows "(MsgType m = MsgTypeRequest) = (has_method obj \<and> has_id obj) \<and>
    (MsgType m = MsgTypeNotification) = (has_method obj \<and> \<not> has_id obj) \<and>
    (MsgType m = MsgTypeResponse) = (\<not> has_method obj \<and> has_id obj) \<and>
    (MsgType m = []) = (\<not> has_method obj \<and> \<not> has_id obj)"
proof -
  have "MsgType m = msg_type_of (obj_method obj) (obj_id obj)"
    using assms by (simp add: ParseJSONRPC_eq unmarshal_object_def) (metis parsed_message_simps(9))
  moreover have "obj_id obj \<noteq> [] \<longleftrightarrow> has_id obj" by (simp add: obj_id_empty has_id_def)
  ultimately show ?thesis
    using obj_method_has [of obj] by (auto simp: msg_type_of_simps)
qed

definition example_call :: bytes where
  "example_call = json_text (JObj [(''id'', JNum (f64_of_int 7)), (''method'', JStr ''tools/call''),
     (''params'', JObj [(''name'', JStr ''add'')])])"

lemma parse_classifies_witness:
  "MsgType (the (ParseJSONRPC 5 example_call ''IN'' ''stdio'')) = MsgTypeRequest"
proof -
  have "json_decode example_call = Some (JObj [(''id'', JNum (f64_of_int 7)),
      (''method'', JStr ''tools/call''), (''params'', JObj [(''name'', JStr ''add'')])])"
    by code_simp
  from parse_classifies [OF this, of 5 "''IN''" "''stdio''"] this show ?thesis
    by (simp add: ParseJSONRPC_eq unmarshal_object_def has_method_def has_id_def)
qed

section \<open>Payloads\<close>

lemma map_of_wf:
  "json_wf d (JObj obj) \<Longrightarrow> map_of obj k = Some v \<Longrightarrow> json_wf d v"
  using json_wf_mono [of "d - 1" v d] by (fastforce dest!: map_of_SomeD)

lemma obj_text_decodes:
  assumes "unmarshal_object raw = Some obj" "map_of obj k = Some v"
  shows "json_decode (obj_text k obj) = Some v"
proof -
  have "json_wf max_nesting (JObj obj)"
    using assms json_decode_wf by (auto simp: unmarshal_object_cases simp del: json_wf.simps)
  then have "json_wf max_nesting v" using assms(2) map_of_wf by blast
  then show ?thesis using assms(2) by (simp add: obj_text_def json_roundtrip)
qed

text \<open>
  No payload is lost or altered: what \<open>ParseJSONRPC\<close> stores in \<open>Params\<close>, \<open>Result\<close>
  and \<open>ErrorData\<close> decodes to exactly the value the member had in the observed text (numbers
  as the \<open>float64\<close> they denote, strings as they were unescaped), and the empty string stands
  for an absent member.
\<close>

theorem parse_payload_roundtrip:
  assumes "unmarshal_object raw = Some obj" "ParseJSONRPC now raw dir tr = Some m"
  shows "json_decode (Params m) = map_of obj ''params'' \<and>
    json_decode (Result m) = map_of obj ''result'' \<and>
    json_decode (ErrorData m) = map_of obj ''error''"
proof -
  have none: "json_decode [] = None" by (simp add: unmarshal_def pvalue.simps skip_ws_def)
  have "json_decode (obj_text k obj) = map_of obj k" for k
    using obj_text_decodes [OF assms(1)] none
    by (cases "map_of obj k") (simp_all add: obj_text_def)
  moreover have "m = parsed_message now raw dir tr obj"
    using assms by (simp add: ParseJSONRPC_eq)
  ultimately show ?thesis by (simp add: parsed_message_def)
qed

lemma parse_payload_roundtrip_witness:
  "json_decode (Params (the (ParseJSONRPC 5 example_call ''IN'' ''stdio''))) =
     Some (JObj [(''name'', JStr ''add'')])"
proof -
  have "unmarshal_object example_call = Some [(''id'', JNum (f64_of_int 7)),
      (''method'', JStr ''tools/call''), (''params'', JObj [(''name'', JStr ''add'')])]"
    by code_simp
  from parse_payload_roundtrip [OF this, of 5 "''IN''" "''stdio''"] this show ?thesis
    by (simp add: ParseJSONRPC_eq)
qed

section \<open>JSON-RPC messages\<close>

text \<open>
  The messages of the protocol, their JSON text, and what the monitor is to report for each:
  the specification \<open>ParseJSONRPC\<close> implements.
\<close>

datatype rpc =
    RpcRequest json bytes "json option"
  | RpcNotification bytes "json option"
  | RpcResult json json
  | RpcError json json bytes

definition opt_member :: "bytes \<Rightarrow> json option \<Rightarrow> (bytes \<times> json) list" where
  "opt_member k v = (case v of None \<Rightarrow> [] | Some x \<Rightarrow> [(k, x)])"

fun rpc_members :: "rpc \<Rightarrow> (bytes \<times> json) list" where
  "rpc_members (RpcRequest i m p) =
     [(''id'', i), (''jsonrpc'', JStr ''2.0''), (''method'', JStr m)] @ opt_member ''params'' p"
| "rpc_members (RpcNotification m p) =
     [(''jsonrpc'', JStr ''2.0''), (''method'', JStr m)] @ opt_member ''params'' p"
| "rpc_members (RpcResult i v) = [(''id'', i), (''jsonrpc'', JStr ''2.0''), (''result'', v)]"
| "rpc_members (RpcError i c t) =
     [(''error'', JObj [(''code'', c), (''message'', JStr t)]), (''id'', i),
      (''jsonrpc'', JStr ''2.0'')]"

definition rpc_text :: "rpc \<Rightarrow> bytes" where
  "rpc_text r = json_text (JObj (rpc_members r))"

definition proper_id :: "json \<Rightarrow> bool" where
  "proper_id i \<longleftrightarrow> i \<noteq> JNull \<and> i \<noteq> JStr []"

fun rpc_ok :: "rpc \<Rightarrow> bool" where
  "rpc_ok (RpcRequest i m p) = (proper_id i \<and> m \<noteq> [])"
| "rpc_ok (RpcNotification m p) = (m \<noteq> [])"
| "rpc_ok (RpcResult i v) = proper_id i"
| "rpc_ok (RpcError i c t) = proper_id i"

definition opt_text :: "json option \<Rightarrow> bytes" where
  "opt_text v = (case v of None \<Rightarrow> [] | Some x \<Rightarrow> json_text x)"

fun rpc_report :: "rpc \<Rightarrow> message \<Rightarrow> message" where
  "rpc_report (RpcRequest i m p) msg =
     msg\<lparr>MsgType := MsgTypeRequest, Method := m, JSONRPCID := json_fmt_v i, Params := opt_text p\<rparr>"
| "rpc_report (RpcNotification m p) msg =
     msg\<lparr>MsgType := MsgTypeNotification, Method := m, Params := opt_text p\<rparr>"
| "rpc_report (RpcResult i v) msg =
     msg\<lparr>MsgType := MsgTypeResponse, JSONRPCID := json_fmt_v i, Result := json_text v\<rparr>"
| "rpc_report (RpcError i c t) msg =
     msg\<lparr>MsgType := MsgTypeResponse, JSONRPCID := json_fmt_v i, ErrorCode := json_fmt_v c,
         ErrorData := json_text (JObj [(''code'', c), (''message'', JStr t)])\<rparr>"

definition rpc_message :: "time \<Rightarrow> bytes \<Rightarrow> bytes \<Rightarrow> rpc \<Rightarrow> message" where
  "rpc_message now dir tr r =
     rpc_report r (zero_message\<lparr>Timestamp := now, Direction := dir, Transport := tr,
       Raw := rpc_text r, SizeBytes := int (length (rpc_text r)),
       TokenEstimate := int (length (rpc_text r)) div 4\<rparr>)"

lemma marshal_wf: "json_wf d v \<Longrightarrow> json_marshal v = json_text v"
  by (simp add: json_marshal_def json_wf_finite)

lemma parsed_rpc_message:
  assumes "rpc_ok r" "json_wf max_nesting (JObj (rpc_members r))"
  shows "parsed_message now (rpc_text r) dir tr (rpc_members r) = rpc_message now dir tr r"
proof -
  have payload: "obj_text k (rpc_members r) = opt_text (map_of (rpc_members r) k)" for k
    using assms(2) map_of_wf marshal_wf
    by (fastforce simp: obj_text_def opt_text_def split: option.splits)
  show ?thesis
    using assms(1) payload [of "''params''"] payload [of "''result''"] payload [of "''error''"]
    by (cases r) (simp_all add: parsed_message_def rpc_message_def zero_message_def
        opt_member_def proper_id_def obj_method_def obj_id_def obj_error_code_def opt_text_def
        msg_type_of_def json_fmt_v_empty del: json_fmt_v.simps json_text.simps split: option.splits)
qed

lemma parse_rpc:
  assumes "rpc_ok r" "json_wf max_nesting (JObj (rpc_members r))"
  shows "ParseJSONRPC now (rpc_text r) dir tr = Some (rpc_message now dir tr r)"
proof -
  have "json_decode (rpc_text r) = Some (JObj (rpc_members r))"
    using json_roundtrip [OF assms(2)] marshal_wf [OF assms(2)] by (simp add: rpc_text_def)
  then show ?thesis
    using parsed_rpc_message [OF assms] by (simp add: ParseJSONRPC_eq unmarshal_object_def)
qed



definition id_text :: "bytes \<Rightarrow> bytes" where
  "id_text v = [lbrace, dquote] @ ''id'' @ [dquote, CHR '':''] @ v @ [rbrace]"

definition reported_id :: "time \<Rightarrow> bytes \<Rightarrow> bytes option" where
  "reported_id now raw = map_option JSONRPCID (ParseJSONRPC now raw ''IN'' ''stdio'')"

lemma reported_id_eq: "reported_id now raw = map_option obj_id (unmarshal_object raw)"
  by (cases "unmarshal_object raw") (simp_all add: reported_id_def ParseJSONRPC_eq)

text \<open>
  Ids are compared as text, so two ids the protocol tells apart can be one id to the
  monitor: the number 1 and the string \<open>"1"\<close> print alike, and integers that differ by less
  than the spacing of \<open>float64\<close> decode to the same number (above 2^53).
\<close>

theorem parse_id_collisions:
  "reported_id now (id_text ''1'') = reported_id now (id_text [dquote, CHR ''1'', dquote]) \<and>
   reported_id now (id_text ''9007199254740993'') = reported_id now (id_text ''9007199254740992'') \<and>
   reported_id now (id_text ''1000000'') = Some ''1e+06''"
proof -
  have "map_option obj_id (unmarshal_object (id_text ''1'')) = Some ''1''"
    "map_option obj_id (unmarshal_object (id_text [dquote, CHR ''1'', dquote])) = Some ''1''"
    "unmarshal_object (id_text ''9007199254740993'') = unmarshal_object (id_text ''9007199254740992'')"
    "map_option obj_id (unmarshal_object (id_text ''1000000'')) = Some ''1e+06''"
    by code_simp+
  then show ?thesis by (simp only: reported_id_eq simp_thms)
qed

end
