(* ===== verification/Transport_Tap.thy ===== *)
theory Transport_Tap
  imports Framing Go_Chan Engine_Parser
begin

text \<open>
  What the HTTP and the socket interceptors share: the loop that cuts lines off the front of
  a growing buffer and hands each to a handler, and the handing of a parsed text to the
  message channel (\<open>select { case messages <- msg: default: }\<close>).

  The parser is the \<open>Parser\<close> interface of the engine, an argument here as in the code. What
  can be said of any such parser is proved in its locale: what a tap queues is what the
  parser makes of the lines of the stream, however the stream was cut into reads.
\<close>

type_synonym parser = "time \<Rightarrow> bytes \<Rightarrow> bytes \<Rightarrow> bytes \<Rightarrow> message option"
type_synonym mchan = "message chan"

definition send_parsed ::
  "parser \<Rightarrow> time \<Rightarrow> bytes \<Rightarrow> bytes \<Rightarrow> bytes \<Rightarrow> mchan \<Rightarrow> mchan" where
  "send_parsed parse now line direction transType messages =
     (case parse now line direction transType of
        None \<Rightarrow> messages
      | Some msg \<Rightarrow> try_send msg messages)"

text \<open>\<open>for { idx := bytes.IndexByte(buf, '\n'); if idx == -1 { break }; ... }\<close>\<close>

function line_loop :: "(bytes \<Rightarrow> 'c \<Rightarrow> 'c) \<Rightarrow> bytes \<Rightarrow> 'c \<Rightarrow> bytes \<times> 'c" where
  "line_loop handle buf st =
     (case IndexByte buf nl of
        None \<Rightarrow> (buf, st)
      | Some idx \<Rightarrow> line_loop handle (drop (Suc idx) buf) (handle (take idx buf) st))"
  by pat_completeness auto
termination
  by (relation "measure (\<lambda>(h, buf, st). length buf)") (auto dest: IndexByte_less)

declare line_loop.simps [simp del]

lemma line_loop_split:
  "line_loop handle buf st = (case split_lines buf of (ls, r) \<Rightarrow> (r, fold handle ls st))"
proof (induction handle buf st rule: line_loop.induct)
  case (1 handle buf st)
  show ?case
  proof (cases "IndexByte buf nl")
    case None
    then show ?thesis by (simp add: line_loop.simps [of handle buf] split_lines.simps [of buf])
  next
    case (Some i)
    with 1 show ?thesis
      by (simp add: line_loop.simps [of handle buf] split_lines.simps [of buf] split: prod.splits)
  qed
qed

section \<open>Handlers that queue at most one message per line\<close>

text \<open>
  \<open>emits select parse handle\<close>: the handler picks a payload out of the line, or nothing, and
  queues what the parser makes of it.
\<close>

definition emit_line ::
  "(bytes \<Rightarrow> bytes option) \<Rightarrow> parser \<Rightarrow> time \<Rightarrow> bytes \<Rightarrow> bytes \<Rightarrow> bytes \<Rightarrow> message option" where
  "emit_line payload parse now direction transType line =
     Option.bind (payload line) (\<lambda>p. parse now p direction transType)"

definition emit_lines ::
  "(bytes \<Rightarrow> bytes option) \<Rightarrow> parser \<Rightarrow> time \<Rightarrow> bytes \<Rightarrow> bytes \<Rightarrow> bytes list \<Rightarrow> message list" where
  "emit_lines payload parse now direction transType ls =
     List.map_filter (emit_line payload parse now direction transType) ls"

lemma emit_lines_simps [simp]:
  "emit_lines f p t d tr [] = []"
  "emit_lines f p t d tr (l # ls) =
     (case emit_line f p t d tr l of None \<Rightarrow> [] | Some m \<Rightarrow> [m]) @ emit_lines f p t d tr ls"
  by (simp_all add: emit_lines_def List.map_filter_def split: option.splits)

lemma emit_lines_append [simp]:
  "emit_lines f p t d tr (ls @ ls') = emit_lines f p t d tr ls @ emit_lines f p t d tr ls'"
  by (induction ls) simp_all

lemma fold_handler:
  assumes "\<And>l ch. handle l ch =
    (case emit_line f p t d tr l of None \<Rightarrow> ch | Some m \<Rightarrow> try_send m ch)"
  shows "fold handle ls ch = fold try_send (emit_lines f p t d tr ls) ch"
  by (induction ls arbitrary: ch) (simp_all add: assms split: option.splits)

lemma fold_try_send_subseq:
  "subseq (chan_items (fold try_send xs c)) (chan_items c @ xs)"
proof (induction xs arbitrary: c)
  case (Cons x xs)
  have "subseq (chan_items (try_send x c)) (chan_items c @ [x])"
    by (simp add: try_send_def subseq_append_rightI)
  then have "subseq (chan_items (try_send x c) @ xs) ((chan_items c @ [x]) @ xs)"
    by (intro list_emb_append_mono) auto
  then show ?case using Cons.IH [of "try_send x c"] subseq_order.order_trans by fastforce
qed simp

lemma fold_try_send_bounded:
  "length (chan_items c) \<le> chan_cap c \<Longrightarrow> length (chan_items (fold try_send xs c)) \<le> chan_cap c"
proof (induction xs arbitrary: c)
  case (Cons x xs)
  then have "length (chan_items (try_send x c)) \<le> chan_cap (try_send x c)"
    by (simp add: try_send_def chan_has_room_def)
  with Cons.IH [of "try_send x c"] show ?case by simp
qed simp

section \<open>Any parser\<close>

context message_parser
begin

text \<open>Everything a tap emits is labelled with the tap's direction and transport, and carries a
  payload of one of the lines.\<close>

lemma emit_lines_from:
  assumes "m \<in> set (emit_lines payload Parse now dir tr ls)"
  shows "Direction m = dir \<and> Transport m = tr \<and> Timestamp m = now \<and>
    (\<exists>l\<in>set ls. payload l = Some (Raw m))"
proof -
  obtain l where l: "l \<in> set ls" "emit_line payload Parse now dir tr l = Some m"
    using assms by (auto simp: emit_lines_def List.map_filter_def)
  then obtain p where "payload l = Some p" "Parse now p dir tr = Some m"
    by (auto simp: emit_line_def bind_eq_Some_conv)
  with l(1) show ?thesis using parse_origin by blast
qed

text \<open>In order, nothing else: the raw texts are the accepted payloads of the lines.\<close>

lemma emit_lines_Raw:
  "map Raw (emit_lines payload Parse now dir tr ls) =
     filter accepts (List.map_filter payload ls)"
proof (induction ls)
  case (Cons l ls)
  show ?case
  proof (cases "payload l")
    case None
    with Cons show ?thesis by (simp add: emit_line_def List.map_filter_simps)
  next
    case (Some p)
    with Cons parse_accepts [of now p dir tr] parse_origin [of now p dir tr] show ?thesis
      by (cases "Parse now p dir tr") (simp_all add: emit_line_def List.map_filter_simps)
  qed
qed (simp add: List.map_filter_simps)

end

end
