(* ===== verification/Engine_Tracing.thy ===== *)
theory Engine_Tracing
  imports Engine_Message
begin

text \<open>
  What the engine and the proxy do with OpenTelemetry. The tracer is third-party: of it the
  model keeps which calls the program makes, in order, on spans named by handles
  (\<open>tr_calls\<close>); \<open>tr_on\<close> is the code's test that \<open>otel.Tracer\<close> is not nil. The propagator's
  \<open>Extract\<close> is kept as the call it is, \<open>Extracted tp\<close> for the carrier \<open>{"traceparent": tp}\<close>.

  The second part is the decoding of \<open>params\<close> into the anonymous struct with the fields
  \<open>meta\<close> and \<open>_meta\<close>: \<open>encoding/json\<close> matches member names to fields without regard to case,
  visits the members in text order, leaves a field alone on \<open>null\<close>, and on a value of the
  wrong type records an error and goes on.
\<close>

section \<open>Spans\<close>

datatype attr = AString bytes bytes | AInt64 bytes int

datatype span_status = StatusOk | StatusError

datatype span_context = Background | RequestContext | Extracted span_context bytes | WithSpan nat

datatype span_call =
    StartSpan nat span_context bytes "attr list"
  | SetStatus nat span_status bytes
  | SetAttributes nat "attr list"
  | EndSpan nat

record tracer =
  tr_on :: bool
  tr_next :: nat
  tr_calls :: "span_call list"

definition new_tracer :: "bool \<Rightarrow> tracer" where
  "new_tracer on = \<lparr>tr_on = on, tr_next = 0, tr_calls = []\<rparr>"

definition span_calls :: "span_call list \<Rightarrow> tracer \<Rightarrow> tracer" where
  "span_calls cs tr = tr\<lparr>tr_calls := tr_calls tr @ cs\<rparr>"

text \<open>\<open>tracer.Start\<close>, and no span when there is no tracer.\<close>

definition start_span :: "span_context \<Rightarrow> bytes \<Rightarrow> attr list \<Rightarrow> tracer \<Rightarrow> nat option \<times> tracer" where
  "start_span ctx name attrs tr =
     (if tr_on tr then
        (Some (tr_next tr),
         (span_calls [StartSpan (tr_next tr) ctx name attrs] tr)\<lparr>tr_next := Suc (tr_next tr)\<rparr>)
      else (None, tr))"

text \<open>
  The protocol of a span, as an automaton over the calls: handles are started in order, a
  span is touched only between its start and its end, and is ended at most once.
  The state is the next handle and the handles already ended.
\<close>

fun span_step :: "(nat \<times> nat list) option \<Rightarrow> span_call \<Rightarrow> (nat \<times> nat list) option" where
  "span_step None c = None"
| "span_step (Some (n, ended)) (StartSpan h ctx name attrs) =
     (if h = n then Some (Suc n, ended) else None)"
| "span_step (Some (n, ended)) (SetStatus h st d) =
     (if h < n \<and> h \<notin> set ended then Some (n, ended) else None)"
| "span_step (Some (n, ended)) (SetAttributes h attrs) =
     (if h < n \<and> h \<notin> set ended then Some (n, ended) else None)"
| "span_step (Some (n, ended)) (EndSpan h) =
     (if h < n \<and> h \<notin> set ended then Some (n, h # ended) else None)"

definition span_check :: "span_call list \<Rightarrow> (nat \<times> nat list) option" where
  "span_check calls = foldl span_step (Some (0, [])) calls"

lemma span_check_append: "span_check (cs @ ds) = foldl span_step (span_check cs) ds"
  by (simp add: span_check_def)

lemma span_check_Nil [simp]: "span_check [] = Some (0, [])"
  by (simp add: span_check_def)

lemma span_check_ended: "span_check cs = Some (n, ended) \<Longrightarrow> h \<in> set ended \<Longrightarrow> h < n"
proof (induction cs arbitrary: n ended rule: rev_induct)
  case (snoc c cs)
  then obtain n' ended' where "span_check cs = Some (n', ended')"
      "span_step (Some (n', ended')) c = Some (n, ended)"
    by (cases "span_check cs") (auto simp: span_check_append)
  with snoc show ?case by (cases c) (fastforce split: if_splits)+
qed simp

lemma start_span_simps [simp]:
  "tr_on (snd (start_span ctx nm as tr)) = tr_on tr"
  "tr_on (span_calls cs tr) = tr_on tr" "tr_next (span_calls cs tr) = tr_next tr"
  "tr_calls (span_calls cs tr) = tr_calls tr @ cs"
  by (simp_all add: start_span_def span_calls_def)

section \<open>The trace parent in the parameters\<close>

definition field_match :: "bytes \<Rightarrow> bytes \<Rightarrow> bool" where
  "field_match name key \<longleftrightarrow> ToLowerASCII key = name"

text \<open>The structs being filled, and whether a type error was recorded.\<close>

record meta_params =
  mp_meta :: bytes
  mp_meta_alt :: bytes
  mp_error :: bool

definition meta_member :: "bytes \<times> json \<Rightarrow> bytes \<times> bool \<Rightarrow> bytes \<times> bool" where
  "meta_member kv st =
     (case (kv, st) of ((k, v), (tp, err)) \<Rightarrow>
        if field_match ''traceparent'' k then
          (case v of JStr s \<Rightarrow> (s, err) | JNull \<Rightarrow> (tp, err) | _ \<Rightarrow> (tp, True))
        else (tp, err))"

definition meta_struct :: "json \<Rightarrow> bytes \<times> bool \<Rightarrow> bytes \<times> bool" where
  "meta_struct v st =
     (case v of
        JObj members \<Rightarrow> fold meta_member members st
      | JNull \<Rightarrow> st
      | _ \<Rightarrow> (fst st, True))"

definition params_member :: "bytes \<times> json \<Rightarrow> meta_params \<Rightarrow> meta_params" where
  "params_member kv p =
     (if field_match ''meta'' (fst kv) then
        (let (tp, err) = meta_struct (snd kv) (mp_meta p, mp_error p)
         in p\<lparr>mp_meta := tp, mp_error := err\<rparr>)
      else if field_match ''_meta'' (fst kv) then
        (let (tp, err) = meta_struct (snd kv) (mp_meta_alt p, mp_error p)
         in p\<lparr>mp_meta_alt := tp, mp_error := err\<rparr>)
      else p)"

definition params_struct :: "json \<Rightarrow> meta_params" where
  "params_struct v =
     (let p = \<lparr>mp_meta = [], mp_meta_alt = [], mp_error = False\<rparr> in
      case v of
        JObj members \<Rightarrow> fold params_member members p
      | JNull \<Rightarrow> p
      | _ \<Rightarrow> p\<lparr>mp_error := True\<rparr>)"

definition traceparent :: "meta_params \<Rightarrow> bytes" where
  "traceparent p = (if mp_meta p = [] then mp_meta_alt p else mp_meta p)"

text \<open>\<open>extractParentContext\<close>: an error of any kind means no parent.\<close>

definition extractParentContext :: "message \<Rightarrow> span_context" where
  "extractParentContext msg =
     (if Params msg = [] then Background
      else case unmarshal True (Params msg) of
        None \<Rightarrow> Background
      | Some v \<Rightarrow>
          (let p = params_struct v in
           if \<not> mp_error p \<and> traceparent p \<noteq> [] then Extracted Background (traceparent p)
           else Background))"

end
