(* ===== verification/Transport_Proxy.thy ===== *)
theory Transport_Proxy
  imports Transport_Tap Engine_Tracing
begin

text \<open>
  \<open>internal/transport/proxy.go\<close>: the reverse proxy's round trip and the two body wrappers,
  \<open>bodyInterceptor\<close> and \<open>streamInterceptor\<close>, that read the bodies through while tapping the
  JSON-RPC messages in them. \<open>Read\<close> of a wrapper gets what \<open>Read\<close> of the wrapped body
  returned (the bytes and the error) and returns what it reports to its caller.
\<close>

section \<open>The interceptors\<close>

datatype io_error = EOF | IOError bytes

record interceptor =
  ic_transType :: bytes
  ic_direction :: bytes
  ic_buf :: bytes

definition max_stream_buffer :: nat where
  "max_stream_buffer = 10 * 1024 * 1024"

definition limit_error :: io_error where
  "limit_error = IOError ''stream buffer limit exceeded (10MB)''"

text \<open>One line of \<open>bodyInterceptor\<close>: trimmed, without the record separator of json-seq.\<close>

definition body_line :: "parser \<Rightarrow> time \<Rightarrow> interceptor \<Rightarrow> bytes \<Rightarrow> mchan \<Rightarrow> mchan" where
  "body_line parse now s lineBytes messages =
     (let lineBytes = TrimSpace lineBytes;
          line = TrimPrefix lineBytes [CHR 0x1E]
      in if line = [] then messages
         else send_parsed parse now line (ic_direction s) (ic_transType s) messages)"

text \<open>One line of \<open>streamInterceptor\<close>: the payload of an SSE \<open>data:\<close> field, or the line.\<close>

definition sse_field :: "bytes \<Rightarrow> bytes" where
  "sse_field line =
     (if HasPrefix line ''data:'' then TrimSpace (TrimPrefix line ''data:'') else line)"

definition stream_line :: "parser \<Rightarrow> time \<Rightarrow> interceptor \<Rightarrow> bytes \<Rightarrow> mchan \<Rightarrow> mchan" where
  "stream_line parse now s lineBytes messages =
     (let lineBytes = TrimSpace lineBytes;
          line = TrimPrefix lineBytes [CHR 0x1E]
      in if line = [] then messages
         else
           (let payload = sse_field line
            in if payload \<noteq> [] \<and> (HasPrefix payload [lbrace] \<or> HasPrefix payload [lbrack])
               then send_parsed parse now payload ''OUT'' (ic_transType s) messages
               else messages))"

text \<open>
  \<open>Read\<close>, which the two interceptors share but for the treatment of a line: \<open>data\<close> is
  \<open>p[:n]\<close> and \<open>err\<close> the error of the wrapped body.
\<close>

definition intercept_read ::
  "(interceptor \<Rightarrow> bytes \<Rightarrow> mchan \<Rightarrow> mchan) \<Rightarrow> bytes \<Rightarrow> io_error option \<Rightarrow> interceptor \<times> mchan
     \<Rightarrow> (nat \<times> io_error option) \<times> interceptor \<times> mchan" where
  "intercept_read line data err st =
     (case st of (s, messages) \<Rightarrow>
        let n = length data in
        if n > 0 \<and> length (ic_buf s) + n > max_stream_buffer
        then ((0, Some limit_error), s, messages)
        else
          (let (s, messages) =
                 (if n > 0 then
                    (let (buf, messages) = line_loop (line s) (ic_buf s @ data) messages
                     in (s\<lparr>ic_buf := buf\<rparr>, messages))
                  else (s, messages));
               (s, messages) =
                 (if err = Some EOF \<and> ic_buf s \<noteq> []
                  then (s\<lparr>ic_buf := []\<rparr>, line s (ic_buf s) messages)
                  else (s, messages))
           in ((n, err), s, messages)))"

definition body_read ::
  "parser \<Rightarrow> time \<Rightarrow> bytes \<Rightarrow> io_error option \<Rightarrow> interceptor \<times> mchan
     \<Rightarrow> (nat \<times> io_error option) \<times> interceptor \<times> mchan" where
  "body_read parse now = intercept_read (body_line parse now)"

definition stream_read ::
  "parser \<Rightarrow> time \<Rightarrow> bytes \<Rightarrow> io_error option \<Rightarrow> interceptor \<times> mchan
     \<Rightarrow> (nat \<times> io_error option) \<times> interceptor \<times> mchan" where
  "stream_read parse now = intercept_read (stream_line parse now)"

text \<open>A body read to its end: chunk after chunk, then end of file.\<close>

fun read_all ::
  "(bytes \<Rightarrow> io_error option \<Rightarrow> interceptor \<times> mchan
     \<Rightarrow> (nat \<times> io_error option) \<times> interceptor \<times> mchan)
   \<Rightarrow> bytes list \<Rightarrow> interceptor \<times> mchan \<Rightarrow> (nat \<times> io_error option) list \<times> interceptor \<times> mchan" where
  "read_all rd [] st = (let (r, st') = rd [] (Some EOF) st in ([r], st'))"
| "read_all rd (c # cs) st =
     (let (r, st') = rd c None st; (rs, st'') = read_all rd cs st' in (r # rs, st''))"

section \<open>What a line contributes\<close>

definition body_payload :: "bytes \<Rightarrow> bytes option" where
  "body_payload l =
     (let line = TrimPrefix (TrimSpace l) [CHR 0x1E] in if line = [] then None else Some line)"

definition sse_payload :: "bytes \<Rightarrow> bytes option" where
  "sse_payload l =
     (let payload = sse_field (TrimPrefix (TrimSpace l) [CHR 0x1E])
      in if payload \<noteq> [] \<and> hd payload \<in> {lbrace, lbrack} then Some payload else None)"

lemma HasPrefix_single: "HasPrefix s [c] \<longleftrightarrow> s \<noteq> [] \<and> hd s = c"
  by (cases s) (simp_all add: HasPrefix_def)

lemma body_line_emits:
  "body_line p t s l ch =
     (case emit_line body_payload p t (ic_direction s) (ic_transType s) l of
        None \<Rightarrow> ch | Some m \<Rightarrow> try_send m ch)"
  by (simp add: body_line_def body_payload_def emit_line_def send_parsed_def Let_def
      split: option.splits)

lemma stream_line_emits:
  "stream_line p t s l ch =
     (case emit_line sse_payload p t ''OUT'' (ic_transType s) l of
        None \<Rightarrow> ch | Some m \<Rightarrow> try_send m ch)"
proof -
  have "sse_field [] = []" by (simp add: sse_field_def HasPrefix_def)
  then show ?thesis
    by (auto simp: stream_line_def sse_payload_def emit_line_def send_parsed_def Let_def
        HasPrefix_single)
qed

section \<open>Reading to the end\<close>

text \<open>No read of the sequence runs into the limit, starting from \<open>b\<close> buffered bytes.\<close>

fun fits :: "bytes \<Rightarrow> bytes list \<Rightarrow> bool" where
  "fits b [] = True"
| "fits b (c # cs) =
     (length b + length c \<le> max_stream_buffer \<and> fits (snd (split_lines (b @ c))) cs)"

lemma fits_total: "length b + length (concat cs) \<le> max_stream_buffer \<Longrightarrow> fits b cs"
proof (induction cs arbitrary: b)
  case (Cons c cs)
  obtain ls r where s: "split_lines (b @ c) = (ls, r)" by fastforce
  from split_lines_join [OF s] have "length r \<le> length (b @ c)"
    by (metis le_add2 length_append)
  with Cons s show ?case by simp
qed simp

lemma intercept_read_chunk:
  assumes "length (ic_buf s) + length data \<le> max_stream_buffer" "nl \<notin> set (ic_buf s)"
    and "split_lines (ic_buf s @ data) = (ls, r)"
  shows "intercept_read line data None (s, ch) =
    ((length data, None), s\<lparr>ic_buf := r\<rparr>, fold (line s) ls ch)"
  using assms
  by (auto simp: intercept_read_def line_loop_split Let_def split_lines_NoneI split: prod.splits)

lemma intercept_read_eof:
  "intercept_read line [] (Some EOF) (s, ch) =
     ((0, Some EOF), s\<lparr>ic_buf := []\<rparr>,
      fold (line s) (if ic_buf s = [] then [] else [ic_buf s]) ch)"
  by (simp add: intercept_read_def)

lemma read_all_lines:
  assumes "\<And>s b l ch. line (s\<lparr>ic_buf := b\<rparr>) l ch = line s l ch"
    and "fits (ic_buf s) cs" "nl \<notin> set (ic_buf s)"
  shows "read_all (intercept_read line) cs (s, ch) =
    (map (\<lambda>c. (length c, None)) cs @ [(0, Some EOF)], s\<lparr>ic_buf := []\<rparr>,
     fold (line s) (all_lines (ic_buf s @ concat cs)) ch)"
  using assms(2,3)
proof (induction cs arbitrary: s ch)
  case Nil
  then show ?case by (simp add: intercept_read_eof all_lines_NoneI)
next
  case (Cons c cs)
  obtain ls r where s: "split_lines (ic_buf s @ c) = (ls, r)" by fastforce
  have step: "intercept_read line c None (s, ch) =
      ((length c, None), s\<lparr>ic_buf := r\<rparr>, fold (line s) ls ch)"
    using Cons.prems s by (intro intercept_read_chunk) auto
  have rec: "read_all (intercept_read line) cs (s\<lparr>ic_buf := r\<rparr>, fold (line s) ls ch) =
      (map (\<lambda>c. (length c, None)) cs @ [(0, Some EOF)], s\<lparr>ic_buf := []\<rparr>,
       fold (line (s\<lparr>ic_buf := r\<rparr>)) (all_lines (r @ concat cs)) (fold (line s) ls ch))"
    using Cons.IH [of "s\<lparr>ic_buf := r\<rparr>" "fold (line s) ls ch"] Cons.prems s split_lines_rest [OF s]
    by simp
  have "line (s\<lparr>ic_buf := r\<rparr>) = line s" using assms(1) by blast
  then show ?case
    using step rec all_lines_append [OF s, of "concat cs"] by simp
qed

section \<open>Properties of the wrappers\<close>

lemma body_line_buf [simp]: "body_line p t (s\<lparr>ic_buf := b\<rparr>) l ch = body_line p t s l ch"
  by (simp add: body_line_def Let_def)

lemma stream_line_buf [simp]: "stream_line p t (s\<lparr>ic_buf := b\<rparr>) l ch = stream_line p t s l ch"
  by (simp add: stream_line_def Let_def)

text \<open>
  A body that is read to its end passes through \<open>bodyInterceptor\<close> unchanged, read by read,
  and what the tap queues is what the parser makes of the trimmed, non-empty lines of the
  whole body (the last one with or without a line feed), in order, each dropped only if the
  channel is full; so the way the body was split into reads cannot be observed.
\<close>

theorem body_tap:
  assumes "fits [] cs" "ic_buf s = []"
  shows "read_all (body_read parse now) cs (s, ch) =
    (map (\<lambda>c. (length c, None)) cs @ [(0, Some EOF)], s,
     fold try_send
       (emit_lines body_payload parse now (ic_direction s) (ic_transType s) (all_lines (concat cs))) ch)"
  using read_all_lines [of "body_line parse now" s cs ch] assms
    fold_handler [of "body_line parse now s", OF body_line_emits]
  by (simp add: body_read_def)

lemma stream_read_all:
  assumes "fits [] cs" "ic_buf s = []"
  shows "read_all (stream_read parse now) cs (s, ch) =
    (map (\<lambda>c. (length c, None)) cs @ [(0, Some EOF)], s,
     fold try_send
       (emit_lines sse_payload parse now ''OUT'' (ic_transType s) (all_lines (concat cs))) ch)"
  using read_all_lines [of "stream_line parse now" s cs ch] assms
    fold_handler [of "stream_line parse now s", OF stream_line_emits]
  by (simp add: stream_read_def)

text \<open>
  The same for \<open>streamInterceptor\<close>: of each line the payload of its SSE \<open>data:\<close> field, or
  the line itself, goes to the parser when it starts with a brace or a bracket; every other
  line (event names, comments, keep-alives) is passed through and ignored.
\<close>

theorem stream_tap:
  assumes "fits [] cs" "ic_buf s = []"
  shows "read_all (stream_read parse now) cs (s, ch) =
    (map (\<lambda>c. (length c, None)) cs @ [(0, Some EOF)], s,
     fold try_send
       (emit_lines sse_payload parse now ''OUT'' (ic_transType s) (all_lines (concat cs))) ch)"
  using stream_read_all [OF assms] .

lemma intercept_read_cases:
  assumes "intercept_read line data err (s, ch) = (r, s', ch')" "length (ic_buf s) \<le> max_stream_buffer"
  shows "length (ic_buf s') \<le> max_stream_buffer \<and>
    (if data \<noteq> [] \<and> max_stream_buffer < length (ic_buf s) + length data
     then r = (0, Some limit_error) \<and> s' = s \<and> ch' = ch
     else r = (length data, err))"
proof (cases "data \<noteq> [] \<and> max_stream_buffer < length (ic_buf s) + length data")
  case True
  with assms show ?thesis by (auto simp: intercept_read_def Let_def)
next
  case False
  obtain ls b where s: "split_lines (ic_buf s @ data) = (ls, b)" by fastforce
  from split_lines_join [OF s] have "length b \<le> length (ic_buf s @ data)"
    by (metis le_add2 length_append)
  with False assms s show ?thesis
    by (auto simp: intercept_read_def line_loop_split Let_def split: if_splits)
qed

text \<open>
  C39. \<open>Read\<close> of a wrapper reports what \<open>Read\<close> of the wrapped body returned, with one exception:
  when the bytes would take the buffer over 10 MB it reports no bytes and the limit error,
  and neither buffers nor queues anything. The buffer never exceeds 10 MB.
\<close>

theorem read_transparent_or_limit:
  assumes "rd \<in> {body_read parse now, stream_read parse now}"
    and "rd data err (s, ch) = (r, s', ch')" "length (ic_buf s) \<le> max_stream_buffer"
  shows "length (ic_buf s') \<le> max_stream_buffer \<and>
    (if data \<noteq> [] \<and> max_stream_buffer < length (ic_buf s) + length data
     then r = (0, Some limit_error) \<and> s' = s \<and> ch' = ch
     else r = (length data, err))"
  using assms intercept_read_cases by (fastforce simp: body_read_def stream_read_def)

section \<open>\<open>RoundTrip\<close>\<close>

text \<open>
  The request body is read whole, searched for a trace parent, and forwarded; the response
  body is wrapped. Third-party: \<open>inject\<close> is the propagator's \<open>Inject\<close> on the headers (nil is
  \<open>None\<close>), \<open>upstream\<close> the wrapped round tripper.
\<close>

record 'h request =
  req_body :: "bytes option"
  req_header :: 'h

record response =
  res_has_body :: bool
  res_content_type :: bytes

datatype body_wrap = NoBody | BodyWrap interceptor | StreamWrap interceptor

definition new_interceptor :: "bytes \<Rightarrow> bytes \<Rightarrow> interceptor" where
  "new_interceptor transType direction =
     \<lparr>ic_transType = transType, ic_direction = direction, ic_buf = []\<rparr>"

definition request_params :: "bytes \<Rightarrow> json option" where
  "request_params body =
     (case unmarshal True body of
        Some (JObj members) \<Rightarrow>
          map_option snd (List.find (\<lambda>kv. field_match ''params'' (fst kv)) (rev members))
      | _ \<Rightarrow> None)"

definition proxy_traceparent :: "bytes \<Rightarrow> bytes" where
  "proxy_traceparent body =
     (case request_params body of
        None \<Rightarrow> []
      | Some params \<Rightarrow> traceparent (params_struct params))"

definition is_stream_type :: "bytes \<Rightarrow> bool" where
  "is_stream_type contentType \<longleftrightarrow>
     HasPrefix contentType ''text/event-stream'' \<or>
     HasPrefix contentType ''application/x-ndjson'' \<or>
     HasPrefix contentType ''application/json-seq'' \<or>
     Contains contentType ''ndjson''"

definition wrap_response :: "bytes \<Rightarrow> response \<Rightarrow> body_wrap" where
  "wrap_response transType res =
     (if \<not> res_has_body res then NoBody
      else if is_stream_type (res_content_type res)
      then StreamWrap (new_interceptor transType [])
      else BodyWrap (new_interceptor transType ''OUT''))"

definition RoundTrip ::
  "bytes \<Rightarrow> (span_context \<Rightarrow> 'h \<Rightarrow> 'h) option \<Rightarrow> ('h request \<Rightarrow> bytes + response)
     \<Rightarrow> 'h request \<Rightarrow> tracer
     \<Rightarrow> ('h request \<times> body_wrap) \<times> (bytes + response \<times> body_wrap) \<times> tracer" where
  "RoundTrip transType inject upstream req tr =
     (let parentCtx =
            (case req_body req of
               None \<Rightarrow> RequestContext
             | Some bodyBytes \<Rightarrow>
                 (let tp = proxy_traceparent bodyBytes
                  in if tp \<noteq> [] then Extracted RequestContext tp else RequestContext));
          (span, tr) = start_span parentCtx ''mcp.proxy.forward'' [] tr;
          parentCtx = (case span of None \<Rightarrow> parentCtx | Some h \<Rightarrow> WithSpan h);
          req = (case inject of
                   None \<Rightarrow> req
                 | Some addTo \<Rightarrow> req\<lparr>req_header := addTo parentCtx (req_header req)\<rparr>);
          reqTap = (if req_body req = None then NoBody
                    else BodyWrap (new_interceptor transType ''IN''));
          result = (case upstream req of
                      Inl err \<Rightarrow> Inl err
                    | Inr res \<Rightarrow> Inr (res, wrap_response transType res));
          tr = (case span of None \<Rightarrow> tr | Some h \<Rightarrow> span_calls [EndSpan h] tr)
      in ((req, reqTap), result, tr))"

text \<open>
  The round trip is transparent and closes its span on every path: the upstream gets the
  body byte for byte and the method and headers but for the injected trace context, its
  response or error is what the caller gets, the request body is tapped as \<open>IN\<close>, the
  response body as a stream exactly for the streaming content types, and with a tracer there
  is one span around the call, ended also when the upstream failed.
\<close>

theorem round_trip_transparent:
  assumes "RoundTrip transType inject upstream req tr = ((req', tap), result, tr')"
  shows "req_body req' = req_body req \<and>
    (tap = NoBody) = (req_body req = None) \<and>
    map_sum (\<lambda>e. e) fst result = upstream req' \<and>
    (\<forall>res w. result = Inr (res, w) \<longrightarrow> w = wrap_response transType res) \<and>
    (tr_on tr \<longrightarrow> (\<exists>ctx. tr_calls tr' = tr_calls tr @
       [StartSpan (tr_next tr) ctx ''mcp.proxy.forward'' [], EndSpan (tr_next tr)])) \<and>
    (\<not> tr_on tr \<longrightarrow> tr' = tr)"
  using assms
  by (cases "tr_on tr"; cases inject; cases "req_body req")
    (auto simp: RoundTrip_def start_span_def span_calls_def Let_def split: sum.splits if_splits)

lemma body_tap_witness:
  "chan_items (snd (snd (read_all (body_read (\<lambda>t l d tr. Some (zero_message\<lparr>Raw := l\<rparr>)) 5)
     [''  {a'', ''}'' @ [nl], ''{b}''] (new_interceptor ''http'' ''IN'', make_chan 1)))) =
   [zero_message\<lparr>Raw := ''{a}''\<rparr>]"
proof -
  have fits: "fits [] [''  {a'', ''}'' @ [nl], ''{b}'']"
    by (rule fits_total) (simp add: max_stream_buffer_def)
  have emits: "emit_lines body_payload (\<lambda>t l d tr. Some (zero_message\<lparr>Raw := l\<rparr>)) 5 ''IN'' ''http''
      (all_lines (concat [''  {a'', ''}'' @ [nl], ''{b}'']))
    = [zero_message\<lparr>Raw := ''{a}''\<rparr>, zero_message\<lparr>Raw := ''{b}''\<rparr>]"
    by code_simp
  show ?thesis
    using body_tap [OF fits, of "new_interceptor ''http'' ''IN''"
        "\<lambda>t l d tr. Some (zero_message\<lparr>Raw := l\<rparr>)" 5 "make_chan 1"] emits
    by (simp add: new_interceptor_def make_chan_def try_send_def chan_has_room_def)
qed

lemma stream_tap_witness:
  "chan_items (snd (snd (read_all (stream_read (\<lambda>t l d tr. Some (zero_message\<lparr>Raw := l\<rparr>)) 5)
     [''event: m'' @ [nl], ''data: {a'', ''}'' @ [nl]] (new_interceptor ''http'' [], make_chan 9)))) =
   [zero_message\<lparr>Raw := ''{a}''\<rparr>]"
proof -
  have fits: "fits [] [''event: m'' @ [nl], ''data: {a'', ''}'' @ [nl]]"
    by (rule fits_total) (simp add: max_stream_buffer_def)
  have emits: "emit_lines sse_payload (\<lambda>t l d tr. Some (zero_message\<lparr>Raw := l\<rparr>)) 5 ''OUT'' ''http''
      (all_lines (concat [''event: m'' @ [nl], ''data: {a'', ''}'' @ [nl]]))
    = [zero_message\<lparr>Raw := ''{a}''\<rparr>]"
    by code_simp
  show ?thesis
    using stream_tap [OF fits, of "new_interceptor ''http'' []"
        "\<lambda>t l d tr. Some (zero_message\<lparr>Raw := l\<rparr>)" 5 "make_chan 9"] emits
    by (simp add: new_interceptor_def make_chan_def try_send_def chan_has_room_def)
qed

lemma read_transparent_or_limit_witness:
  "fst (body_read ParseJSONRPC 5 ''abc'' (Some EOF) (new_interceptor ''http'' ''IN'', make_chan 1))
     = (3, Some EOF)"
proof -
  obtain r s' ch' where r: "body_read ParseJSONRPC 5 ''abc'' (Some EOF)
      (new_interceptor ''http'' ''IN'', make_chan 1) = (r, s', ch')" by (metis prod_cases3)
  show ?thesis
    using read_transparent_or_limit [OF insertI1 r] r
    by (simp add: new_interceptor_def max_stream_buffer_def)
qed

lemma round_trip_transparent_witness:
  "\<exists>req' tap result tr'.
     RoundTrip ''http/sse'' None (\<lambda>r. Inl ''refused'') \<lparr>req_body = Some ''{}'', req_header = ()\<rparr>
       (new_tracer True) = ((req', tap), result, tr') \<and> req_body req' = Some ''{}'' \<and>
     length (tr_calls tr') = 2"
proof -
  obtain req' tap result tr' where r:
      "RoundTrip ''http/sse'' None (\<lambda>r. Inl ''refused'') \<lparr>req_body = Some ''{}'', req_header = ()\<rparr>
         (new_tracer True) = ((req', tap), result, tr')" by (metis prod_cases3 surj_pair)
  show ?thesis
    using round_trip_transparent [OF r] r by (fastforce simp: new_tracer_def)
qed

end
