(* ===== verification/Transport_Socket.thy ===== *)
theory Transport_Socket
  imports Transport_Proxy
begin

text \<open>
  \<open>internal/transport/socket.go\<close>: the Unix socket relay. Each accepted connection copies two
  byte streams, client to target and target to client, each through a \<open>socketInterceptor\<close>
  that taps the lines it has written. The two copying goroutines are the two kinds of event
  of a connection; a run is any interleaving of them.
\<close>

section \<open>The interceptor\<close>

definition socket_line :: "parser \<Rightarrow> time \<Rightarrow> interceptor \<Rightarrow> bytes \<Rightarrow> mchan \<Rightarrow> mchan" where
  "socket_line parse now w lineBytes messages =
     (let line = TrimSpace lineBytes
      in if line = [] then messages
         else send_parsed parse now line (ic_direction w) (ic_transType w) messages)"

text \<open>\<open>Write(p)\<close>, given how many bytes the wrapped writer took and its error.\<close>

definition socket_write ::
  "parser \<Rightarrow> time \<Rightarrow> bytes \<Rightarrow> nat \<times> io_error option \<Rightarrow> interceptor \<times> mchan
     \<Rightarrow> (nat \<times> io_error option) \<times> interceptor \<times> mchan" where
  "socket_write parse now p res st =
     (case (res, st) of ((n, err), (w, messages)) \<Rightarrow>
        if n > 0 then
          (let (buf, messages) = line_loop (socket_line parse now w) (ic_buf w @ take n p) messages
           in ((n, err), w\<lparr>ic_buf := buf\<rparr>, messages))
        else ((n, err), w, messages))"

section \<open>A connection\<close>

record connection =
  cn_clientWriter :: interceptor
  cn_targetWriter :: interceptor
  cn_toTarget :: bytes
  cn_toClient :: bytes

definition new_connection :: connection where
  "new_connection =
     \<lparr>cn_clientWriter = new_interceptor ''socket'' ''IN'',
      cn_targetWriter = new_interceptor ''socket'' ''OUT'', cn_toTarget = [], cn_toClient = []\<rparr>"

text \<open>One turn of \<open>io.Copy\<close> in one of the two goroutines: a chunk read and written in full.\<close>

datatype conn_event = FromClient bytes | FromTarget bytes

fun conn_step :: "parser \<Rightarrow> time \<Rightarrow> conn_event \<Rightarrow> connection \<times> mchan \<Rightarrow> connection \<times> mchan" where
  "conn_step parse now (FromClient p) (c, ch) =
     (let (r, w, ch) = socket_write parse now p (length p, None) (cn_clientWriter c, ch)
      in (c\<lparr>cn_clientWriter := w, cn_toTarget := cn_toTarget c @ p\<rparr>, ch))"
| "conn_step parse now (FromTarget p) (c, ch) =
     (let (r, w, ch) = socket_write parse now p (length p, None) (cn_targetWriter c, ch)
      in (c\<lparr>cn_targetWriter := w, cn_toClient := cn_toClient c @ p\<rparr>, ch))"

text \<open>\<open>handleConnection\<close>: nothing is relayed when the target cannot be reached.\<close>

definition handleConnection ::
  "parser \<Rightarrow> time \<Rightarrow> bool \<Rightarrow> conn_event list \<Rightarrow> mchan \<Rightarrow> connection option \<times> mchan" where
  "handleConnection parse now dial_ok evs ch =
     (if \<not> dial_ok then (None, ch)
      else (let (c, ch) = fold (conn_step parse now) evs (new_connection, ch) in (Some c, ch)))"

fun client_bytes :: "conn_event list \<Rightarrow> bytes" where
  "client_bytes [] = []"
| "client_bytes (FromClient p # evs) = p @ client_bytes evs"
| "client_bytes (FromTarget p # evs) = client_bytes evs"

fun target_bytes :: "conn_event list \<Rightarrow> bytes" where
  "target_bytes [] = []"
| "target_bytes (FromClient p # evs) = target_bytes evs"
| "target_bytes (FromTarget p # evs) = p @ target_bytes evs"

section \<open>What one write does\<close>

definition socket_payload :: "bytes \<Rightarrow> bytes option" where
  "socket_payload l = (let line = TrimSpace l in if line = [] then None else Some line)"

lemma socket_line_emits:
  "socket_line p t w l ch =
     (case emit_line socket_payload p t (ic_direction w) (ic_transType w) l of
        None \<Rightarrow> ch | Some m \<Rightarrow> try_send m ch)"
  by (simp add: socket_line_def socket_payload_def emit_line_def send_parsed_def Let_def
      split: option.splits)

lemma socket_write_full:
  assumes "nl \<notin> set (ic_buf w)" "split_lines (ic_buf w @ p) = (ls, r)"
  shows "socket_write parse now p (length p, None) (w, ch) =
    ((length p, None), w\<lparr>ic_buf := r\<rparr>,
     fold try_send (emit_lines socket_payload parse now (ic_direction w) (ic_transType w) ls) ch)"
  using assms fold_handler [of "socket_line parse now w", OF socket_line_emits]
  by (cases "p = []") (auto simp: socket_write_def line_loop_split split_lines_NoneI)

text \<open>Both taps of a connection after any events, and what they have queued on the way.\<close>

definition conn_ok :: "connection \<Rightarrow> bool" where
  "conn_ok c \<longleftrightarrow> nl \<notin> set (ic_buf (cn_clientWriter c)) \<and> nl \<notin> set (ic_buf (cn_targetWriter c)) \<and>
     ic_direction (cn_clientWriter c) = ''IN'' \<and> ic_direction (cn_targetWriter c) = ''OUT'' \<and>
     ic_transType (cn_clientWriter c) = ''socket'' \<and> ic_transType (cn_targetWriter c) = ''socket''"

lemma conn_ok_new [simp, sanitary]: "conn_ok new_connection"
  by (simp add: conn_ok_def new_connection_def new_interceptor_def)

context message_parser
begin

lemma emit_lines_direction:
  "filter (\<lambda>m. Direction m = d') (emit_lines f Parse now d tr ls) =
     (if d = d' then emit_lines f Parse now d tr ls else [])"
  using emit_lines_from [of _ f now d tr ls] by (auto simp: filter_id_conv filter_empty_conv)

lemma conn_run:
  assumes "conn_ok c"
  shows "\<exists>c' ms. fold (conn_step Parse now) evs (c, ch) = (c', fold try_send ms ch) \<and>
    cn_toTarget c' = cn_toTarget c @ client_bytes evs \<and>
    cn_toClient c' = cn_toClient c @ target_bytes evs \<and>
    filter (\<lambda>m. Direction m = ''IN'') ms = emit_lines socket_payload Parse now ''IN'' ''socket''
      (fst (split_lines (ic_buf (cn_clientWriter c) @ client_bytes evs))) \<and>
    filter (\<lambda>m. Direction m = ''OUT'') ms = emit_lines socket_payload Parse now ''OUT'' ''socket''
      (fst (split_lines (ic_buf (cn_targetWriter c) @ target_bytes evs)))"
  using assms
proof (induction evs arbitrary: c ch)
  case Nil
  then have "emit_lines f Parse now d tr (fst (split_lines (ic_buf w @ []))) = []"
    if "w \<in> {cn_clientWriter c, cn_targetWriter c}" for f d tr w
    using that by (auto simp: conn_ok_def split_lines_NoneI)
  then show ?case by (intro exI [of _ c] exI [of _ "[]"]) simp
next
  case (Cons ev evs)
  have nlfree: "split_lines (ic_buf w) = ([], ic_buf w)"
    if "w \<in> {cn_clientWriter c, cn_targetWriter c}" for w
    using that Cons.prems by (auto simp: conn_ok_def split_lines_NoneI)
  show ?case
  proof (cases ev)
    case (FromClient p)
    let ?w = "cn_clientWriter c"
    obtain ls r where s: "split_lines (ic_buf ?w @ p) = (ls, r)" by fastforce
    let ?c = "c\<lparr>cn_clientWriter := ?w\<lparr>ic_buf := r\<rparr>, cn_toTarget := cn_toTarget c @ p\<rparr>"
    let ?new = "emit_lines socket_payload Parse now ''IN'' ''socket'' ls"
    have step: "conn_step Parse now ev (c, ch) = (?c, fold try_send ?new ch)"
      using socket_write_full [OF _ s, of Parse now ch] Cons.prems FromClient
      by (simp add: conn_ok_def)
    have "conn_ok ?c" using Cons.prems split_lines_rest [OF s] by (simp add: conn_ok_def)
    from Cons.IH [OF this, of "fold try_send ?new ch"] obtain c' ms where
      "fold (conn_step Parse now) evs (?c, fold try_send ?new ch) = (c', fold try_send (?new @ ms) ch)"
      "cn_toTarget c' = cn_toTarget ?c @ client_bytes evs"
      "cn_toClient c' = cn_toClient ?c @ target_bytes evs"
      "filter (\<lambda>m. Direction m = ''IN'') ms = emit_lines socket_payload Parse now ''IN'' ''socket''
         (fst (split_lines (r @ client_bytes evs)))"
      "filter (\<lambda>m. Direction m = ''OUT'') ms = emit_lines socket_payload Parse now ''OUT'' ''socket''
         (fst (split_lines (ic_buf (cn_targetWriter c) @ target_bytes evs)))"
      by auto
    moreover have "fst (split_lines (ic_buf ?w @ p @ client_bytes evs)) =
        ls @ fst (split_lines (r @ client_bytes evs))"
      using split_lines_append [of "ic_buf ?w @ p" "client_bytes evs"] s
      by (simp split: prod.splits)
    ultimately show ?thesis
      using step FromClient
      by (intro exI [of _ c'] exI [of _ "?new @ ms"]) (simp add: emit_lines_direction)
  next
    case (FromTarget p)
    let ?w = "cn_targetWriter c"
    obtain ls r where s: "split_lines (ic_buf ?w @ p) = (ls, r)" by fastforce
    let ?c = "c\<lparr>cn_targetWriter := ?w\<lparr>ic_buf := r\<rparr>, cn_toClient := cn_toClient c @ p\<rparr>"
    let ?new = "emit_lines socket_payload Parse now ''OUT'' ''socket'' ls"
    have step: "conn_step Parse now ev (c, ch) = (?c, fold try_send ?new ch)"
      using socket_write_full [OF _ s, of Parse now ch] Cons.prems FromTarget
      by (simp add: conn_ok_def)
    have "conn_ok ?c" using Cons.prems split_lines_rest [OF s] by (simp add: conn_ok_def)
    from Cons.IH [OF this, of "fold try_send ?new ch"] obtain c' ms where
      "fold (conn_step Parse now) evs (?c, fold try_send ?new ch) = (c', fold try_send (?new @ ms) ch)"
      "cn_toTarget c' = cn_toTarget ?c @ client_bytes evs"
      "cn_toClient c' = cn_toClient ?c @ target_bytes evs"
      "filter (\<lambda>m. Direction m = ''IN'') ms = emit_lines socket_payload Parse now ''IN'' ''socket''
         (fst (split_lines (ic_buf (cn_clientWriter c) @ client_bytes evs)))"
      "filter (\<lambda>m. Direction m = ''OUT'') ms = emit_lines socket_payload Parse now ''OUT'' ''socket''
         (fst (split_lines (r @ target_bytes evs)))"
      by auto
    moreover have "fst (split_lines (ic_buf ?w @ p @ target_bytes evs)) =
        ls @ fst (split_lines (r @ target_bytes evs))"
      using split_lines_append [of "ic_buf ?w @ p" "target_bytes evs"] s
      by (simp split: prod.splits)
    ultimately show ?thesis
      using step FromTarget
      by (intro exI [of _ c'] exI [of _ "?new @ ms"]) (simp add: emit_lines_direction)
  qed
qed

end


text \<open>
  A last line without a line feed is relayed but never reported: however long it is, the
  interceptor only buffers it, and no message comes of it when the connection ends.
\<close>

theorem unterminated_line_unreported:
  assumes "nl \<notin> set (ic_buf w)" "nl \<notin> set p"
  shows "socket_write parse now p (length p, None) (w, ch) =
    ((length p, None), w\<lparr>ic_buf := ic_buf w @ p\<rparr>, ch)"
  using assms socket_write_full [of w p "[]" "ic_buf w @ p" parse now ch]
  by (simp add: split_lines_NoneI)

lemma unterminated_line_unreported_witness:
  "socket_write ParseJSONRPC 3 ''{}'' (2, None) (new_interceptor ''socket'' ''IN'', make_chan 4) =
     ((2, None), (new_interceptor ''socket'' ''IN'')\<lparr>ic_buf := ''{}''\<rparr>, make_chan 4)"
  using unterminated_line_unreported [of "new_interceptor ''socket'' ''IN''" "''{}''" ParseJSONRPC 3
      "make_chan 4"]
  by (simp add: new_interceptor_def numeral_2_eq_2)

end
