(* ===== verification/Transport_Stream.thy ===== *)
theory Transport_Stream
  imports Framing
begin

text \<open>
  \<open>internal/transport/ebpf_parser.go\<close>: the buffer the eBPF transport keeps per file
  descriptor, and the two extractors that cut JSON values and lines out of it.

  \<open>scan_json\<close> is the byte loop with its four variables (position, depth, inString,
  escape); it returns the position at which the bracket depth comes back to zero.
  \<open>extract_json_loop\<close> is the outer loop, \<open>extractJSON\<close> the method on the buffer. An
  independent bracket automaton (\<open>jstep\<close>) that never rescans serves as the reference.
\<close>

record streamBuffer =
  sb_buf :: bytes

definition sb_write :: "bytes \<Rightarrow> streamBuffer \<Rightarrow> streamBuffer" where
  "sb_write chunk s = s\<lparr>sb_buf := sb_buf s @ chunk\<rparr>"

section \<open>The scanner\<close>

definition is_open :: "char \<Rightarrow> bool" where
  "is_open b \<longleftrightarrow> b = lbrace \<or> b = lbrack"

definition is_close :: "char \<Rightarrow> bool" where
  "is_close b \<longleftrightarrow> b = rbrace \<or> b = rbrack"

primrec scan_json :: "bytes \<Rightarrow> nat \<Rightarrow> int \<Rightarrow> bool \<Rightarrow> bool \<Rightarrow> nat option" where
  "scan_json [] i depth inString escape = None"
| "scan_json (b # data) i depth inString escape =
     (if escape then scan_json data (Suc i) depth inString False
      else if b = bslash then scan_json data (Suc i) depth inString True
      else if b = dquote then scan_json data (Suc i) depth (\<not> inString) False
      else if is_open b then
        scan_json data (Suc i) (if inString then depth else depth + 1) inString False
      else if is_close b then
        (if inString then scan_json data (Suc i) depth inString False
         else if depth - 1 = 0 then Some i
         else scan_json data (Suc i) (depth - 1) inString False)
      else scan_json data (Suc i) depth inString False)"

lemma scan_json_bound: "scan_json data i d s e = Some k \<Longrightarrow> i \<le> k \<and> k < i + length data"
  by (induction data arbitrary: i d s e) (fastforce split: if_splits)+

lemma scan_json_shift:
  "scan_json data (i + n) d s e = map_option (\<lambda>k. k + n) (scan_json data i d s e)"
  by (induction data arbitrary: i d s e) (auto simp flip: add_Suc)

lemma scan_json_append:
  "scan_json data i d s e = Some k \<Longrightarrow> scan_json (data @ t) i d s e = Some k"
  by (induction data arbitrary: i d s e) (auto split: if_splits)

text \<open>Each piece the scanner delimits ends with a closing bracket.\<close>

lemma scan_json_closes: "scan_json s i d q e = Some k \<Longrightarrow> is_close (s ! (k - i))"
proof (induction s arbitrary: i d q e)
  case (Cons b s)
  show ?case
  proof (cases "k = i")
    case True
    with Cons.prems show ?thesis
      by (auto split: if_splits dest: scan_json_bound)
  next
    case False
    with Cons.prems have "\<exists>d' q' e'. scan_json s (Suc i) d' q' e' = Some k"
      by (auto split: if_splits)
    then obtain d' q' e' where rec: "scan_json s (Suc i) d' q' e' = Some k" by blast
    with scan_json_bound [OF this] have "k - i = Suc (k - Suc i)" by arith
    with Cons.IH [OF rec] show ?thesis by simp
  qed
qed simp

lemma scan_json_take:
  "scan_json s i d q e = Some k \<Longrightarrow> scan_json (take (Suc (k - i)) s) i d q e = Some k"
proof (induction s arbitrary: i d q e)
  case (Cons b s)
  show ?case
  proof (cases "k = i")
    case True
    with Cons.prems show ?thesis
      by (auto split: if_splits dest: scan_json_bound)
  next
    case False
    from Cons.prems False have "i < k" using scan_json_bound by fastforce
    then have "Suc (k - i) = Suc (Suc (k - Suc i))" by simp
    with Cons.prems False Cons.IH show ?thesis
      by (auto split: if_splits)
  qed
qed simp

declare scan_json.simps(2) [simp del]

section \<open>\<open>extractJSON\<close>\<close>

function extract_json_loop :: "bytes \<Rightarrow> bytes list \<times> bytes" where
  "extract_json_loop buf =
     (if buf = [] then ([], [])
      else case IndexAny buf [lbrace, lbrack] of
        None \<Rightarrow> ([], [])
      | Some startIdx \<Rightarrow>
          (let data = drop startIdx buf in
           case scan_json data 0 0 False False of
             None \<Rightarrow> ([], data)
           | Some i \<Rightarrow>
               (let (messages, rest) = extract_json_loop (drop (Suc i) data)
                in (take (Suc i) data # messages, rest))))"
  by pat_completeness auto
termination
  by (relation "measure length") (auto dest: IndexAny_less)

declare extract_json_loop.simps [simp del]

definition extractJSON :: "streamBuffer \<Rightarrow> bytes list \<times> streamBuffer" where
  "extractJSON s =
     (let (messages, rest) = extract_json_loop (sb_buf s) in (messages, s\<lparr>sb_buf := rest\<rparr>))"

definition starts :: "char \<Rightarrow> bool" where
  "starts b \<longleftrightarrow> b \<in> set [lbrace, lbrack]"

lemma starts_is_open: "starts b = is_open b"
  by (auto simp: starts_def is_open_def)

text \<open>
  The code first looks for a start byte and then scans; the two cases below are what the
  proofs use: bytes that start nothing are skipped, and a buffer that starts a value is
  decided by the scanner.
\<close>

lemma extract_json_loop_Nil [simp]: "extract_json_loop [] = ([], [])"
  by (simp add: extract_json_loop.simps)

lemma IndexAny_dropWhile:
  "IndexAny s [lbrace, lbrack] =
     (if \<exists>b\<in>set s. starts b then Some (length (takeWhile (\<lambda>b. \<not> starts b) s)) else None)"
  unfolding IndexAny_def starts_def by (rule index_where_takeWhile)

lemma extract_json_skip:
  assumes "\<not> starts b"
  shows "extract_json_loop (b # s) = extract_json_loop s"
proof (cases "\<exists>c\<in>set s. starts c")
  case True
  with assms show ?thesis
    by (subst (1 2) extract_json_loop.simps) (auto simp: IndexAny_dropWhile dropWhile_eq_drop)
next
  case False
  with assms show ?thesis
    by (subst (1 2) extract_json_loop.simps) (auto simp: IndexAny_dropWhile)
qed

lemma extract_json_start:
  assumes "starts b"
  shows "extract_json_loop (b # s) =
     (case scan_json (b # s) 0 0 False False of
        None \<Rightarrow> ([], b # s)
      | Some i \<Rightarrow>
          (let (ms, r) = extract_json_loop (drop (Suc i) (b # s))
           in (take (Suc i) (b # s) # ms, r)))"
  using assms by (subst extract_json_loop.simps) (simp add: IndexAny_dropWhile Let_def)

lemma extract_json_garbage:
  "\<forall>b\<in>set g. \<not> starts b \<Longrightarrow> extract_json_loop (g @ s) = extract_json_loop s"
  by (induction g) (auto simp: extract_json_skip)

text \<open>
  The induction the extractor follows: skip a byte that starts nothing, stop at an
  unfinished value, take a finished one.
\<close>

lemma json_stream_induct [case_names nothing garbage partial found]:
  assumes "P []"
    and "\<And>b s. \<not> starts b \<Longrightarrow> P s \<Longrightarrow> P (b # s)"
    and "\<And>b s. starts b \<Longrightarrow> scan_json (b # s) 0 0 False False = None \<Longrightarrow> P (b # s)"
    and "\<And>b s i. starts b \<Longrightarrow> scan_json (b # s) 0 0 False False = Some i \<Longrightarrow>
           i < length (b # s) \<Longrightarrow> P (drop (Suc i) (b # s)) \<Longrightarrow> P (b # s)"
  shows "P s"
proof (induction s rule: length_induct)
  case (1 s)
  show ?case
  proof (cases s)
    case (Cons b t)
    show ?thesis
    proof (cases "starts b")
      case True
      show ?thesis
      proof (cases "scan_json (b # t) 0 0 False False")
        case (Some i)
        with 1 Cons True show ?thesis
          by (auto intro!: assms(4) [of b t i] dest: scan_json_bound)
      qed (use True Cons assms(3) in blast)
    qed (use 1 Cons assms(2) in auto)
  qed (use assms(1) in simp)
qed

lemma extract_json_append:
  "extract_json_loop (s @ t) =
     (let (ms, r) = extract_json_loop s; (ms', r') = extract_json_loop (r @ t)
      in (ms @ ms', r'))"
proof (induction s rule: json_stream_induct)
  case (found b s i)
  have "scan_json ((b # s) @ t) 0 0 False False = Some i"
    using found.hyps(2) by (rule scan_json_append)
  with found show ?case
    by (auto simp: extract_json_start split: prod.splits)
qed (auto simp: extract_json_skip extract_json_start split: prod.splits)

interpretation json_frames: framer extract_json_loop
  by unfold_locales (simp, rule extract_json_append)

text \<open>What is kept is empty or an unfinished value, and it is the end of the input.\<close>

lemma extract_json_rest:
  "extract_json_loop s = (ms, r) \<Longrightarrow>
     suffix r s \<and> (r = [] \<or> starts (hd r) \<and> scan_json r 0 0 False False = None)"
proof (induction s arbitrary: ms rule: json_stream_induct)
  case (found b s i)
  then show ?case
    by (auto simp: extract_json_start split: prod.splits
        intro: suffix_order.order_trans suffix_drop suffix_ConsI)
qed (auto simp: extract_json_skip extract_json_start suffix_ConsI split: prod.splits)

text \<open>What is returned are disjoint pieces of the input, in order.\<close>

lemma extract_json_pieces:
  "extract_json_loop s = (ms, r) \<Longrightarrow> subseq (concat ms @ r) s"
proof (induction s arbitrary: ms rule: json_stream_induct)
  case (found b s i)
  obtain ms' where rec: "extract_json_loop (drop (Suc i) (b # s)) = (ms', r)"
      and ms: "ms = take (Suc i) (b # s) # ms'"
    using found by (auto simp: extract_json_start split: prod.splits)
  have "subseq (concat ms' @ r) (drop (Suc i) (b # s))"
    using found.IH rec by blast
  then have "subseq (take (Suc i) (b # s) @ concat ms' @ r)
               (take (Suc i) (b # s) @ drop (Suc i) (b # s))"
    by (intro list_emb_append_mono) simp_all
  then show ?case by (simp add: ms)
qed (auto simp: extract_json_skip extract_json_start split: prod.splits)

text \<open>Each piece starts with an opening and ends with a closing bracket.\<close>

lemma extract_json_shape:
  "extract_json_loop s = (ms, r) \<Longrightarrow> m \<in> set ms \<Longrightarrow>
     m \<noteq> [] \<and> is_open (hd m) \<and> is_close (last m) \<and>
     scan_json m 0 0 False False = Some (length m - 1)"
proof (induction s arbitrary: ms rule: json_stream_induct)
  case (found b s i)
  obtain ms' where rec: "extract_json_loop (drop (Suc i) (b # s)) = (ms', r)"
      and ms: "ms = take (Suc i) (b # s) # ms'"
    using found by (auto simp: extract_json_start split: prod.splits)
  show ?case
  proof (cases "m \<in> set ms'")
    case True
    with found.IH rec show ?thesis by blast
  next
    case False
    with found.prems ms have m: "m = take (Suc i) (b # s)" by simp
    have len: "length m = Suc i" using found.hyps(3) m by simp
    have "last m = (b # s) ! i"
      using found.hyps(3) m len by (metis last_conv_nth length_0_conv nat.simps(3)
          diff_Suc_1 lessI nth_take)
    moreover have "is_close ((b # s) ! i)"
      using scan_json_closes [OF found.hyps(2)] by simp
    moreover have "scan_json m 0 0 False False = Some i"
      using scan_json_take [OF found.hyps(2)] m by simp
    ultimately show ?thesis
      using found.hyps(1) m len by (auto simp: starts_is_open)
  qed
qed (auto simp: extract_json_skip extract_json_start split: prod.splits)

section \<open>A reference automaton that never rescans\<close>

text \<open>
  The extractor scans an unfinished value again from its first byte whenever more bytes
  arrive. The automaton below sees each byte once: it is outside a value, or inside one
  with the bytes so far, the bracket depth and the two string flags.
\<close>

datatype jstate = Outside | Inside bytes int bool bool

fun jstep :: "jstate \<Rightarrow> char \<Rightarrow> bytes list \<times> jstate" where
  "jstep Outside b = ([], if is_open b then Inside [b] 1 False False else Outside)"
| "jstep (Inside acc d q e) b =
     (let acc' = acc @ [b] in
      if e then ([], Inside acc' d q False)
      else if b = bslash then ([], Inside acc' d q True)
      else if b = dquote then ([], Inside acc' d (\<not> q) False)
      else if q then ([], Inside acc' d q False)
      else if is_open b then ([], Inside acc' (d + 1) q False)
      else if is_close b then
        (if d = 1 then ([acc'], Outside) else ([], Inside acc' (d - 1) q False))
      else ([], Inside acc' d q False))"

fun jrun :: "jstate \<Rightarrow> bytes \<Rightarrow> bytes list \<times> jstate" where
  "jrun st [] = ([], st)"
| "jrun st (b # bs) =
     (let (ms, st') = jstep st b; (ms', st'') = jrun st' bs in (ms @ ms', st''))"

definition pending_bytes :: "jstate \<Rightarrow> bytes" where
  "pending_bytes st = (case st of Outside \<Rightarrow> [] | Inside acc d q e \<Rightarrow> acc)"

lemma scan_json_Suc:
  "scan_json s (Suc i) d q e = map_option Suc (scan_json s i d q e)"
  using scan_json_shift [of s i 1 d q e] by (simp add: eta_contract_eq)

text \<open>
  One byte inside a value: either the automaton stays inside and the scanner goes on with
  the same variables, or both finish the value.
\<close>

lemma jstep_Inside_cases:
  obtains (stay) d' q' e' where "jstep (Inside acc d q e) b = ([], Inside (acc @ [b]) d' q' e')"
      and "\<And>s i. scan_json (b # s) i d q e = scan_json s (Suc i) d' q' e'"
  | (finish) "jstep (Inside acc d q e) b = ([acc @ [b]], Outside)"
      and "\<And>s i. scan_json (b # s) i d q e = Some i"
proof (cases "\<not> e \<and> b \<noteq> bslash \<and> b \<noteq> dquote \<and> \<not> q \<and> is_close b \<and> d = 1")
  case True
  then have "\<not> is_open b" by (auto simp: is_close_def is_open_def)
  with True show ?thesis by (intro finish) (auto simp: scan_json.simps)
next
  case False
  show ?thesis
    by (rule stay [of "if e \<or> b = bslash \<or> b = dquote \<or> q then d
                       else if is_open b then d + 1
                       else if is_close b then d - 1 else d"
          "if \<not> e \<and> b = dquote then \<not> q else q" "\<not> e \<and> b = bslash"])
      (use False in \<open>auto simp: scan_json.simps Let_def\<close>)
qed

lemma jrun_Inside:
  "(case scan_json s 0 d q e of
      None \<Rightarrow> fst (jrun (Inside acc d q e) s) = [] \<and>
              pending_bytes (snd (jrun (Inside acc d q e) s)) = acc @ s
    | Some k \<Rightarrow> jrun (Inside acc d q e) s =
        (let (ms, st) = jrun Outside (drop (Suc k) s) in ((acc @ take (Suc k) s) # ms, st)))"
proof (induction s arbitrary: acc d q e)
  case Nil
  show ?case by (simp add: pending_bytes_def)
next
  case (Cons b s)
  show ?case
  proof (cases rule: jstep_Inside_cases [of acc d q e b])
    case (stay d' q' e')
    then show ?thesis
      using Cons.IH [where acc = "acc @ [b]" and d = d' and q = q' and e = e']
      by (auto simp: scan_json_Suc simp del: jstep.simps split: option.splits prod.splits)
  next
    case finish
    then show ?thesis by (simp del: jstep.simps split: prod.splits)
  qed
qed

lemma scan_json_start:
  "starts b \<Longrightarrow>
     scan_json (b # s) 0 0 False False = map_option Suc (scan_json s 0 1 False False)"
  by (auto simp: scan_json.simps scan_json_Suc starts_def is_open_def)

lemma jrun_start: "starts b \<Longrightarrow> jrun Outside (b # s) = jrun (Inside [b] 1 False False) s"
  by (simp add: starts_is_open split: prod.splits)

lemma extract_json_jrun:
  "fst (extract_json_loop s) = fst (jrun Outside s) \<and>
   snd (extract_json_loop s) = pending_bytes (snd (jrun Outside s))"
proof (induction s rule: json_stream_induct)
  case nothing
  show ?case by (simp add: pending_bytes_def)
next
  case (garbage b s)
  then show ?case by (simp add: extract_json_skip starts_is_open split: prod.splits)
next
  case (partial b s)
  then show ?case
    using jrun_Inside [where s = s and d = 1 and q = False and e = False and acc = "[b]"]
    by (simp add: extract_json_start scan_json_start jrun_start del: jrun.simps)
next
  case (found b s i)
  then obtain k where "scan_json s 0 1 False False = Some k" and "i = Suc k"
    by (auto simp: scan_json_start)
  with found show ?case
    using jrun_Inside [where s = s and d = 1 and q = False and e = False and acc = "[b]"]
    by (auto simp: extract_json_start jrun_start simp del: jrun.simps split: prod.splits)
qed

section \<open>\<open>extractLines\<close>\<close>

definition strip_cr :: "bytes \<Rightarrow> bytes" where
  "strip_cr line = (if line \<noteq> [] \<and> last line = cr then butlast line else line)"

function extract_lines_loop :: "bytes \<Rightarrow> bytes list \<times> bytes" where
  "extract_lines_loop buf =
     (if buf = [] then ([], [])
      else case IndexByte buf nl of
        None \<Rightarrow> ([], buf)
      | Some idx \<Rightarrow>
          (let line = take idx buf;
               line = (if 0 < length line \<and> line ! (length line - 1) = cr
                       then take (length line - 1) line else line);
               (lines, rest) = extract_lines_loop (drop (idx + 1) buf)
           in (line # lines, rest)))"
  by pat_completeness auto
termination
  by (relation "measure length") (auto dest: IndexByte_less)

declare extract_lines_loop.simps [simp del]

definition extractLines :: "streamBuffer \<Rightarrow> bytes list \<times> streamBuffer" where
  "extractLines s =
     (let (lines, rest) = extract_lines_loop (sb_buf s) in (lines, s\<lparr>sb_buf := rest\<rparr>))"

lemma extract_lines_split:
  "extract_lines_loop s = (let (ls, r) = split_lines s in (map strip_cr ls, r))"
proof (induction s rule: length_induct)
  case (1 s)
  show ?case
  proof (cases "IndexByte s nl")
    case None
    then have "extract_lines_loop s = ([], s)"
      by (subst extract_lines_loop.simps) simp
    with None show ?thesis by (simp add: IndexByte_None split_lines_NoneI)
  next
    case (Some i)
    then have i: "i < length s" by (rule IndexByte_less)
    then have "length (drop (Suc i) s) < length s" by auto
    with 1 have IH: "extract_lines_loop (drop (Suc i) s) =
        (let (ls, r) = split_lines (drop (Suc i) s) in (map strip_cr ls, r))" by blast
    have strip: "(let line = take i s in
          if 0 < length line \<and> line ! (length line - 1) = cr
          then take (length line - 1) line else line) = strip_cr (take i s)"
      using i by (auto simp: Let_def strip_cr_def last_conv_nth butlast_conv_take)
    from i have "extract_lines_loop s =
        (let (lines, rest) = extract_lines_loop (drop (Suc i) s)
         in (strip_cr (take i s) # lines, rest))"
      by (subst extract_lines_loop.simps)
        (simp add: Some strip [symmetric] Let_def list_nonempty_if_less)
    moreover have "split_lines s = (let (ls, r) = split_lines (drop (Suc i) s)
         in (take i s # ls, r))"
      by (subst split_lines.simps) (simp add: Some)
    ultimately show ?thesis by (simp add: IH split: prod.splits)
  qed
qed

lemma extract_lines_append:
  "extract_lines_loop (s @ t) =
     (let (ls, r) = extract_lines_loop s; (ls', r') = extract_lines_loop (r @ t)
      in (ls @ ls', r'))"
  using split_lines_append [of s t] by (simp add: extract_lines_split split: prod.splits)

interpretation line_frames: framer extract_lines_loop
  by unfold_locales (simp add: extract_lines_split, rule extract_lines_append)

section \<open>The buffer across reads, and its properties\<close>

text \<open>
  The receive loop of the transport writes each chunk to the buffer and extracts.
\<close>

fun stream_feed ::
  "(streamBuffer \<Rightarrow> bytes list \<times> streamBuffer) \<Rightarrow> streamBuffer \<Rightarrow> bytes list
     \<Rightarrow> bytes list \<times> streamBuffer" where
  "stream_feed extr s [] = ([], s)"
| "stream_feed extr s (c # cs) =
     (let (ms, s') = extr (sb_write c s); (ms', s'') = stream_feed extr s' cs
      in (ms @ ms', s''))"

lemma stream_feed_feed:
  assumes "\<And>s. extr s = (let (ms, r) = loop (sb_buf s) in (ms, s\<lparr>sb_buf := r\<rparr>))"
  shows "stream_feed extr s cs =
           (let (ms, r) = feed loop (sb_buf s) cs in (ms, s\<lparr>sb_buf := r\<rparr>))"
  by (induction cs arbitrary: s) (auto simp: assms sb_write_def split: prod.splits)

text \<open>
  C15. However the bytes of a stream are split into perf events, feeding them to the
  buffer one chunk at a time returns the same JSON texts, and leaves the same bytes
  buffered, as writing the whole stream at once and extracting once.
\<close>

theorem extractJSON_chunking:
  "stream_feed extractJSON \<lparr>sb_buf = []\<rparr> chunks = extractJSON \<lparr>sb_buf = concat chunks\<rparr>"
  by (simp add: stream_feed_feed [OF extractJSON_def] json_frames.feed_concat extractJSON_def
      split: prod.splits)

text \<open>
  The rescanning extractor returns exactly the texts that the single-pass bracket
  automaton emits, and keeps exactly the bytes of the value the automaton is inside of.
\<close>

theorem extractJSON_automaton:
  "extractJSON s =
     (let (ms, st) = jrun Outside (sb_buf s) in (ms, s\<lparr>sb_buf := pending_bytes st\<rparr>))"
  using extract_json_jrun [of "sb_buf s"] by (auto simp: extractJSON_def split: prod.splits)

text \<open>
  Every text \<open>extractJSON\<close> returns is non-empty, starts with an opening and ends with a
  closing bracket that is the first to bring the depth back to zero; the texts and the
  bytes kept are disjoint pieces of the input in their order; and what is kept is the end
  of the input and is empty or starts a value that is not finished.
\<close>

theorem extractJSON_sound:
  assumes "extractJSON s = (ms, s')"
  shows "(\<forall>m\<in>set ms. m \<noteq> [] \<and> is_open (hd m) \<and> is_close (last m) \<and>
             scan_json m 0 0 False False = Some (length m - 1)) \<and>
         subseq (concat ms @ sb_buf s') (sb_buf s) \<and> suffix (sb_buf s') (sb_buf s) \<and>
         (sb_buf s' = [] \<or> is_open (hd (sb_buf s')) \<and>
            scan_json (sb_buf s') 0 0 False False = None)"
proof -
  from assms have loop: "extract_json_loop (sb_buf s) = (ms, sb_buf s')"
    by (auto simp: extractJSON_def split: prod.splits)
  from extract_json_shape [OF loop] extract_json_pieces [OF loop] extract_json_rest [OF loop]
  show ?thesis by (auto simp: starts_is_open)
qed

theorem extractJSON_sound_witness:
  "is_open (hd ''{a}'') \<and> suffix ''[b'' ''x{a} y[b''"
proof -
  have "extractJSON \<lparr>sb_buf = ''x{a} y[b''\<rparr> = ([''{a}''], \<lparr>sb_buf = ''[b''\<rparr>)" by code_simp
  from extractJSON_sound [OF this] show ?thesis by simp
qed

text \<open>
  \<open>extractLines\<close> returns the lines of the stream, each without its line feed and without
  one carriage return before it, and keeps the bytes after the last line feed, however the
  stream was split into chunks.
\<close>

theorem extractLines_chunking:
  "stream_feed extractLines \<lparr>sb_buf = []\<rparr> chunks =
     (let (ls, r) = split_lines (concat chunks) in (map strip_cr ls, \<lparr>sb_buf = r\<rparr>))"
  unfolding stream_feed_feed [OF extractLines_def] line_frames.feed_concat streamBuffer.simps
  by (simp add: extract_lines_split split: prod.splits)

text \<open>
  Lines written with either line ending come back: a stream of lines that hold no line
  feed and do not end in a carriage return, each followed by CRLF or LF, is cut into
  exactly those lines and nothing stays buffered.
\<close>

theorem extractLines_roundtrip:
  assumes "\<forall>(l, crlf)\<in>set ls. nl \<notin> set l \<and> (l = [] \<or> last l \<noteq> cr)"
  shows "extractLines \<lparr>sb_buf = concat (map (\<lambda>(l, crlf). l @ (if crlf then [cr, nl] else [nl])) ls)\<rparr>
           = (map fst ls, \<lparr>sb_buf = []\<rparr>)"
proof -
  let ?raw = "map (\<lambda>(l, crlf). if crlf then l @ [cr] else l) ls"
  have stream: "concat (map (\<lambda>(l, crlf). l @ (if crlf then [cr, nl] else [nl])) ls) =
      concat (map (\<lambda>l. l @ [nl]) ?raw) @ []"
    by (induction ls) auto
  have "split_lines (concat (map (\<lambda>l. l @ [nl]) ?raw) @ []) = (?raw, [])"
    by (rule split_lines_concat) (use assms in \<open>auto split: if_splits\<close>)
  moreover have "map strip_cr ?raw = map fst ls"
    using assms by (induction ls) (auto simp: strip_cr_def split: if_splits)
  ultimately show ?thesis
    by (simp only: extractLines_def extract_lines_split stream) simp
qed

theorem extractLines_roundtrip_witness:
  "extractLines \<lparr>sb_buf = ''ab'' @ [cr, nl] @ ''c'' @ [nl]\<rparr> = ([''ab'', ''c''], \<lparr>sb_buf = []\<rparr>)"
  using extractLines_roundtrip [of "[(''ab'', True), (''c'', False)]"] by simp

end
