(* ===== verification/Transport_Stdio.thy ===== *)
theory Transport_Stdio
  imports Transport_Stream Transport_Tap
begin

text \<open>
  \<open>internal/transport/stdio.go\<close>: the wrapper around a child process. Each of the three
  streams runs through an \<open>io.TeeReader\<close> (what is read is written on) and a
  \<open>bufio.Scanner\<close> with a buffer of 1 MB. A stream is the bytes it carries until it ends.

  \<open>scan_stream\<close> is the scanner over the tee: its tokens, the bytes that were read and so
  forwarded, and whether it ended early with \<open>bufio.ErrTooLong\<close>, which happens when the
  buffer is full and holds no line feed.
\<close>

definition max_token :: nat where
  "max_token = 1024 * 1024"

record scan_result =
  sc_tokens :: "bytes list"
  sc_forwarded :: bytes
  sc_tooLong :: bool

function scan_stream :: "bytes \<Rightarrow> scan_result" where
  "scan_stream s =
     (case IndexByte (take max_token s) nl of
        Some i \<Rightarrow>
          (let r = scan_stream (drop (Suc i) s)
           in r\<lparr>sc_tokens := strip_cr (take i s) # sc_tokens r,
               sc_forwarded := take (Suc i) s @ sc_forwarded r\<rparr>)
      | None \<Rightarrow>
          if max_token \<le> length s
          then \<lparr>sc_tokens = [], sc_forwarded = take max_token s, sc_tooLong = True\<rparr>
          else \<lparr>sc_tokens = (if s = [] then [] else [strip_cr s]), sc_forwarded = s,
                sc_tooLong = False\<rparr>)"
  by pat_completeness auto
termination
proof (relation "measure length")
  fix s i
  assume "IndexByte (take max_token s) nl = Some i"
  then have "i < length s" by (auto dest: IndexByte_less)
  then show "(drop (Suc i) s, s) \<in> measure length" by auto
qed simp

declare scan_stream.simps [simp del]

section \<open>The three pumps\<close>

text \<open>Standard input and output: every token goes to the parser.\<close>

definition stdio_line :: "parser \<Rightarrow> time \<Rightarrow> bytes \<Rightarrow> bytes \<Rightarrow> mchan \<Rightarrow> mchan" where
  "stdio_line parse now direction line messages = send_parsed parse now line direction ''stdio'' messages"

record pump_result =
  pm_forwarded :: bytes
  pm_closed :: bool
  pm_channel :: mchan

text \<open>The input pump closes the child's standard input when the scanner stops.\<close>

definition stdin_pump :: "parser \<Rightarrow> time \<Rightarrow> bytes \<Rightarrow> mchan \<Rightarrow> pump_result" where
  "stdin_pump parse now s messages =
     (let r = scan_stream s
      in \<lparr>pm_forwarded = sc_forwarded r, pm_closed = True,
          pm_channel = fold (stdio_line parse now ''IN'') (sc_tokens r) messages\<rparr>)"

definition stdout_pump :: "parser \<Rightarrow> time \<Rightarrow> bytes \<Rightarrow> mchan \<Rightarrow> pump_result" where
  "stdout_pump parse now s messages =
     (let r = scan_stream s
      in \<lparr>pm_forwarded = sc_forwarded r, pm_closed = False,
          pm_channel = fold (stdio_line parse now ''OUT'') (sc_tokens r) messages\<rparr>)"

text \<open>Standard error: every line is a message of its own.\<close>

definition stderr_message :: "time \<Rightarrow> bytes \<Rightarrow> bytes \<Rightarrow> message" where
  "stderr_message now transport line =
     zero_message\<lparr>Timestamp := now, Transport := transport, Direction := ''ERR'',
       MsgType := MsgTypeStderr, Raw := line, SizeBytes := int (length line),
       TokenEstimate := go_quot (int (length line)) 4\<rparr>"

definition stderr_pump :: "time \<Rightarrow> bytes \<Rightarrow> mchan \<Rightarrow> pump_result" where
  "stderr_pump now s messages =
     (let r = scan_stream s
      in \<lparr>pm_forwarded = sc_forwarded r, pm_closed = False,
          pm_channel = fold (\<lambda>line. try_send (stderr_message now ''stdio'' line)) (sc_tokens r) messages\<rparr>)"

text \<open>\<open>Start\<close> up to the pumps: the command line it runs, or its error.\<close>

definition stdio_command :: "bool \<Rightarrow> bytes \<Rightarrow> bytes + bytes list" where
  "stdio_command windows command =
     (if command = [] then Inl ''empty command''
      else if windows then Inr [''cmd'', ''/C'', command]
      else Inr [''sh'', ''-c'', command])"

section \<open>The scanner against the lines of the stream\<close>

lemma scan_stream_rest:
  "nl \<notin> set s \<Longrightarrow> scan_stream s =
     (if max_token \<le> length s
      then \<lparr>sc_tokens = [], sc_forwarded = take max_token s, sc_tooLong = True\<rparr>
      else \<lparr>sc_tokens = map strip_cr (all_lines s), sc_forwarded = s, sc_tooLong = False\<rparr>)"
proof -
  assume "nl \<notin> set s"
  then have "IndexByte (take max_token s) nl = None" by (auto simp: IndexByte_None dest: in_set_takeD)
  with \<open>nl \<notin> set s\<close> show ?thesis by (subst scan_stream.simps) (simp add: all_lines_NoneI)
qed

lemma scan_stream_line:
  assumes "nl \<notin> set l" "length l < max_token"
  shows "scan_stream (l @ nl # s) =
    (let r = scan_stream s in r\<lparr>sc_tokens := strip_cr l # sc_tokens r,
                               sc_forwarded := l @ nl # sc_forwarded r\<rparr>)"
proof -
  obtain k where "max_token - length l = Suc k" using assms(2) by (cases "max_token - length l") auto
  then have "take max_token (l @ nl # s) = l @ nl # take k s" using assms(2) by simp
  then have "IndexByte (take max_token (l @ nl # s)) nl = Some (length l)"
    using assms(1) by (simp add: IndexByte_line)
  then show ?thesis by (subst scan_stream.simps) simp
qed

lemma scan_stream_too_long:
  assumes "nl \<notin> set l" "max_token \<le> length l"
  shows "scan_stream (l @ s) = \<lparr>sc_tokens = [], sc_forwarded = take max_token l, sc_tooLong = True\<rparr>"
proof -
  have "IndexByte (take max_token (l @ s)) nl = None"
    using assms by (auto simp: IndexByte_None dest: in_set_takeD)
  then show ?thesis using assms by (subst scan_stream.simps) simp
qed

lemma scan_stream_short:
  "\<forall>l\<in>set (all_lines s). length l < max_token \<Longrightarrow>
     scan_stream s = \<lparr>sc_tokens = map strip_cr (all_lines s), sc_forwarded = s, sc_tooLong = False\<rparr>"
proof (induction s rule: line_induct)
  case (rest s)
  then show ?case by (auto simp: scan_stream_rest all_lines_NoneI max_token_def split: if_splits)
next
  case (line l s)
  then show ?case by (simp add: all_lines_line scan_stream_line)
qed

lemma fold_stdio_line:
  "fold (stdio_line p t d) ls ch = fold try_send (emit_lines Some p t d ''stdio'' ls) ch"
  by (rule fold_handler) (simp add: stdio_line_def send_parsed_def emit_line_def split: option.splits)

text \<open>
  The wrapper is transparent as long as no line has 1 MB: all of the standard input is
  forwarded to the child before the pipe is closed, all of its output is passed on, and the
  messages offered to the channel are what the parser makes of the lines of the stream, in
  order, the last one with or without its line feed, each without a carriage return at its end.
\<close>

theorem stdio_transparent:
  assumes "\<forall>l\<in>set (all_lines s). length l < max_token"
  shows "stdin_pump parse now s ch =
    \<lparr>pm_forwarded = s, pm_closed = True,
     pm_channel = fold try_send
       (emit_lines Some parse now ''IN'' ''stdio'' (map strip_cr (all_lines s))) ch\<rparr> \<and>
    stdout_pump parse now s ch =
    \<lparr>pm_forwarded = s, pm_closed = False,
     pm_channel = fold try_send
       (emit_lines Some parse now ''OUT'' ''stdio'' (map strip_cr (all_lines s))) ch\<rparr>"
proof -
  have "scan_stream s = \<lparr>sc_tokens = map strip_cr (all_lines s), sc_forwarded = s, sc_tooLong = False\<rparr>"
    using assms by (rule scan_stream_short)
  then show ?thesis by (simp add: stdin_pump_def stdout_pump_def fold_stdio_line)
qed

lemma stdio_transparent_witness:
  "pm_forwarded (stdin_pump ParseJSONRPC 1 (''{a}'' @ [cr, nl] @ ''{b}'') (make_chan 5)) =
     ''{a}'' @ [cr, nl] @ ''{b}''"
proof -
  have "all_lines (''{a}'' @ [cr, nl] @ ''{b}'') = [''{a}'' @ [cr], ''{b}'']" by code_simp
  then show ?thesis
    using stdio_transparent [of "''{a}'' @ [cr, nl] @ ''{b}''" ParseJSONRPC 1 "make_chan 5"]
    by (simp add: max_token_def)
qed

text \<open>
  A line of 1 MB or more ends the pump: exactly its first 1 MB is forwarded, nothing of
  the line is reported, and everything after it is neither forwarded nor reported, while the
  child's standard input is closed.
\<close>

theorem stdin_stops_at_long_line:
  assumes "\<forall>l\<in>set before. nl \<notin> set l \<and> length l < max_token"
    and "nl \<notin> set long" "max_token \<le> length long"
  shows "stdin_pump parse now (concat (map (\<lambda>l. l @ [nl]) before) @ long @ after) ch =
    \<lparr>pm_forwarded = concat (map (\<lambda>l. l @ [nl]) before) @ take max_token long, pm_closed = True,
     pm_channel = fold try_send
       (emit_lines Some parse now ''IN'' ''stdio'' (map strip_cr before)) ch\<rparr>"
proof -
  have "scan_stream (concat (map (\<lambda>l. l @ [nl]) before) @ long @ after) =
      \<lparr>sc_tokens = map strip_cr before,
       sc_forwarded = concat (map (\<lambda>l. l @ [nl]) before) @ take max_token long, sc_tooLong = True\<rparr>"
    using assms(1)
    by (induction before) (simp_all add: scan_stream_too_long [OF assms(2,3)] scan_stream_line)
  then show ?thesis by (simp add: stdin_pump_def fold_stdio_line)
qed

lemma stdin_stops_at_long_line_witness:
  "pm_forwarded (stdin_pump ParseJSONRPC 1
     (''{a}'' @ [nl] @ replicate (max_token + 5) CHR ''x'' @ [nl] @ ''{b}'') (make_chan 5)) =
   ''{a}'' @ [nl] @ replicate max_token CHR ''x''"
  using stdin_stops_at_long_line [of "[''{a}'']" "replicate (max_token + 5) CHR ''x''" ParseJSONRPC 1
      "[nl] @ ''{b}''" "make_chan 5"]
  by (simp add: max_token_def)

text \<open>
  With lines below 1 MB and room in the channel, the error stream is passed on unchanged
  and gives one message per line, the empty ones included, of type \<open>stderr\<close> and
  direction \<open>ERR\<close>, with its length and a quarter of it as the size and the token estimate.
\<close>

theorem stderr_reports_every_line:
  assumes "\<forall>l\<in>set (all_lines s). length l < max_token"
    and "length (chan_items ch) + length (all_lines s) \<le> chan_cap ch"
  shows "pm_forwarded (stderr_pump now s ch) = s \<and> \<not> pm_closed (stderr_pump now s ch) \<and>
    chan_items (pm_channel (stderr_pump now s ch)) =
      chan_items ch @ map (stderr_message now ''stdio'') (map strip_cr (all_lines s))"
proof -
  have "scan_stream s = \<lparr>sc_tokens = map strip_cr (all_lines s), sc_forwarded = s, sc_tooLong = False\<rparr>"
    using assms(1) by (rule scan_stream_short)
  moreover have "fold (\<lambda>l. try_send (f l)) ls c = fold try_send (map f ls) c"
    for f :: "bytes \<Rightarrow> message" and ls c
    by (induction ls arbitrary: c) simp_all
  ultimately show ?thesis
    using fold_try_send_room [of ch "map (stderr_message now ''stdio'') (map strip_cr (all_lines s))"]
      assms(2) by (simp add: stderr_pump_def)
qed

lemma stderr_reports_every_line_witness:
  "map Raw (chan_items (pm_channel (stderr_pump 9 (''warn'' @ [nl, nl] ) (make_chan 5)))) = [''warn'', []]"
proof -
  have "all_lines (''warn'' @ [nl, nl]) = [''warn'', []]" by code_simp
  then show ?thesis
    using stderr_reports_every_line [of "''warn'' @ [nl, nl]" "make_chan 5" 9]
    by (simp add: max_token_def make_chan_def stderr_message_def strip_cr_def)
qed

end
