(* ===== verification/Transport_EBPF.thy ===== *)
theory Transport_EBPF
  imports Transport_Stdio "HOL-Library.Word"
begin

text \<open>
  The eBPF transport: the kernel programs of \<open>internal/transport/bpf/tracer.c\<close> that copy the
  target's reads and writes into perf events, and the receive loop of
  \<open>internal/transport/ebpf_linux.go\<close> that puts the copies back together per file descriptor.

  The kernel keeps the words of the C program at their widths. What the loop does with a
  sample, the out-of-range slice that would panic included, is a value of \<open>loop_result\<close>.
\<close>

unbundle bit_operations_syntax

section \<open>The kernel side\<close>

record data_event =
  ev_fd :: "32 word"
  ev_size :: "32 word"
  ev_payload :: bytes

text \<open>
  The maps of the program: the traced pid, the per-CPU event, and the buffer address per
  thread between entry and exit of \<open>read\<close>. \<open>user\<close> is the target's memory: the bytes at an
  address, as many as asked for. The event is reused, so the payload behind the copied
  prefix is what earlier events left there.
\<close>

type_synonym user_memory = "64 word \<Rightarrow> nat \<Rightarrow> bytes"

record tracer_state =
  config_pid :: "32 word"
  event_buf :: data_event
  read_args :: "64 word \<Rightarrow> 64 word option"

definition fill_event ::
  "32 word \<Rightarrow> 64 word \<Rightarrow> 64 word \<Rightarrow> user_memory \<Rightarrow> data_event \<Rightarrow> data_event" where
  "fill_event fd count buf user e =
     (let len = count AND 4095;
          n = unat len
      in e\<lparr>ev_fd := fd, ev_size := ucast len,
           ev_payload := user buf n @ drop n (ev_payload e)\<rparr>)"

definition pid_of :: "64 word \<Rightarrow> 32 word" where
  "pid_of pid_tgid = ucast (drop_bit 32 pid_tgid)"

definition trace_write ::
  "64 word \<Rightarrow> 64 word \<Rightarrow> 64 word \<Rightarrow> 64 word \<Rightarrow> user_memory \<Rightarrow> tracer_state
     \<Rightarrow> data_event option \<times> tracer_state" where
  "trace_write pid_tgid fd buf count user st =
     (if pid_of pid_tgid \<noteq> config_pid st then (None, st)
      else if fd \<noteq> 1 \<and> fd \<noteq> 2 then (None, st)
      else (let e = fill_event (ucast fd) count buf user (event_buf st)
            in (Some e, st\<lparr>event_buf := e\<rparr>)))"

definition trace_read_enter ::
  "64 word \<Rightarrow> 64 word \<Rightarrow> 64 word \<Rightarrow> tracer_state \<Rightarrow> tracer_state" where
  "trace_read_enter pid_tgid fd buf st =
     (if pid_of pid_tgid \<noteq> config_pid st then st
      else if fd \<noteq> 0 then st
      else st\<lparr>read_args := (read_args st)(pid_tgid := Some buf)\<rparr>)"

definition trace_read_exit ::
  "64 word \<Rightarrow> 64 word \<Rightarrow> user_memory \<Rightarrow> tracer_state \<Rightarrow> data_event option \<times> tracer_state" where
  "trace_read_exit pid_tgid ret user st =
     (case read_args st pid_tgid of
        None \<Rightarrow> (None, st)
      | Some buf \<Rightarrow>
          (let st = st\<lparr>read_args := (read_args st)(pid_tgid := None)\<rparr>
           in if sint ret \<le> 0 then (None, st)
              else (let e = fill_event 0 ret buf user (event_buf st)
                    in (Some e, st\<lparr>event_buf := e\<rparr>))))"

section \<open>The receive loop\<close>

datatype perf_read = PerfClosed | PerfError | PerfLost | PerfSample bytes

record ebpf_streams =
  es_in :: streamBuffer
  es_out :: streamBuffer
  es_err :: streamBuffer

definition new_streams :: ebpf_streams where
  "new_streams = \<lparr>es_in = \<lparr>sb_buf = []\<rparr>, es_out = \<lparr>sb_buf = []\<rparr>, es_err = \<lparr>sb_buf = []\<rparr>\<rparr>"

datatype loop_result = Continue "ebpf_streams \<times> mchan" | Returns mchan | Panics mchan

text \<open>\<open>binary.Read\<close> of the little-endian struct: \<open>None\<close> when the sample is too short.\<close>

definition le32 :: "bytes \<Rightarrow> int" where
  "le32 bs = foldr (\<lambda>b n. of_char b + 256 * n) bs 0"

definition decode_event :: "bytes \<Rightarrow> (int \<times> int \<times> bytes) option" where
  "decode_event raw =
     (if length raw < 4104 then None
      else Some (le32 (take 4 raw), le32 (take 4 (drop 4 raw)), take 4096 (drop 8 raw)))"

definition encode_event :: "data_event \<Rightarrow> bytes" where
  "encode_event e =
     (let w = (\<lambda>x :: 32 word. map (\<lambda>i. char_of (uint x div 256 ^ i)) [0, 1, 2, 3])
      in w (ev_fd e) @ w (ev_size e) @ ev_payload e)"

definition send_all ::
  "parser \<Rightarrow> time \<Rightarrow> bytes \<Rightarrow> bytes list \<Rightarrow> mchan \<Rightarrow> mchan" where
  "send_all parse now direction texts messages =
     fold (\<lambda>jsonStr. send_parsed parse now jsonStr direction ''ebpf'') texts messages"

definition handle_chunk ::
  "parser \<Rightarrow> time \<Rightarrow> int \<Rightarrow> bytes \<Rightarrow> ebpf_streams \<times> mchan \<Rightarrow> ebpf_streams \<times> mchan" where
  "handle_chunk parse now fd chunk st =
     (case st of (s, messages) \<Rightarrow>
        if fd = 0 then
          (let (texts, b) = extractJSON (sb_write chunk (es_in s))
           in (s\<lparr>es_in := b\<rparr>, send_all parse now ''IN'' texts messages))
        else if fd = 1 then
          (let (texts, b) = extractJSON (sb_write chunk (es_out s))
           in (s\<lparr>es_out := b\<rparr>, send_all parse now ''OUT'' texts messages))
        else if fd = 2 then
          (let (lines, b) = extractLines (sb_write chunk (es_err s))
           in (s\<lparr>es_err := b\<rparr>,
               fold (\<lambda>line. try_send (stderr_message now ''ebpf'' line)) lines messages))
        else (s, messages))"

definition ebpf_iteration ::
  "parser \<Rightarrow> time \<Rightarrow> perf_read \<Rightarrow> ebpf_streams \<times> mchan \<Rightarrow> loop_result" where
  "ebpf_iteration parse now rd st =
     (case rd of
        PerfClosed \<Rightarrow> Returns (snd st)
      | PerfError \<Rightarrow> Continue st
      | PerfLost \<Rightarrow> Continue st
      | PerfSample raw \<Rightarrow>
          (case decode_event raw of
             None \<Rightarrow> Continue st
           | Some (fd, sz, payload) \<Rightarrow>
               if 4096 < sz then Panics (snd st)
               else Continue (handle_chunk parse now fd (take (nat sz) payload) st)))"

text \<open>Each read comes with the clock at that time.\<close>

fun ebpf_loop :: "parser \<Rightarrow> (time \<times> perf_read) list \<Rightarrow> ebpf_streams \<times> mchan \<Rightarrow> loop_result" where
  "ebpf_loop parse [] st = Continue st"
| "ebpf_loop parse ((now, rd) # rds) st =
     (case ebpf_iteration parse now rd st of
        Continue st' \<Rightarrow> ebpf_loop parse rds st'
      | r \<Rightarrow> r)"

section \<open>From the kernel to the loop\<close>

lemma and_4095: "unat (count AND 4095 :: 64 word) = unat count mod 4096"
proof -
  have "(4095 :: 64 word) = mask 12" by (simp add: mask_eq_exp_minus_1)
  then have "count AND 4095 = take_bit 12 count" by (simp add: take_bit_eq_mask)
  then show ?thesis by (simp add: take_bit_eq_mod unat_mod)
qed

lemma fill_event_fields:
  "ev_fd (fill_event fd count buf user e) = fd"
  "uint (ev_size (fill_event fd count buf user e)) = int (unat count mod 4096)"
  "ev_payload (fill_event fd count buf user e) =
     user buf (unat count mod 4096) @ drop (unat count mod 4096) (ev_payload e)"
proof -
  show "uint (ev_size (fill_event fd count buf user e)) = int (unat count mod 4096)"
  proof -
    have "unat (ucast (count AND 4095) :: 32 word) = unat (count AND 4095) mod 2 ^ 32"
      by (simp add: unsigned_ucast_eq take_bit_eq_mod)
    also have "\<dots> = unat count mod 4096"
      by (simp add: and_4095 less_trans [OF mod_less_divisor])
    finally have "unat (ev_size (fill_event fd count buf user e)) = unat count mod 4096"
      by (simp add: fill_event_def Let_def)
    then show ?thesis by (metis int_nat_eq nat_uint_eq uint_nonnegative)
  qed
qed (simp_all add: fill_event_def Let_def and_4095)

text \<open>The event on the wire: what \<open>binary.Read\<close> decodes is what the kernel wrote.\<close>

lemma le32_bytes: "uint (w :: 32 word) = le32 (map (\<lambda>i. char_of (uint w div 256 ^ i)) [0, 1, 2, 3])"
proof -
  define n where "n = uint w"
  have n: "0 \<le> n" "n < 4294967296" using uint_lt2p [of w] by (simp_all add: n_def)
  have 1: "n div 256 ^ 1 = n div 256" "n div 256 ^ 2 = n div 256 div 256"
    "n div 256 ^ 3 = n div 256 div 256 div 256"
    by (simp_all add: zdiv_zmult2_eq [symmetric])
  have 2: "n div 65536 = n div 256 div 256" "n div 16777216 = n div 256 div 256 div 256"
    by (simp_all add: zdiv_zmult2_eq [symmetric])
  have "n div 256 div 256 div 256 mod 256 = n div 256 div 256 div 256"
    using n by (simp add: zdiv_zmult2_eq [symmetric])
  then have "n = n mod 256 + 256 * (n div 256 mod 256 +
      256 * (n div 256 div 256 mod 256 + 256 * (n div 256 div 256 div 256 mod 256)))"
    by (metis mod_mult_div_eq)
  then show ?thesis
    by (simp add: le32_def of_char_of take_bit_eq_mod 1 2 flip: n_def)
qed

lemma decode_encode:
  "length (ev_payload e) = 4096 \<Longrightarrow>
     decode_event (encode_event e) = Some (uint (ev_fd e), uint (ev_size e), ev_payload e)"
  using le32_bytes [of "ev_fd e"] le32_bytes [of "ev_size e"]
  by (simp add: decode_event_def encode_event_def Let_def)

text \<open>Memory answers with as many bytes as were asked for.\<close>

definition memory_ok :: "user_memory \<Rightarrow> bool" where
  "memory_ok user \<longleftrightarrow> (\<forall>a n. length (user a n) = n)"

lemma fill_event_length:
  "memory_ok user \<Longrightarrow> length (ev_payload e) = 4096 \<Longrightarrow>
     length (ev_payload (fill_event fd count buf user e)) = 4096"
  using mod_less_divisor [of 4096 "unat count"]
  by (simp add: fill_event_fields memory_ok_def)

text \<open>What the loop makes of an event the kernel filled in.\<close>

lemma iteration_of_fill:
  assumes "memory_ok user" "length (ev_payload e) = 4096"
  shows "ebpf_iteration parse now (PerfSample (encode_event (fill_event fd count buf user e))) st =
    Continue (handle_chunk parse now (uint fd) (user buf (unat count mod 4096)) st)"
proof -
  have "unat count mod 4096 < 4096" by simp
  then show ?thesis
    using decode_encode [OF fill_event_length [OF assms, of fd count buf]] assms(1)
    by (simp add: ebpf_iteration_def fill_event_fields memory_ok_def)
qed

text \<open>
  C40. A write of the traced process to standard output or error reaches the receive loop as
  the first \<open>count mod 4096\<close> bytes that were written: the slice the loop takes is always in
  range, and what was written arrives in full exactly when it has fewer than 4096 bytes.
\<close>

theorem write_arrives_mod_4096:
  assumes "pid_of pid_tgid = config_pid st" "fd = 1 \<or> fd = 2" "memory_ok user"
    and "length (ev_payload (event_buf st)) = 4096"
  shows "\<exists>e st'. trace_write pid_tgid fd buf count user st = (Some e, st') \<and>
    ebpf_iteration parse now (PerfSample (encode_event e)) s =
      Continue (handle_chunk parse now (uint fd) (user buf (unat count mod 4096)) s) \<and>
    length (ev_payload (event_buf st')) = 4096 \<and>
    (unat count mod 4096 = unat count \<longleftrightarrow> unat count < 4096)"
proof -
  have "uint (ucast fd :: 32 word) = uint fd" using assms(2) by auto
  moreover have "unat count mod 4096 = unat count \<longleftrightarrow> unat count < 4096"
    by (metis mod_less mod_less_divisor zero_less_numeral)
  ultimately show ?thesis
    using assms iteration_of_fill [OF assms(3,4), of parse now "ucast fd" count buf s]
      fill_event_length [OF assms(3,4)]
    by (auto simp: trace_write_def Let_def)
qed

text \<open>
  The loop ignores every other process and every other descriptor: the kernel program
  emits nothing for them, keeps its state, and a read is reported once, by the exit of the
  call whose entry was recorded, with the bytes read modulo 4096 and none for a read that
  failed or met the end of the file.
\<close>

theorem tracer_filters:
  "(pid_of pid_tgid \<noteq> config_pid st \<or> fd \<notin> {1, 2} \<longrightarrow>
      trace_write pid_tgid fd buf count user st = (None, st)) \<and>
   (pid_of pid_tgid \<noteq> config_pid st \<or> fd \<noteq> 0 \<longrightarrow> trace_read_enter pid_tgid fd buf st = st) \<and>
   (pid_of pid_tgid = config_pid st \<and> fd = 0 \<longrightarrow>
      (let (e, st') = trace_read_exit pid_tgid ret user (trace_read_enter pid_tgid fd buf st) in
       read_args st' pid_tgid = None \<and>
       e = (if sint ret \<le> 0 then None else Some (fill_event 0 ret buf user (event_buf st))) \<and>
       trace_read_exit pid_tgid ret' user st' = (None, st')))"
  by (auto simp: trace_write_def trace_read_enter_def trace_read_exit_def Let_def fun_upd_def)

section \<open>The streams of a run\<close>

definition chunks_of :: "int \<Rightarrow> (int \<times> bytes) list \<Rightarrow> bytes" where
  "chunks_of fd evs = concat (map snd (filter (\<lambda>ev. fst ev = fd) evs))"

lemma chunks_of_simps [simp]:
  "chunks_of fd [] = []"
  "chunks_of fd (ev # evs) = (if fst ev = fd then snd ev else []) @ chunks_of fd evs"
  by (simp_all add: chunks_of_def)

definition settled :: "ebpf_streams \<Rightarrow> bool" where
  "settled s \<longleftrightarrow>
     extract_json_loop (sb_buf (es_in s)) = ([], sb_buf (es_in s)) \<and>
     extract_json_loop (sb_buf (es_out s)) = ([], sb_buf (es_out s)) \<and>
     extract_lines_loop (sb_buf (es_err s)) = ([], sb_buf (es_err s))"

lemma settled_new [simp, sanitary]: "settled new_streams"
  by (simp add: settled_def new_streams_def extract_json_loop.simps extract_lines_loop.simps)

lemma send_all_emits:
  "send_all p t d texts ch = fold try_send (emit_lines Some p t d ''ebpf'' texts) ch"
  unfolding send_all_def
  by (rule fold_handler) (simp add: send_parsed_def emit_line_def split: option.splits)

lemma stderr_message_direction [simp]: "Direction (stderr_message now tr line) = ''ERR''"
  by (simp add: stderr_message_def)

lemma fold_map_send: "fold (\<lambda>l. try_send (f l)) ls ch = fold try_send (map f ls) ch"
  by (induction ls arbitrary: ch) simp_all

text \<open>What the three extractors return for the whole of the bytes of a descriptor.\<close>

definition json_texts :: "bytes \<Rightarrow> bytes list" where
  "json_texts s = fst (extract_json_loop s)"

definition line_texts :: "bytes \<Rightarrow> bytes list" where
  "line_texts s = fst (extract_lines_loop s)"

lemma json_texts_step:
  "extract_json_loop (b @ c) = (ts, r) \<Longrightarrow> json_texts (b @ c @ s) = ts @ json_texts (r @ s)"
  using json_frames.chop_append [of "b @ c" s] by (simp add: json_texts_def split: prod.splits)

lemma line_texts_step:
  "extract_lines_loop (b @ c) = (ts, r) \<Longrightarrow> line_texts (b @ c @ s) = ts @ line_texts (r @ s)"
  using line_frames.chop_append [of "b @ c" s] by (simp add: line_texts_def split: prod.splits)

context message_parser
begin

definition run_messages ::
  "time \<Rightarrow> bytes \<Rightarrow> bytes \<Rightarrow> bytes \<Rightarrow> message list \<Rightarrow> bool" where
  "run_messages now i out e ms \<longleftrightarrow>
     filter (\<lambda>m. Direction m = ''IN'') ms = emit_lines Some Parse now ''IN'' ''ebpf'' (json_texts i) \<and>
     filter (\<lambda>m. Direction m = ''OUT'') ms = emit_lines Some Parse now ''OUT'' ''ebpf'' (json_texts out) \<and>
     filter (\<lambda>m. Direction m = ''ERR'') ms = map (stderr_message now ''ebpf'') (line_texts e)"

lemma emit_dir:
  "filter (\<lambda>m. Direction m = d') (emit_lines f Parse now d tr ls) =
     (if d = d' then emit_lines f Parse now d tr ls else [])"
  using emit_lines_from [of _ f now d tr ls] by (auto simp: filter_id_conv filter_empty_conv)

lemma ebpf_run:
  assumes "settled s"
  shows "\<exists>s' ms. fold (\<lambda>(fd, chunk). handle_chunk Parse now fd chunk) evs (s, ch)
      = (s', fold try_send ms ch) \<and>
    run_messages now (sb_buf (es_in s) @ chunks_of 0 evs) (sb_buf (es_out s) @ chunks_of 1 evs)
      (sb_buf (es_err s) @ chunks_of 2 evs) ms"
  using assms
proof (induction evs arbitrary: s ch)
  case Nil
  then have "run_messages now (sb_buf (es_in s)) (sb_buf (es_out s)) (sb_buf (es_err s)) []"
    by (simp add: settled_def run_messages_def json_texts_def line_texts_def)
  then show ?case by (intro exI [of _ s] exI [of _ "[]"]) simp
next
  case (Cons ev evs)
  obtain fd c where ev: "ev = (fd, c)" by fastforce
  consider (i) "fd = 0" | (o) "fd = 1" | (e) "fd = 2" | (x) "fd \<notin> {0, 1, 2}" by blast
  then show ?case
  proof cases
    case i
    obtain ts r where l: "extract_json_loop (sb_buf (es_in s) @ c) = (ts, r)" by fastforce
    let ?s = "s\<lparr>es_in := (es_in s)\<lparr>sb_buf := r\<rparr>\<rparr>"
    let ?new = "emit_lines Some Parse now ''IN'' ''ebpf'' ts"
    have step: "handle_chunk Parse now fd c (s, ch) = (?s, fold try_send ?new ch)"
      using i l by (simp add: handle_chunk_def extractJSON_def sb_write_def send_all_emits)
    have "settled ?s" using Cons.prems json_frames.chop_rest [OF l] by (simp add: settled_def)
    from Cons.IH [OF this, of "fold try_send ?new ch"] obtain s' ms where
      "fold (\<lambda>(fd, chunk). handle_chunk Parse now fd chunk) evs (?s, fold try_send ?new ch)
         = (s', fold try_send (?new @ ms) ch)"
      "run_messages now (r @ chunks_of 0 evs) (sb_buf (es_out s) @ chunks_of 1 evs)
         (sb_buf (es_err s) @ chunks_of 2 evs) ms"
      by auto
    with step ev i json_texts_step [OF l, of "chunks_of 0 evs"] show ?thesis
      by (intro exI [of _ s'] exI [of _ "?new @ ms"]) (simp add: run_messages_def emit_dir)
  next
    case o
    obtain ts r where l: "extract_json_loop (sb_buf (es_out s) @ c) = (ts, r)" by fastforce
    let ?s = "s\<lparr>es_out := (es_out s)\<lparr>sb_buf := r\<rparr>\<rparr>"
    let ?new = "emit_lines Some Parse now ''OUT'' ''ebpf'' ts"
    have step: "handle_chunk Parse now fd c (s, ch) = (?s, fold try_send ?new ch)"
      using o l by (simp add: handle_chunk_def extractJSON_def sb_write_def send_all_emits)
    have "settled ?s" using Cons.prems json_frames.chop_rest [OF l] by (simp add: settled_def)
    from Cons.IH [OF this, of "fold try_send ?new ch"] obtain s' ms where
      "fold (\<lambda>(fd, chunk). handle_chunk Parse now fd chunk) evs (?s, fold try_send ?new ch)
         = (s', fold try_send (?new @ ms) ch)"
      "run_messages now (sb_buf (es_in s) @ chunks_of 0 evs) (r @ chunks_of 1 evs)
         (sb_buf (es_err s) @ chunks_of 2 evs) ms"
      by auto
    with step ev o json_texts_step [OF l, of "chunks_of 1 evs"] show ?thesis
      by (intro exI [of _ s'] exI [of _ "?new @ ms"]) (simp add: run_messages_def emit_dir)
  next
    case e
    obtain ts r where l: "extract_lines_loop (sb_buf (es_err s) @ c) = (ts, r)" by fastforce
    let ?s = "s\<lparr>es_err := (es_err s)\<lparr>sb_buf := r\<rparr>\<rparr>"
    let ?new = "map (stderr_message now ''ebpf'') ts"
    have step: "handle_chunk Parse now fd c (s, ch) = (?s, fold try_send ?new ch)"
      using e l by (simp add: handle_chunk_def extractLines_def sb_write_def fold_map_send [of "stderr_message now ''ebpf''"])
    have "settled ?s" using Cons.prems line_frames.chop_rest [OF l] by (simp add: settled_def)
    from Cons.IH [OF this, of "fold try_send ?new ch"] obtain s' ms where
      "fold (\<lambda>(fd, chunk). handle_chunk Parse now fd chunk) evs (?s, fold try_send ?new ch)
         = (s', fold try_send (?new @ ms) ch)"
      "run_messages now (sb_buf (es_in s) @ chunks_of 0 evs) (sb_buf (es_out s) @ chunks_of 1 evs)
         (r @ chunks_of 2 evs) ms"
      by auto
    moreover have "filter (\<lambda>m. Direction m = ''IN'') ?new = []" "filter (\<lambda>m. Direction m = ''OUT'') ?new = []"
      "filter (\<lambda>m. Direction m = ''ERR'') ?new = ?new"
      by (simp_all add: filter_empty_conv filter_id_conv)
    ultimately show ?thesis
      using step ev e line_texts_step [OF l, of "chunks_of 2 evs"]
      by (intro exI [of _ s'] exI [of _ "?new @ ms"]) (simp add: run_messages_def)
  next
    case x
    then show ?thesis using Cons ev by (simp add: handle_chunk_def)
  qed
qed

end

text \<open>
  C27. The receive loop demultiplexes: however the chunks of the three descriptors interleave and
  however each stream was cut, the messages offered to the channel are, per direction and in
  order, what the parser makes of the JSON texts of all bytes of standard input, those of
  standard output, and one \<open>stderr\<close> message per line of standard error; other descriptors
  contribute nothing.
\<close>

theorem ebpf_demultiplexes:
  "\<exists>s' ms. fold (\<lambda>(fd, chunk). handle_chunk ParseJSONRPC now fd chunk) evs (new_streams, ch)
      = (s', fold try_send ms ch) \<and>
    filter (\<lambda>m. Direction m = ''IN'') ms =
      emit_lines Some ParseJSONRPC now ''IN'' ''ebpf'' (json_texts (chunks_of 0 evs)) \<and>
    filter (\<lambda>m. Direction m = ''OUT'') ms =
      emit_lines Some ParseJSONRPC now ''OUT'' ''ebpf'' (json_texts (chunks_of 1 evs)) \<and>
    filter (\<lambda>m. Direction m = ''ERR'') ms =
      map (stderr_message now ''ebpf'') (line_texts (chunks_of 2 evs))"
proof -
  have bufs: "sb_buf (es_in new_streams) = []" "sb_buf (es_out new_streams) = []"
    "sb_buf (es_err new_streams) = []"
    by (simp_all add: new_streams_def)
  show ?thesis
    using jsonrpc.ebpf_run [OF settled_new, of now evs ch]
    unfolding bufs append_Nil jsonrpc.run_messages_def by blast
qed

section \<open>Concrete runs\<close>

definition example_tracer :: tracer_state where
  "example_tracer = \<lparr>config_pid = 7,
     event_buf = \<lparr>ev_fd = 0, ev_size = 0, ev_payload = replicate 4096 CHR 0x00\<rparr>, read_args = (\<lambda>_. None)\<rparr>"

lemma write_arrives_mod_4096_witness:
  "\<exists>e st'. trace_write (7 * 2 ^ 32 + 7) 1 99 4096 (\<lambda>a n. replicate n CHR ''x'') example_tracer = (Some e, st') \<and>
     ebpf_iteration ParseJSONRPC 5 (PerfSample (encode_event e)) (new_streams, make_chan 3) =
       Continue (handle_chunk ParseJSONRPC 5 1 [] (new_streams, make_chan 3))"
proof -
  have "pid_of (7 * 2 ^ 32 + 7) = config_pid example_tracer" by code_simp
  moreover have "memory_ok (\<lambda>a n. replicate n CHR ''x'')" by (simp add: memory_ok_def)
  moreover have "length (ev_payload (event_buf example_tracer)) = 4096" by (simp add: example_tracer_def)
  ultimately show ?thesis
    using write_arrives_mod_4096 [of "7 * 2 ^ 32 + 7" example_tracer 1 "\<lambda>a n. replicate n CHR ''x''"
        99 4096 ParseJSONRPC 5 "(new_streams, make_chan 3)"]
    by auto
qed

lemma tracer_filters_witness:
  "trace_write (8 * 2 ^ 32) 1 99 10 (\<lambda>a n. replicate n CHR ''x'') example_tracer = (None, example_tracer)"
proof -
  have "pid_of (8 * 2 ^ 32) \<noteq> config_pid example_tracer" by code_simp
  then show ?thesis
    using tracer_filters [of "8 * 2 ^ 32" example_tracer 1 99 10 "\<lambda>a n. replicate n CHR ''x''" 0 0] by simp
qed

end
