(* ===== verification/Transport_Start.thy ===== *)
theory Transport_Start
  imports Go_Defer Transport_Socket Transport_EBPF
begin

text \<open>
  The \<open>Start\<close> methods of the four transports: what each sets up, in which order, with which
  error when a step fails, and what it releases; then the concurrent work until it returns. The
  operating system and the libraries answer through an environment; what goes on concurrently
  is a list of events in the order in which it happens.

  The interface \<open>Handler\<close> of \<open>handler.go\<close> is the locale \<open>transport\<close>: whatever a transport does, it
  only offers messages to the channel, and all of them have the shape the program relies on.
\<close>

datatype start_end = Returned "bytes option" | Running | Panicked

text \<open>An event with the clock at its time.\<close>

definition at_time :: "(time \<Rightarrow> 'e \<Rightarrow> 's \<Rightarrow> 's) \<Rightarrow> time \<times> 'e \<Rightarrow> 's \<Rightarrow> 's" where
  "at_time step ev = step (fst ev) (snd ev)"

lemma at_time_pair [simp]: "at_time step (t, ev) = step t ev"
  by (simp add: at_time_def)

text \<open>\<open>fmt.Errorf("...: %w", err)\<close>.\<close>

definition wrap_error :: "bytes \<Rightarrow> bytes \<Rightarrow> bytes" where
  "wrap_error what e = what @ '': '' @ e"

definition return_error :: "bytes \<Rightarrow> mchan \<Rightarrow> bytes \<Rightarrow> ('c, start_end \<times> mchan) body" where
  "return_error what ch e = finish (Returned (Some (wrap_error what e)), ch)"

section \<open>The interface\<close>

text \<open>A message as a transport named \<open>tr\<close> reports it.\<close>

definition report_ok :: "bytes \<Rightarrow> message \<Rightarrow> bool" where
  "report_ok tr m \<longleftrightarrow>
     Transport m = tr \<and> ID m = 0 \<and> LatencyMS m = 0 \<and>
     SizeBytes m = int (length (Raw m)) \<and> TokenEstimate m = SizeBytes m div 4 \<and>
     (if Direction m = ''ERR'' then MsgType m = MsgTypeStderr \<and> Method m = [] \<and> JSONRPCID m = []
      else Direction m \<in> {''IN'', ''OUT''} \<and> MsgType m = msg_type_of (Method m) (JSONRPCID m))"

locale transport =
  fixes Type :: bytes
    and Start :: "'env \<Rightarrow> mchan \<Rightarrow> start_end \<times> mchan"
  assumes start_offers: "\<exists>ms. snd (Start env ch) = fold try_send ms ch \<and> list_all (report_ok Type) ms"
begin

lemma start_bounded:
  "length (chan_items ch) \<le> chan_cap ch \<Longrightarrow>
     length (chan_items (snd (Start env ch))) \<le> chan_cap (snd (Start env ch))"
  using start_offers [of env ch] fold_try_send_bounded [of ch] by (metis fold_try_send_cap)

text \<open>Everything in the queue has the shape, if everything that was in it had.\<close>

lemma start_reports:
  assumes "list_all (report_ok Type) (chan_items ch)"
  shows "list_all (report_ok Type) (chan_items (snd (Start env ch)))"
proof -
  obtain ms where ms: "snd (Start env ch) = fold try_send ms ch" "list_all (report_ok Type) ms"
    using start_offers by blast
  have "set (chan_items (snd (Start env ch))) \<subseteq> set (chan_items ch @ ms)"
    unfolding ms(1) by (rule subseq_set [OF fold_try_send_subseq])
  with assms ms(2) show ?thesis by (auto simp: list_all_iff)
qed

text \<open>What was queued before is still there, first.\<close>

lemma start_keeps_queue: "prefix (chan_items ch) (chan_items (snd (Start env ch)))"
proof -
  have "prefix (chan_items c) (chan_items (fold try_send ms c))" for ms :: "message list" and c
  proof (induction ms arbitrary: c)
    case (Cons m ms)
    have "prefix (chan_items c) (chan_items (try_send m c))" by (simp add: try_send_def)
    with Cons show ?case by (metis fold_simps(2) prefix_order.trans)
  qed simp
  then show ?thesis using start_offers [of env ch] by metis
qed

end

lemma parsed_report_ok:
  "ParseJSONRPC now raw d tr = Some m \<Longrightarrow> d = ''IN'' \<or> d = ''OUT'' \<Longrightarrow> report_ok tr m"
  by (auto simp: ParseJSONRPC_eq report_ok_def parsed_message_def)

lemma stderr_report_ok: "report_ok tr (stderr_message now tr line)"
  by (simp add: report_ok_def stderr_message_def zero_message_def go_quot_nonneg)

section \<open>Standard input and output\<close>

datatype stdio_call = StdinPipe | StdoutPipe | StderrPipe | StartCommand "bytes list" | WaitCommand

text \<open>A line delivered by the scanner of one of the three pumps, which run concurrently.\<close>

datatype stdio_event = StdinLine bytes | StdoutLine bytes | StderrLine bytes

definition stdio_step :: "parser \<Rightarrow> time \<Rightarrow> stdio_event \<Rightarrow> mchan \<Rightarrow> mchan" where
  "stdio_step parse now ev messages =
     (case ev of
        StdinLine line \<Rightarrow> stdio_line parse now ''IN'' line messages
      | StdoutLine line \<Rightarrow> stdio_line parse now ''OUT'' line messages
      | StderrLine line \<Rightarrow> try_send (stderr_message now ''stdio'' line) messages)"

text \<open>\<open>Start\<close> ends when the output has ended and the command has been waited for.\<close>

definition Stdio_Start ::
  "parser \<Rightarrow> bool \<Rightarrow> (stdio_call \<Rightarrow> bytes option) \<Rightarrow> bytes \<Rightarrow> (time \<times> stdio_event) list \<Rightarrow> mchan
     \<Rightarrow> (start_end \<times> mchan) \<times> stdio_call list"
where
  "Stdio_Start parse windows fails command evs ch =
     (case stdio_command windows command of
        Inl e \<Rightarrow> finish (Returned (Some e), ch)
      | Inr argv \<Rightarrow>
          try_call fails StdinPipe (return_error ''stdin pipe'' ch)
         (try_call fails StdoutPipe (return_error ''stdout pipe'' ch)
         (try_call fails StderrPipe (return_error ''stderr pipe'' ch)
         (try_call fails (StartCommand argv) (return_error ''start command'' ch)
         (do_call WaitCommand
         (finish (Returned (fails WaitCommand), fold (at_time (stdio_step parse)) evs ch))))))) new_frame"

section \<open>eBPF\<close>

datatype ebpf_call =
    LoadTracerObjects | ObjsClose
  | ConfigPidPut "32 word" "32 word"
  | Tracepoint bytes | TracepointClose bytes
  | NewReader int | ReaderClose

fun ebpf_role :: "ebpf_call \<Rightarrow> ebpf_call role" where
  "ebpf_role LoadTracerObjects = Opens ObjsClose"
| "ebpf_role (Tracepoint name) = Opens (TracepointClose name)"
| "ebpf_role (NewReader n) = Opens ReaderClose"
| "ebpf_role (ConfigPidPut k v) = Uses"
| "ebpf_role _ = Closes"

text \<open>
  Loading, the pid for the kernel's filter, the three probes, the reader; then the receive loop,
  whose reads fail with \<open>ErrClosed\<close> once the context is done.
\<close>

definition EBPF_Start ::
  "parser \<Rightarrow> (ebpf_call \<Rightarrow> bytes option) \<Rightarrow> int \<Rightarrow> (time \<times> perf_read) list \<Rightarrow> mchan
     \<Rightarrow> (start_end \<times> mchan) \<times> ebpf_call list"
where
  "EBPF_Start parse fails pid reads ch =
     try_call fails LoadTracerObjects (return_error ''loading objects'' ch)
    (defer_call ObjsClose
    (try_call fails (ConfigPidPut 0 (word_of_int pid)) (return_error ''failed to set target PID'' ch)
    (try_call fails (Tracepoint ''sys_enter_write'') (return_error ''opening sys_enter_write tracepoint'' ch)
    (defer_call (TracepointClose ''sys_enter_write'')
    (try_call fails (Tracepoint ''sys_enter_read'') (return_error ''opening sys_enter_read tracepoint'' ch)
    (defer_call (TracepointClose ''sys_enter_read'')
    (try_call fails (Tracepoint ''sys_exit_read'') (return_error ''opening sys_exit_read tracepoint'' ch)
    (defer_call (TracepointClose ''sys_exit_read'')
    (try_call fails (NewReader (8192 * 4)) (return_error ''creating perf event reader'' ch)
    (defer_call ReaderClose
    (\<lambda>fr. case ebpf_loop parse reads (new_streams, ch) of
             Continue (s, ch') \<Rightarrow> leave_now (Running, ch') fr
           | Returns ch' \<Rightarrow> finish (Returned None, ch') fr
           | Panics ch' \<Rightarrow> finish (Panicked, ch') fr))))))))))) new_frame"

text \<open>The stub for other systems than Linux.\<close>

definition EBPF_stub_Start :: "mchan \<Rightarrow> (start_end \<times> mchan) \<times> ebpf_call list" where
  "EBPF_stub_Start ch = finish (Returned (Some
     (''eBPF interception is natively supported on Linux only. '' @
      ''Please run this command on a Linux system or WSL2'')), ch) new_frame"

section \<open>The HTTP proxy\<close>

record url =
  u_scheme :: bytes
  u_host :: bytes
  u_path :: bytes
  u_rawQuery :: bytes

definition HasSuffix :: "bytes \<Rightarrow> bytes \<Rightarrow> bool" where
  "HasSuffix s t \<longleftrightarrow> length t \<le> length s \<and> drop (length s - length t) s = t"

text \<open>
  What \<open>httputil.NewSingleHostReverseProxy(target)\<close> makes of the address of a request, for paths
  that need no escaping.
\<close>

definition singleJoiningSlash :: "bytes \<Rightarrow> bytes \<Rightarrow> bytes" where
  "singleJoiningSlash a b =
     (if HasSuffix a ''/'' \<and> HasPrefix b ''/'' then a @ drop 1 b
      else if \<not> HasSuffix a ''/'' \<and> \<not> HasPrefix b ''/'' then a @ ''/'' @ b
      else a @ b)"

definition rewriteRequestURL :: "url \<Rightarrow> url \<Rightarrow> url" where
  "rewriteRequestURL target u =
     \<lparr>u_scheme = u_scheme target, u_host = u_host target,
      u_path = singleJoiningSlash (u_path target) (u_path u),
      u_rawQuery = (if u_rawQuery target = [] \<or> u_rawQuery u = [] then u_rawQuery target @ u_rawQuery u
                    else u_rawQuery target @ ''&'' @ u_rawQuery u)\<rparr>"

text \<open>
  The bodies the proxy has wrapped, of requests and of responses, are read concurrently: a body is
  wrapped by \<open>RoundTrip\<close>, or one of them is read.
\<close>

datatype proxy_event = WrapRequest | WrapResponse response | BodyRead nat bytes "io_error option"

definition request_wrap :: body_wrap where
  "request_wrap = BodyWrap (new_interceptor ''http/sse'' ''IN'')"

fun proxy_step ::
  "parser \<Rightarrow> time \<Rightarrow> proxy_event \<Rightarrow> body_wrap list \<times> mchan \<Rightarrow> body_wrap list \<times> mchan"
where
  "proxy_step parse now WrapRequest (bs, ch) = (bs @ [request_wrap], ch)"
| "proxy_step parse now (WrapResponse res) (bs, ch) = (bs @ [wrap_response ''http/sse'' res], ch)"
| "proxy_step parse now (BodyRead i data err) (bs, ch) =
     (if i < length bs then
        (case bs ! i of
           NoBody \<Rightarrow> (bs, ch)
         | BodyWrap w \<Rightarrow> (case body_read parse now data err (w, ch) of
             (r, w', ch') \<Rightarrow> (bs[i := BodyWrap w'], ch'))
         | StreamWrap w \<Rightarrow> (case stream_read parse now data err (w, ch) of
             (r, w', ch') \<Rightarrow> (bs[i := StreamWrap w'], ch')))
      else (bs, ch))"

datatype serve_end = StillServing | ErrServerClosed | ListenError bytes

definition Proxy_Start ::
  "parser \<Rightarrow> (bytes \<Rightarrow> bytes + url) \<Rightarrow> bytes \<Rightarrow> (time \<times> proxy_event) list \<Rightarrow> serve_end \<Rightarrow> mchan
     \<Rightarrow> start_end \<times> mchan"
where
  "Proxy_Start parse parse_url targetURL evs ended ch =
     (case parse_url targetURL of
        Inl e \<Rightarrow> (Returned (Some (wrap_error ''invalid proxy target URL'' e)), ch)
      | Inr target \<Rightarrow>
          (let (bs, ch) = fold (at_time (proxy_step parse)) evs ([], ch)
           in ((case ended of
                  StillServing \<Rightarrow> Running
                | ErrServerClosed \<Rightarrow> Returned None
                | ListenError e \<Rightarrow> Returned (Some e)), ch)))"

section \<open>The socket relay\<close>

datatype socket_call = RemoveFile bytes | ListenUnix bytes | ListenerClose

fun socket_role :: "socket_call \<Rightarrow> socket_call role" where
  "socket_role (ListenUnix path) = Opens ListenerClose"
| "socket_role ListenerClose = Closes"
| "socket_role (RemoveFile path) = Uses"

text \<open>
  Connections run concurrently. One is accepted, and the target answers or not; data arrives at
  one of its ends; one of its two copying goroutines returns, which closes both ends; \<open>Accept\<close>
  fails, with the context done or not.
\<close>

datatype relay_event =
    Accepted bool
  | Traffic nat conn_event
  | CopyEnds nat
  | AcceptFails bool

text \<open>A connection as long as both ends are open, and what it has relayed.\<close>

record relay =
  rl_open :: bool
  rl_conn :: connection

fun relay_step :: "parser \<Rightarrow> time \<Rightarrow> relay_event \<Rightarrow> relay list \<times> mchan \<Rightarrow> relay list \<times> mchan" where
  "relay_step parse now (Accepted dial_ok) (rs, ch) =
     (rs @ [\<lparr>rl_open = dial_ok, rl_conn = new_connection\<rparr>], ch)"
| "relay_step parse now (Traffic i ev) (rs, ch) =
     (if i < length rs \<and> rl_open (rs ! i)
      then (case conn_step parse now ev (rl_conn (rs ! i), ch) of
              (c, ch') \<Rightarrow> (rs[i := (rs ! i)\<lparr>rl_conn := c\<rparr>], ch'))
      else (rs, ch))"
| "relay_step parse now (CopyEnds i) (rs, ch) =
     (if i < length rs then (rs[i := (rs ! i)\<lparr>rl_open := False\<rparr>], ch) else (rs, ch))"
| "relay_step parse now (AcceptFails done_ctx) (rs, ch) = (rs, ch)"

fun accept_loop ::
  "parser \<Rightarrow> (time \<times> relay_event) list \<Rightarrow> relay list \<times> mchan \<Rightarrow> start_end \<times> relay list \<times> mchan"
where
  "accept_loop parse [] st = (Running, st)"
| "accept_loop parse (ev # evs) st =
     (if snd ev = AcceptFails True then (Returned None, st)
      else accept_loop parse evs (at_time (relay_step parse) ev st))"

definition Socket_Start ::
  "parser \<Rightarrow> (socket_call \<Rightarrow> bytes option) \<Rightarrow> bytes \<Rightarrow> (time \<times> relay_event) list \<Rightarrow> mchan
     \<Rightarrow> (start_end \<times> mchan) \<times> socket_call list"
where
  "Socket_Start parse fails localPath evs ch =
     do_call (RemoveFile localPath)
    (try_call fails (ListenUnix localPath) (return_error ''failed to listen on unix socket'' ch)
    (defer_call ListenerClose
    (\<lambda>fr. case accept_loop parse evs ([], ch) of
             (Running, rs, ch') \<Rightarrow> leave_now (Running, ch') fr
           | (r, rs, ch') \<Rightarrow> finish (r, ch') fr))) new_frame"

section \<open>What the transports offer to the channel\<close>

definition offers :: "bytes \<Rightarrow> mchan \<Rightarrow> mchan \<Rightarrow> bool" where
  "offers tr ch ch' \<longleftrightarrow> (\<exists>ms. ch' = fold try_send ms ch \<and> list_all (report_ok tr) ms)"

lemma offers_refl [simp, intro]: "offers tr ch ch"
  unfolding offers_def by (intro exI [of _ "[]"]) simp

lemma offers_trans: "offers tr a b \<Longrightarrow> offers tr b c \<Longrightarrow> offers tr a c"
proof -
  assume "offers tr a b" "offers tr b c"
  then obtain ms ns where "b = fold try_send ms a" "c = fold try_send ns b"
    "list_all (report_ok tr) ms" "list_all (report_ok tr) ns" by (auto simp: offers_def)
  then show ?thesis unfolding offers_def by (intro exI [of _ "ms @ ns"]) simp
qed

lemma offers_send: "report_ok tr m \<Longrightarrow> offers tr ch (try_send m ch)"
  unfolding offers_def by (intro exI [of _ "[m]"]) simp

lemma offers_parsed: "d = ''IN'' \<or> d = ''OUT'' \<Longrightarrow> offers tr ch (send_parsed ParseJSONRPC now raw d tr ch)"
  by (auto simp: send_parsed_def intro: offers_send parsed_report_ok split: option.split)

lemma offers_fold: "(\<And>x ch. offers tr ch (f x ch)) \<Longrightarrow> offers tr ch (fold f xs ch)"
proof (induction xs arbitrary: ch)
  case (Cons x xs)
  then show ?case using offers_trans [of tr ch "f x ch"] by simp
qed simp

lemma offers_line_loop:
  "(\<And>x ch. offers tr ch (f x ch)) \<Longrightarrow> line_loop f buf ch = (r, ch') \<Longrightarrow> offers tr ch ch'"
  by (auto simp: line_loop_split split: prod.splits intro: offers_fold)

text \<open>Standard input and output.\<close>

lemma stdio_step_offers: "offers ''stdio'' ch (stdio_step ParseJSONRPC now ev ch)"
  by (auto simp: stdio_step_def stdio_line_def split: stdio_event.split
      intro: offers_parsed offers_send stderr_report_ok)

lemma Stdio_Start_offers:
  "offers ''stdio'' ch (snd (fst (Stdio_Start ParseJSONRPC windows fails command evs ch)))"
proof -
  have "offers ''stdio'' ch (fold (at_time (stdio_step ParseJSONRPC)) evs ch)"
    by (intro offers_fold) (simp add: at_time_def stdio_step_offers)
  then show ?thesis
    by (auto simp: Stdio_Start_def body_simps return_error_def split: sum.split option.split)
qed

text \<open>eBPF.\<close>

lemma handle_chunk_offers:
  "handle_chunk ParseJSONRPC now fd chunk (s, ch) = (s', ch') \<Longrightarrow> offers ''ebpf'' ch ch'"
  by (auto simp: handle_chunk_def send_all_def split: if_splits prod.splits
      intro!: offers_fold offers_parsed offers_send stderr_report_ok)

definition loop_channel :: "loop_result \<Rightarrow> mchan" where
  "loop_channel r = (case r of Continue (s, ch) \<Rightarrow> ch | Returns ch \<Rightarrow> ch | Panics ch \<Rightarrow> ch)"

lemma ebpf_loop_offers: "offers ''ebpf'' ch (loop_channel (ebpf_loop ParseJSONRPC reads (s, ch)))"
proof (induction reads arbitrary: s ch)
  case (Cons x reads)
  obtain now rd where x: "x = (now, rd)" by fastforce
  show ?case
  proof (cases "ebpf_iteration ParseJSONRPC now rd (s, ch)")
    case (Continue st)
    obtain s' ch' where st: "st = (s', ch')" by fastforce
    then have "offers ''ebpf'' ch ch'"
      using Continue by (auto simp: ebpf_iteration_def split: perf_read.splits option.splits prod.splits
          if_splits dest: handle_chunk_offers)
    with Continue st x Cons.IH [of ch' s'] show ?thesis by (auto intro: offers_trans)
  qed (auto simp: x ebpf_iteration_def loop_channel_def
      split: perf_read.splits option.splits prod.splits if_splits)
qed (simp add: loop_channel_def)

lemma EBPF_Start_offers:
  "offers ''ebpf'' ch (snd (fst (EBPF_Start ParseJSONRPC fails pid reads ch)))"
  using ebpf_loop_offers [of ch reads new_streams]
  by (auto simp: EBPF_Start_def body_simps return_error_def loop_channel_def
      split: option.splits loop_result.splits prod.splits)

text \<open>The proxy.\<close>

definition wrap_ok :: "body_wrap \<Rightarrow> bool" where
  "wrap_ok b = (case b of
     NoBody \<Rightarrow> True
   | BodyWrap w \<Rightarrow> ic_transType w = ''http/sse'' \<and> ic_direction w \<in> {''IN'', ''OUT''}
   | StreamWrap w \<Rightarrow> ic_transType w = ''http/sse'')"

lemma body_line_offers:
  "ic_transType w = tr \<Longrightarrow> ic_direction w \<in> {''IN'', ''OUT''} \<Longrightarrow> offers tr ch (body_line ParseJSONRPC now w l ch)"
  by (auto simp: body_line_def Let_def intro: offers_parsed)

lemma stream_line_offers:
  "ic_transType w = tr \<Longrightarrow> offers tr ch (stream_line ParseJSONRPC now w l ch)"
  by (auto simp: stream_line_def Let_def intro: offers_parsed)

lemma intercept_read_offers:
  assumes "\<And>b l ch. offers tr ch (f (w\<lparr>ic_buf := b\<rparr>) l ch)" "intercept_read f data err (w, ch) = (r, w', ch')"
  shows "offers tr ch ch' \<and> ic_transType w' = ic_transType w \<and> ic_direction w' = ic_direction w"
proof -
  have w: "f w = f (w\<lparr>ic_buf := ic_buf w\<rparr>)" by simp
  have plain: "offers tr ch (f w l ch)" for l ch unfolding w by (rule assms(1))
  then have loop: "offers tr ch c" if "line_loop (f w) buf ch = (b, c)" for b c buf
    using that by (rule offers_line_loop)
  have "offers tr ch (f (w\<lparr>ic_buf := b\<rparr>) l c)" if "line_loop (f w) buf ch = (b', c)" for b b' c buf l
    using loop [OF that] assms(1) by (rule offers_trans)
  with loop plain assms show ?thesis
    by (auto simp: intercept_read_def Let_def split: if_splits prod.splits)
qed

lemma proxy_step_offers:
  "list_all wrap_ok bs \<Longrightarrow> proxy_step ParseJSONRPC now ev (bs, ch) = (bs', ch') \<Longrightarrow>
     offers ''http/sse'' ch ch' \<and> list_all wrap_ok bs'"
proof (cases ev)
  case (BodyRead i data err)
  assume bs: "list_all wrap_ok bs" and step: "proxy_step ParseJSONRPC now ev (bs, ch) = (bs', ch')"
  show ?thesis
  proof (cases "i < length bs")
    case True
    then have b: "wrap_ok (bs ! i)" using bs by (simp add: list_all_length)
    show ?thesis
    proof (cases "bs ! i")
      case (BodyWrap w)
      obtain r w' c where rd: "body_read ParseJSONRPC now data err (w, ch) = (r, w', c)" by (metis prod_cases3)
      have "offers ''http/sse'' ch c \<and> ic_transType w' = ic_transType w \<and> ic_direction w' = ic_direction w"
        using b BodyWrap by (intro intercept_read_offers [OF _ rd [unfolded body_read_def]] body_line_offers)
          (simp_all add: wrap_ok_def)
      with BodyWrap BodyRead True step rd b bs show ?thesis
        by (auto simp: wrap_ok_def list_all_length nth_list_update)
    next
      case (StreamWrap w)
      obtain r w' c where rd: "stream_read ParseJSONRPC now data err (w, ch) = (r, w', c)" by (metis prod_cases3)
      have "offers ''http/sse'' ch c \<and> ic_transType w' = ic_transType w \<and> ic_direction w' = ic_direction w"
        using b StreamWrap by (intro intercept_read_offers [OF _ rd [unfolded stream_read_def]] stream_line_offers)
          (simp_all add: wrap_ok_def)
      with StreamWrap BodyRead True step rd b bs show ?thesis
        by (auto simp: wrap_ok_def list_all_length nth_list_update)
    qed (use BodyRead True step bs in auto)
  qed (use BodyRead step bs in auto)
qed (auto simp: wrap_ok_def request_wrap_def wrap_response_def new_interceptor_def split: body_wrap.splits)

lemma proxy_steps_offers:
  "list_all wrap_ok bs \<Longrightarrow> fold (at_time (proxy_step ParseJSONRPC)) evs (bs, ch) = (bs', ch') \<Longrightarrow>
     offers ''http/sse'' ch ch'"
proof (induction evs arbitrary: bs ch)
  case (Cons ev evs)
  obtain bs1 ch1 where "proxy_step ParseJSONRPC (fst ev) (snd ev) (bs, ch) = (bs1, ch1)" by fastforce
  with Cons proxy_step_offers [of bs "fst ev" "snd ev" ch bs1 ch1] show ?case
    by (auto simp: at_time_def intro: offers_trans)
qed simp

lemma Proxy_Start_offers:
  "offers ''http/sse'' ch (snd (Proxy_Start ParseJSONRPC parse_url targetURL evs ended ch))"
  using proxy_steps_offers [of "[]" evs ch]
  by (auto simp: Proxy_Start_def split: sum.split prod.splits)

text \<open>The socket relay.\<close>

lemma socket_write_offers:
  assumes "socket_write ParseJSONRPC now p res (w, ch) = (r, w', ch')"
    and "ic_direction w = ''IN'' \<or> ic_direction w = ''OUT''"
  shows "offers (ic_transType w) ch ch' \<and> ic_direction w' = ic_direction w \<and> ic_transType w' = ic_transType w"
proof -
  have "offers (ic_transType w) ch (socket_line ParseJSONRPC now w l ch)" for l ch
    using assms(2) by (auto simp: socket_line_def Let_def intro: offers_parsed)
  with assms(1) show ?thesis
    by (auto simp: socket_write_def split: if_splits prod.splits intro: offers_line_loop)
qed

definition relay_ok :: "connection \<Rightarrow> bool" where
  "relay_ok c \<longleftrightarrow> ic_direction (cn_clientWriter c) = ''IN'' \<and> ic_direction (cn_targetWriter c) = ''OUT'' \<and>
     ic_transType (cn_clientWriter c) = ''socket'' \<and> ic_transType (cn_targetWriter c) = ''socket''"

lemma conn_step_offers:
  "relay_ok c \<Longrightarrow> conn_step ParseJSONRPC now ev (c, ch) = (c', ch') \<Longrightarrow> offers ''socket'' ch ch' \<and> relay_ok c'"
  by (cases ev) (auto simp: relay_ok_def Let_def split: prod.splits dest!: socket_write_offers)

lemma relay_step_offers:
  assumes "\<forall>x\<in>set rs. relay_ok (rl_conn x)" "relay_step ParseJSONRPC now ev (rs, ch) = (rs', ch')"
  shows "offers ''socket'' ch ch' \<and> (\<forall>x\<in>set rs'. relay_ok (rl_conn x))"
proof (cases ev)
  case (Accepted x)
  then show ?thesis using assms by (auto simp: relay_ok_def new_connection_def new_interceptor_def)
next
  case (Traffic i e)
  show ?thesis
  proof (cases "i < length rs \<and> rl_open (rs ! i)")
    case True
    obtain c ch1 where c: "conn_step ParseJSONRPC now e (rl_conn (rs ! i), ch) = (c, ch1)" by fastforce
    have "relay_ok (rl_conn (rs ! i))" using assms(1) True by simp
    from conn_step_offers [OF this c] c assms True Traffic show ?thesis
      by (auto dest!: set_update_subset_insert [THEN subsetD])
  qed (use Traffic assms in auto)
next
  case (CopyEnds i)
  then show ?thesis
    using assms by (auto split: if_splits dest!: set_update_subset_insert [THEN subsetD])
next
  case (AcceptFails d)
  then show ?thesis using assms by auto
qed

lemma accept_loop_offers:
  "\<forall>x\<in>set rs. relay_ok (rl_conn x) \<Longrightarrow> accept_loop ParseJSONRPC evs (rs, ch) = (r, rs', ch') \<Longrightarrow>
     offers ''socket'' ch ch'"
proof (induction evs arbitrary: rs ch)
  case (Cons ev evs)
  obtain rs1 ch1 where step: "relay_step ParseJSONRPC (fst ev) (snd ev) (rs, ch) = (rs1, ch1)" by fastforce
  show ?case
  proof (cases "snd ev = AcceptFails True")
    case False
    have "offers ''socket'' ch ch1" and ok: "\<forall>x\<in>set rs1. relay_ok (rl_conn x)"
      using relay_step_offers [OF Cons.prems(1) step] by simp_all
    moreover have "accept_loop ParseJSONRPC evs (rs1, ch1) = (r, rs', ch')"
      using Cons.prems(2) False step by (simp add: at_time_def)
    ultimately show ?thesis using Cons.IH [OF ok] offers_trans by blast
  qed (use Cons.prems in auto)
qed simp

lemma Socket_Start_offers:
  "offers ''socket'' ch (snd (fst (Socket_Start ParseJSONRPC fails localPath evs ch)))"
  using accept_loop_offers [of "[]" evs ch]
  by (auto simp: Socket_Start_def body_simps return_error_def split: option.splits prod.splits start_end.splits)

section \<open>The four transports provide the interface\<close>

interpretation stdio: transport "''stdio''"
  "\<lambda>(windows, fails, command, evs) ch. fst (Stdio_Start ParseJSONRPC windows fails command evs ch)"
  using Stdio_Start_offers by unfold_locales (auto simp: offers_def split: prod.split)

interpretation ebpf: transport "''ebpf''"
  "\<lambda>(fails, pid, reads) ch. fst (EBPF_Start ParseJSONRPC fails pid reads ch)"
  using EBPF_Start_offers by unfold_locales (auto simp: offers_def split: prod.split)

interpretation proxy: transport "''http/sse''"
  "\<lambda>(parse_url, targetURL, evs, ended) ch. Proxy_Start ParseJSONRPC parse_url targetURL evs ended ch"
  using Proxy_Start_offers by unfold_locales (auto simp: offers_def split: prod.split)

interpretation socket: transport "''socket''"
  "\<lambda>(fails, localPath, evs) ch. fst (Socket_Start ParseJSONRPC fails localPath evs ch)"
  using Socket_Start_offers by unfold_locales (auto simp: offers_def split: prod.split)

end
