(* ===== verification/Transport_Lifecycle.thy ===== *)
theory Transport_Lifecycle
  imports Transport_Start
begin

text \<open>
  What the \<open>Start\<close> methods guarantee: everything acquired is released whichever step fails, the
  errors name the step, concurrent streams stay apart, connections do not mix, and every message
  any transport queues has the shape the rest of the program relies on.
\<close>

section \<open>Every message is typed\<close>

text \<open>
  Whatever the environment does and however the concurrent parts interleave, every message a
  transport has put into the channel carries the name of the transport, a direction, the type
  that goes with its method and id (or \<open>stderr\<close>), the size of its text and a quarter of it as the
  token estimate, and neither a number nor a latency; and the channel never exceeds its capacity.
\<close>

theorem transports_report_typed:
  assumes "chan_items ch = []"
    and "ch' \<in> {snd (fst (Stdio_Start ParseJSONRPC windows stdio_fails command lines ch)),
                snd (Proxy_Start ParseJSONRPC parse_url targetURL bodies ended ch),
                snd (fst (EBPF_Start ParseJSONRPC ebpf_fails pid reads ch)),
                snd (fst (Socket_Start ParseJSONRPC socket_fails localPath conns ch))}"
  shows "\<exists>tr\<in>{''stdio'', ''http/sse'', ''ebpf'', ''socket''}.
    list_all (report_ok tr) (chan_items ch') \<and> length (chan_items ch') \<le> chan_cap ch'"
  using assms
    stdio.start_reports [of ch "(windows, stdio_fails, command, lines)"]
    stdio.start_bounded [of ch "(windows, stdio_fails, command, lines)"]
    proxy.start_reports [of ch "(parse_url, targetURL, bodies, ended)"]
    proxy.start_bounded [of ch "(parse_url, targetURL, bodies, ended)"]
    ebpf.start_reports [of ch "(ebpf_fails, pid, reads)"]
    ebpf.start_bounded [of ch "(ebpf_fails, pid, reads)"]
    socket.start_reports [of ch "(socket_fails, localPath, conns)"]
    socket.start_bounded [of ch "(socket_fails, localPath, conns)"]
  by auto

section \<open>Setting up and releasing\<close>

text \<open>The steps of the set-up with the text of their errors; the first that fails decides.\<close>

definition first_failure :: "('c \<Rightarrow> bytes option) \<Rightarrow> ('c \<times> bytes) list \<Rightarrow> bytes option" where
  "first_failure fails steps =
     (case List.find (\<lambda>s. fails (fst s) \<noteq> None) steps of
        None \<Rightarrow> None
      | Some s \<Rightarrow> Some (wrap_error (snd s) (the (fails (fst s)))))"

lemma first_failure_simps [simp]:
  "first_failure fails [] = None"
  "first_failure fails ((c, what) # steps) =
     (case fails c of Some e \<Rightarrow> Some (wrap_error what e) | None \<Rightarrow> first_failure fails steps)"
  by (simp_all add: first_failure_def split: option.split)

definition ebpf_steps :: "int \<Rightarrow> (ebpf_call \<times> bytes) list" where
  "ebpf_steps pid =
     [(LoadTracerObjects, ''loading objects''),
      (ConfigPidPut 0 (word_of_int pid), ''failed to set target PID''),
      (Tracepoint ''sys_enter_write'', ''opening sys_enter_write tracepoint''),
      (Tracepoint ''sys_enter_read'', ''opening sys_enter_read tracepoint''),
      (Tracepoint ''sys_exit_read'', ''opening sys_exit_read tracepoint''),
      (NewReader (8192 * 4), ''creating perf event reader'')]"


text \<open>
  The end of the context ends the transport: once the reader is closed the receive loop returns
  without an error, whatever it has read, for as long as every sample fits its event.
\<close>

definition sample_fits :: "perf_read \<Rightarrow> bool" where
  "sample_fits rd \<longleftrightarrow>
     (case rd of PerfSample raw \<Rightarrow> (case decode_event raw of Some (fd, sz, p) \<Rightarrow> sz \<le> 4096 | None \<Rightarrow> True) | _ \<Rightarrow> True)"

theorem ebpf_loop_ends:
  "list_all (sample_fits \<circ> snd) reads \<Longrightarrow> \<exists>c. ebpf_loop parse (reads @ (now, PerfClosed) # rest) st = Returns c"
proof (induction reads arbitrary: st)
  case (Cons rd reads)
  then show ?case
    by (cases rd) (auto simp: ebpf_iteration_def sample_fits_def
        split: perf_read.splits option.splits prod.splits)
qed (simp add: ebpf_iteration_def)

definition stdio_steps :: "bytes list \<Rightarrow> (stdio_call \<times> bytes) list" where
  "stdio_steps argv =
     [(StdinPipe, ''stdin pipe''), (StdoutPipe, ''stdout pipe''), (StderrPipe, ''stderr pipe''),
      (StartCommand argv, ''start command'')]"

text \<open>
  The wrapper starts the command as one argument of the shell, and only once all three pipes
  exist; it reports nothing before; the error names the first step that failed; and once started
  the command is waited for, with its result as the result of the transport.
\<close>

theorem stdio_start_order:
  assumes "Stdio_Start parse windows fails command evs ch = ((r, ch'), calls)"
  shows "if command = [] then r = Returned (Some ''empty command'') \<and> calls = [] \<and> ch' = ch
    else (let argv = (if windows then [''cmd'', ''/C'', command] else [''sh'', ''-c'', command]) in
      case first_failure fails (stdio_steps argv) of
        Some e \<Rightarrow> r = Returned (Some e) \<and> ch' = ch \<and> WaitCommand \<notin> set calls \<and>
          prefix calls [StdinPipe, StdoutPipe, StderrPipe, StartCommand argv]
      | None \<Rightarrow> r = Returned (fails WaitCommand) \<and> ch' = fold (at_time (stdio_step parse)) evs ch \<and>
          calls = [StdinPipe, StdoutPipe, StderrPipe, StartCommand argv, WaitCommand])"
  using assms
  by (auto simp: Stdio_Start_def stdio_command_def stdio_steps_def body_simps return_error_def
      split: option.splits if_splits)

section \<open>The three streams of the wrapped command\<close>

definition stdin_lines :: "(time \<times> stdio_event) list \<Rightarrow> (time \<times> bytes) list" where
  "stdin_lines = List.map_filter (\<lambda>(t, ev). case ev of StdinLine l \<Rightarrow> Some (t, l) | _ \<Rightarrow> None)"

definition stdout_lines :: "(time \<times> stdio_event) list \<Rightarrow> (time \<times> bytes) list" where
  "stdout_lines = List.map_filter (\<lambda>(t, ev). case ev of StdoutLine l \<Rightarrow> Some (t, l) | _ \<Rightarrow> None)"

definition stderr_lines :: "(time \<times> stdio_event) list \<Rightarrow> (time \<times> bytes) list" where
  "stderr_lines = List.map_filter (\<lambda>(t, ev). case ev of StderrLine l \<Rightarrow> Some (t, l) | _ \<Rightarrow> None)"

lemma stdio_lines_simps [simp]:
  "stdin_lines [] = []" "stdout_lines [] = []" "stderr_lines [] = []"
  "stdin_lines ((t, ev) # evs) = (case ev of StdinLine l \<Rightarrow> [(t, l)] | _ \<Rightarrow> []) @ stdin_lines evs"
  "stdout_lines ((t, ev) # evs) = (case ev of StdoutLine l \<Rightarrow> [(t, l)] | _ \<Rightarrow> []) @ stdout_lines evs"
  "stderr_lines ((t, ev) # evs) = (case ev of StderrLine l \<Rightarrow> [(t, l)] | _ \<Rightarrow> []) @ stderr_lines evs"
  by (simp_all add: stdin_lines_def stdout_lines_def stderr_lines_def List.map_filter_simps
      split: stdio_event.split)

text \<open>What the parser makes of lines, each read at its time.\<close>

definition parse_lines :: "bytes \<Rightarrow> (time \<times> bytes) list \<Rightarrow> message list" where
  "parse_lines dir ls = List.map_filter (\<lambda>(t, l). ParseJSONRPC t l dir ''stdio'') ls"

lemma parse_lines_simps [simp]:
  "parse_lines dir [] = []"
  "parse_lines dir ((t, l) # ls) =
     (case ParseJSONRPC t l dir ''stdio'' of None \<Rightarrow> [] | Some m \<Rightarrow> [m]) @ parse_lines dir ls"
  by (simp_all add: parse_lines_def List.map_filter_simps split: option.split)

text \<open>One event offers at most one message, labelled with the direction of its stream.\<close>

definition stdio_emits :: "time \<times> stdio_event \<Rightarrow> message list" where
  "stdio_emits x =
     (case x of (now, ev) \<Rightarrow>
        (case ev of
           StdinLine l \<Rightarrow> parse_lines ''IN'' [(now, l)]
         | StdoutLine l \<Rightarrow> parse_lines ''OUT'' [(now, l)]
         | StderrLine l \<Rightarrow> [stderr_message now ''stdio'' l]))"

lemma stdio_step_emits: "at_time (stdio_step ParseJSONRPC) x ch = fold try_send (stdio_emits x) ch"
  by (simp add: at_time_def stdio_step_def stdio_emits_def stdio_line_def send_parsed_def
      split: stdio_event.split option.split prod.split)

lemma stdio_steps_emit:
  "fold (at_time (stdio_step ParseJSONRPC)) evs ch = fold try_send (concat (map stdio_emits evs)) ch"
  by (induction evs arbitrary: ch) (simp_all add: stdio_step_emits)

lemma stdio_emits_direction:
  "filter (\<lambda>m. Direction m = ''IN'') (concat (map stdio_emits evs)) = parse_lines ''IN'' (stdin_lines evs)"
  "filter (\<lambda>m. Direction m = ''OUT'') (concat (map stdio_emits evs)) = parse_lines ''OUT'' (stdout_lines evs)"
  "filter (\<lambda>m. Direction m = ''ERR'') (concat (map stdio_emits evs)) =
     map (\<lambda>(t, l). stderr_message t ''stdio'' l) (stderr_lines evs)"
  by (induction evs)
    (auto simp: stdio_emits_def ParseJSONRPC_eq stderr_message_def split: stdio_event.split option.split)

text \<open>
  The streams of a wrapped command stay apart: however its three pumps interleave, the
  messages offered to the channel are, direction by direction and in order, what the parser
  makes of the lines of standard input, of standard output, and one \<open>stderr\<close> message per line of
  standard error.
\<close>

theorem stdio_streams_apart:
  "\<exists>ms. fold (at_time (stdio_step ParseJSONRPC)) evs ch = fold try_send ms ch \<and>
    filter (\<lambda>m. Direction m = ''IN'') ms = parse_lines ''IN'' (stdin_lines evs) \<and>
    filter (\<lambda>m. Direction m = ''OUT'') ms = parse_lines ''OUT'' (stdout_lines evs) \<and>
    filter (\<lambda>m. Direction m = ''ERR'') ms = map (\<lambda>(t, l). stderr_message t ''stdio'' l) (stderr_lines evs)"
  using stdio_steps_emit stdio_emits_direction by blast

section \<open>Connections of the relay\<close>

text \<open>The data of connection \<open>i\<close> until one of its two copying goroutines returns.\<close>

fun until_end :: "nat \<Rightarrow> (time \<times> relay_event) list \<Rightarrow> conn_event list" where
  "until_end i [] = []"
| "until_end i ((t, ev) # evs) =
     (case ev of
        Traffic j e \<Rightarrow> (if j = i then [e] else []) @ until_end i evs
      | CopyEnds j \<Rightarrow> if j = i then [] else until_end i evs
      | _ \<Rightarrow> until_end i evs)"

lemma conn_step_bytes:
  "conn_step parse now ev (c, ch) = (c', ch') \<Longrightarrow>
     cn_toTarget c' = cn_toTarget c @ client_bytes [ev] \<and> cn_toClient c' = cn_toClient c @ target_bytes [ev]"
  by (cases ev) (auto split: prod.splits)

lemma client_bytes_Cons: "client_bytes (e # es) = client_bytes [e] @ client_bytes es"
  and target_bytes_Cons: "target_bytes (e # es) = target_bytes [e] @ target_bytes es"
  by (cases e; simp)+

definition carried :: "relay \<Rightarrow> bytes \<times> bytes" where
  "carried r = (cn_toTarget (rl_conn r), cn_toClient (rl_conn r))"

lemma relay_steps_carry:
  assumes "i < length rs" "fold (at_time (relay_step parse)) evs (rs, ch) = (rs', ch')"
  shows "i < length rs' \<and> carried (rs' ! i) =
    (let es = (if rl_open (rs ! i) then until_end i evs else []) in
     (fst (carried (rs ! i)) @ client_bytes es, snd (carried (rs ! i)) @ target_bytes es))"
  using assms
proof (induction evs arbitrary: rs ch)
  case (Cons x evs)
  obtain now ev where x: "x = (now, ev)" by fastforce
  obtain rs1 ch1 where step: "relay_step parse now ev (rs, ch) = (rs1, ch1)" by fastforce
  have rest: "fold (at_time (relay_step parse)) evs (rs1, ch1) = (rs', ch')"
    using Cons.prems(2) step by (simp add: x)
  show ?case
  proof (cases ev)
    case (Traffic j e)
    show ?thesis
    proof (cases "j < length rs \<and> rl_open (rs ! j)")
      case True
      obtain c ch2 where c: "conn_step parse now e (rl_conn (rs ! j), ch) = (c, ch2)" by fastforce
      then have rs1: "rs1 = rs[j := (rs ! j)\<lparr>rl_conn := c\<rparr>]" using True step Traffic by simp
      show ?thesis
        using Cons.IH [OF _ rest] Cons.prems(1) True conn_step_bytes [OF c]
        by (cases "j = i") (simp_all add: x rs1 Traffic carried_def Let_def client_bytes_Cons [of e "until_end i evs"]
            target_bytes_Cons [of e "until_end i evs"])
    next
      case False
      then have "rs1 = rs" using step Traffic by auto
      then show ?thesis using Cons.IH [OF _ rest] Cons.prems(1) False Traffic x by auto
    qed
  next
    case (CopyEnds j)
    show ?thesis
    proof (cases "j < length rs")
      case True
      then have rs1: "rs1 = rs[j := (rs ! j)\<lparr>rl_open := False\<rparr>]" using step CopyEnds by simp
      show ?thesis
        using Cons.IH [OF _ rest] Cons.prems(1) True
        by (cases "j = i") (simp_all add: x rs1 CopyEnds carried_def)
    next
      case False
      then show ?thesis using Cons.IH [OF _ rest] Cons.prems(1) step CopyEnds x by auto
    qed
  next
    case (Accepted ok)
    then have "rs1 = rs @ [\<lparr>rl_open = ok, rl_conn = new_connection\<rparr>]" using step by simp
    then show ?thesis using Cons.IH [OF _ rest] Cons.prems(1) Accepted by (simp add: x nth_append)
  next
    case (AcceptFails d)
    then show ?thesis using Cons.IH [OF _ rest] Cons.prems(1) step x by simp
  qed
qed (simp add: carried_def)

lemma relay_steps_length:
  "fold (at_time (relay_step parse)) evs (rs, ch) = (rs', ch') \<Longrightarrow>
     length rs' = length rs + length (filter (\<lambda>x. snd x \<in> range Accepted) evs)"
proof (induction evs arbitrary: rs ch)
  case (Cons x evs)
  obtain rs1 ch1 where step: "at_time (relay_step parse) x (rs, ch) = (rs1, ch1)" by fastforce
  then have "length rs1 = length rs + (if snd x \<in> range Accepted then 1 else 0)"
    by (cases "snd x") (auto simp: at_time_def split: if_splits prod.splits)
  with Cons.IH [of rs1 ch1] Cons.prems step show ?case by simp
qed simp

lemma accept_loop_fold:
  "AcceptFails True \<notin> snd ` set evs \<Longrightarrow>
     accept_loop parse (evs @ tail) st = accept_loop parse tail (fold (at_time (relay_step parse)) evs st)"
  by (induction evs arbitrary: st) auto


section \<open>Where the proxy forwards to\<close>

text \<open>
  The proxy forwards to its target: scheme and host are those of the target, the path of the
  request is appended to the target's with exactly one slash between them, and the queries are
  joined with an ampersand when both are present.
\<close>

theorem proxy_forwards:
  assumes "HasPrefix (u_path u) ''/''" "to = rewriteRequestURL target u"
  shows "u_scheme to = u_scheme target \<and> u_host to = u_host target \<and>
    (\<exists>base. base @ (if HasSuffix (u_path target) ''/'' then ''/'' else []) = u_path target \<and>
       u_path to = base @ u_path u) \<and>
    u_rawQuery to = (if u_rawQuery target = [] then u_rawQuery u
      else if u_rawQuery u = [] then u_rawQuery target else u_rawQuery target @ ''&'' @ u_rawQuery u)"
proof -
  obtain p where p: "u_path u = CHR ''/'' # p"
    using assms(1) by (cases "u_path u") (auto simp: HasPrefix_def)
  have suf: "\<exists>base. u_path target = base @ ''/''" if "HasSuffix (u_path target) ''/''"
    using that append_take_drop_id [of "length (u_path target) - 1" "u_path target"]
    by (intro exI [of _ "take (length (u_path target) - 1) (u_path target)"]) (simp add: HasSuffix_def)
  show ?thesis
    using suf by (auto simp: assms(2) rewriteRequestURL_def singleJoiningSlash_def p HasPrefix_def)
qed

section \<open>Examples\<close>

lemma transports_report_typed_witness:
  "\<exists>tr. list_all (report_ok tr) (chan_items (snd (fst (Stdio_Start ParseJSONRPC False (\<lambda>c. None) ''server''
     [(5, StderrLine ''started'')] (make_chan 2)))))"
  using transports_report_typed [of "make_chan 2" "snd (fst (Stdio_Start ParseJSONRPC False (\<lambda>c. None)
      ''server'' [(5, StderrLine ''started'')] (make_chan 2)))" False "\<lambda>c. None" "''server''" "[(5, StderrLine ''started'')]"]
  by (simp add: make_chan_def) blast

text \<open>The second probe cannot be attached.\<close>

definition example_fails :: "ebpf_call \<Rightarrow> bytes option" where
  "example_fails c = (if c = Tracepoint ''sys_enter_read'' then Some ''permission denied'' else None)"


lemma ebpf_loop_ends_witness:
  "\<exists>c. ebpf_loop ParseJSONRPC [(5, PerfLost), (6, PerfSample ''short''), (7, PerfClosed)] (new_streams, make_chan 2) = Returns c"
  using ebpf_loop_ends [of "[(5, PerfLost), (6, PerfSample ''short'')]" ParseJSONRPC 7 "[]" "(new_streams, make_chan 2)"]
  by (simp add: sample_fits_def decode_event_def)

lemma stdio_start_order_witness:
  "fst (Stdio_Start ParseJSONRPC False (\<lambda>c. if c = WaitCommand then Some ''exit status 1'' else None)
     ''node server.js'' [] (make_chan 2)) = (Returned (Some ''exit status 1''), make_chan 2)"
proof -
  let ?fails = "\<lambda>c. if c = WaitCommand then Some ''exit status 1'' else None"
  obtain r ch' calls where s: "Stdio_Start ParseJSONRPC False ?fails ''node server.js'' [] (make_chan 2) =
      ((r, ch'), calls)" by (metis prod_cases3 surj_pair)
  from stdio_start_order [OF this] s show ?thesis by (simp add: stdio_steps_def Let_def)
qed


lemma proxy_forwards_witness:
  "u_path (rewriteRequestURL \<lparr>u_scheme = ''http'', u_host = ''h'', u_path = ''/mcp/'', u_rawQuery = []\<rparr>
     \<lparr>u_scheme = [], u_host = [], u_path = ''/mcp'', u_rawQuery = []\<rparr>) = ''/mcp/mcp''"
  using proxy_forwards [OF _ refl, of "\<lparr>u_scheme = [], u_host = [], u_path = ''/mcp'', u_rawQuery = []\<rparr>"
      "\<lparr>u_scheme = ''http'', u_host = ''h'', u_path = ''/mcp/'', u_rawQuery = []\<rparr>"]
  by (auto simp: HasPrefix_def HasSuffix_def)

end
