(* ===== verification/Transport_Loader.thy ===== *)
theory Transport_Loader
  imports Transport_Lifecycle
begin

text \<open>
  The loader that \<open>bpf2go\<close> generates for the kernel programs, \<open>tracer_bpfel.go\<close>: it loads the
  embedded object file, fills the struct of programs and maps, and closes them. The file
  \<open>tracer_bpfeb.go\<close> for big-endian machines is the same text with another embedded object.

  The library \<open>cilium/ebpf\<close> reads object files, creates kernel objects and closes them; the loader
  is a function of these operations, and the locale \<open>ebpf_library\<close> states what they promise.
\<close>

section \<open>The structs\<close>

record 'h tracerPrograms =
  TraceReadEnter :: 'h
  TraceReadExit :: 'h
  TraceWrite :: 'h

record 'h tracerMaps =
  ConfigPid :: 'h
  EventBufMap :: 'h
  Events :: 'h
  ReadArgs :: 'h

record 'h tracerObjects =
  tracer_programs :: "'h tracerPrograms"
  tracer_maps :: "'h tracerMaps"

text \<open>The \<open>ebpf\<close> tags of the fields: the names of the programs and maps in \<open>tracer.c\<close>.\<close>

definition program_tags :: "bytes list" where
  "program_tags = [''trace_read_enter'', ''trace_read_exit'', ''trace_write'']"

definition map_tags :: "bytes list" where
  "map_tags = [''config_pid'', ''event_buf_map'', ''events'', ''read_args'']"

definition assign_programs :: "(bytes \<Rightarrow> 'h) \<Rightarrow> 'h tracerPrograms" where
  "assign_programs get =
     \<lparr>TraceReadEnter = get ''trace_read_enter'', TraceReadExit = get ''trace_read_exit'',
      TraceWrite = get ''trace_write''\<rparr>"

definition assign_maps :: "(bytes \<Rightarrow> 'h) \<Rightarrow> 'h tracerMaps" where
  "assign_maps get =
     \<lparr>ConfigPid = get ''config_pid'', EventBufMap = get ''event_buf_map'', Events = get ''events'',
      ReadArgs = get ''read_args''\<rparr>"

definition assign_objects :: "(bytes \<Rightarrow> 'h) \<Rightarrow> 'h tracerObjects" where
  "assign_objects get = \<lparr>tracer_programs = assign_programs get, tracer_maps = assign_maps get\<rparr>"

section \<open>Closing\<close>

text \<open>An \<open>io.Closer\<close>: the error of its \<open>Close\<close> and what that does to the kernel.\<close>

type_synonym 'k closer = "'k \<Rightarrow> bytes option \<times> 'k"

fun TracerClose :: "'k closer list \<Rightarrow> 'k closer" where
  "TracerClose [] k = (None, k)"
| "TracerClose (closer # closers) k =
     (case closer k of (Some err, k') \<Rightarrow> (Some err, k') | (None, k') \<Rightarrow> TracerClose closers k')"

definition ProgramsClose :: "('h \<Rightarrow> 'k closer) \<Rightarrow> 'h tracerPrograms \<Rightarrow> 'k closer" where
  "ProgramsClose close p = TracerClose
     [close (TraceReadEnter p), close (TraceReadExit p), close (TraceWrite p)]"

definition MapsClose :: "('h \<Rightarrow> 'k closer) \<Rightarrow> 'h tracerMaps \<Rightarrow> 'k closer" where
  "MapsClose close m = TracerClose
     [close (ConfigPid m), close (EventBufMap m), close (Events m), close (ReadArgs m)]"

definition ObjectsClose :: "('h \<Rightarrow> 'k closer) \<Rightarrow> 'h tracerObjects \<Rightarrow> 'k closer" where
  "ObjectsClose close objs = TracerClose
     [ProgramsClose close (tracer_programs objs), MapsClose close (tracer_maps objs)]"

section \<open>Loading\<close>

text \<open>
  \<open>LoadCollectionSpecFromReader\<close> reads an object file; \<open>LoadAndAssign\<close> creates the programs and
  maps that the tags of a struct ask for, or fails.
\<close>

record ('spec, 'h, 'k) ebpf_lib =
  lib_spec :: "bytes \<Rightarrow> bytes + 'spec"
  lib_load :: "'spec \<Rightarrow> bytes list \<Rightarrow> 'k \<Rightarrow> (bytes + (bytes \<Rightarrow> 'h)) \<times> 'k"
  lib_close :: "'h \<Rightarrow> 'k closer"

definition loadTracer :: "('spec, 'h, 'k) ebpf_lib \<Rightarrow> bytes \<Rightarrow> bytes + 'spec" where
  "loadTracer L TracerBytes =
     (case lib_spec L TracerBytes of
        Inl err \<Rightarrow> Inl (wrap_error (''can'' @ CHR 0x27 # ''t load tracer'') err)
      | Inr spec \<Rightarrow> Inr spec)"

definition loadTracerObjects ::
  "('spec, 'h, 'k) ebpf_lib \<Rightarrow> bytes \<Rightarrow> 'k \<Rightarrow> (bytes + 'h tracerObjects) \<times> 'k" where
  "loadTracerObjects L TracerBytes k =
     (case loadTracer L TracerBytes of
        Inl err \<Rightarrow> (Inl err, k)
      | Inr spec \<Rightarrow>
          (case lib_load L spec (program_tags @ map_tags) k of
             (Inl err, k') \<Rightarrow> (Inl err, k')
           | (Inr get, k') \<Rightarrow> (Inr (assign_objects get), k')))"

text \<open>The objects in the order in which they are closed.\<close>

definition handles :: "'h tracerObjects \<Rightarrow> 'h list" where
  "handles objs =
     [TraceReadEnter (tracer_programs objs), TraceReadExit (tracer_programs objs),
      TraceWrite (tracer_programs objs), ConfigPid (tracer_maps objs), EventBufMap (tracer_maps objs),
      Events (tracer_maps objs), ReadArgs (tracer_maps objs)]"

lemma TracerClose_append:
  "TracerClose (cs @ ds) k =
     (case TracerClose cs k of (Some err, k') \<Rightarrow> (Some err, k') | (None, k') \<Rightarrow> TracerClose ds k')"
  by (induction cs arbitrary: k) (auto split: prod.splits option.splits)

lemma TracerClose_nested:
  "TracerClose [TracerClose cs, TracerClose ds] = TracerClose (cs @ ds)"
  by (rule ext) (auto simp: TracerClose_append split: prod.splits option.splits)

text \<open>The nested \<open>Close\<close> methods are one walk over the seven objects.\<close>

lemma ObjectsClose_handles: "ObjectsClose close objs = TracerClose (map close (handles objs))"
  unfolding ObjectsClose_def ProgramsClose_def MapsClose_def TracerClose_nested
  by (simp add: handles_def)

lemma handles_assign: "handles (assign_objects get) = map get (program_tags @ map_tags)"
  by (simp add: handles_def assign_objects_def assign_programs_def assign_maps_def program_tags_def map_tags_def)

section \<open>What the library promises\<close>

text \<open>
  \<open>opened\<close> gives the objects that are open. Loading opens one object per tag, or none; closing
  closes the object or fails, and touches no other.
\<close>

locale ebpf_library =
  fixes L :: "('spec, 'h, 'k) ebpf_lib"
    and opened :: "'k \<Rightarrow> 'h set"
  assumes load_ok: "lib_load L spec tags k = (Inr get, k') \<Longrightarrow> distinct tags \<Longrightarrow>
      inj_on get (set tags) \<and> get ` set tags \<inter> opened k = {} \<and> opened k' = opened k \<union> get ` set tags"
    and load_fails: "lib_load L spec tags k = (Inl err, k') \<Longrightarrow> opened k' = opened k"
    and close_ok: "lib_close L h k = (None, k') \<Longrightarrow> opened k' = opened k - {h}"
    and close_fails: "lib_close L h k = (Some err, k') \<Longrightarrow> opened k - {h} \<subseteq> opened k' \<and> opened k' \<subseteq> opened k"
begin

lemma TracerClose_ok:
  "TracerClose (map (lib_close L) hs) k = (None, k') \<Longrightarrow> opened k' = opened k - set hs"
  by (induction hs arbitrary: k) (auto dest: close_ok split: prod.splits option.splits)

lemma TracerClose_fails:
  "TracerClose (map (lib_close L) hs) k = (Some err, k') \<Longrightarrow>
     \<exists>before h after. hs = before @ h # after \<and> opened k - set before - {h} \<subseteq> opened k' \<and>
       opened k' \<subseteq> opened k - set before"
proof (induction hs arbitrary: k)
  case (Cons h hs)
  obtain r k1 where c: "lib_close L h k = (r, k1)" by fastforce
  show ?case
  proof (cases r)
    case None
    with Cons.prems c have "TracerClose (map (lib_close L) hs) k1 = (Some err, k')" by simp
    from Cons.IH [OF this] obtain before h' after where
      "hs = before @ h' # after" "opened k1 - set before - {h'} \<subseteq> opened k'" "opened k' \<subseteq> opened k1 - set before"
      by blast
    moreover have "opened k1 = opened k - {h}" using close_ok c None by blast
    ultimately show ?thesis by (intro exI [of _ "h # before"] exI [of _ h'] exI [of _ after]) auto
  next
    case (Some e)
    with Cons.prems c have "k' = k1" by simp
    with close_fails [OF c [unfolded Some]] show ?thesis
      by (intro exI [of _ "[]"] exI [of _ h] exI [of _ hs]) simp
  qed
qed simp

lemma tags_distinct: "distinct (program_tags @ map_tags)"
  by code_simp

lemma loadTracerObjects_ok:
  assumes "loadTracerObjects L elf k = (Inr objs, k')"
  shows "distinct (handles objs) \<and> set (handles objs) \<inter> opened k = {} \<and>
    opened k' = opened k \<union> set (handles objs)"
proof -
  obtain spec get where g: "lib_load L spec (program_tags @ map_tags) k = (Inr get, k')" "objs = assign_objects get"
    using assms by (auto simp: loadTracerObjects_def split: sum.splits prod.splits)
  show ?thesis
    using load_ok [OF g(1) tags_distinct] tags_distinct
    unfolding g(2) handles_assign distinct_map set_map by blast
qed

lemma loadTracerObjects_fails:
  "loadTracerObjects L elf k = (Inl err, k') \<Longrightarrow> opened k' = opened k"
  by (auto simp: loadTracerObjects_def dest: load_fails split: sum.splits prod.splits)

text \<open>Closing what was loaded restores the kernel, or stops at an object and keeps the later ones.\<close>

lemma close_loaded:
  assumes "loadTracerObjects L elf k = (Inr objs, k1)" "ObjectsClose (lib_close L) objs k1 = (r, k2)"
  shows "case r of
      None \<Rightarrow> opened k2 = opened k
    | Some err \<Rightarrow> \<exists>before h after. handles objs = before @ h # after \<and>
        opened k \<union> set after \<subseteq> opened k2 \<and> opened k2 \<subseteq> opened k \<union> {h} \<union> set after"
proof -
  note load = loadTracerObjects_ok [OF assms(1)]
  show ?thesis
  proof (cases r)
    case None
    with TracerClose_ok assms(2) have "opened k2 = opened k1 - set (handles objs)"
      by (simp add: ObjectsClose_handles)
    with load None show ?thesis by auto
  next
    case (Some err)
    with TracerClose_fails assms(2) obtain before h after where b: "handles objs = before @ h # after"
      "opened k1 - set before - {h} \<subseteq> opened k2" "opened k2 \<subseteq> opened k1 - set before"
      by (metis ObjectsClose_handles)
    have "opened k \<union> set after \<subseteq> opened k2" "opened k2 \<subseteq> opened k \<union> {h} \<union> set after"
      using load b(2,3) unfolding b(1) by auto
    with b(1) Some show ?thesis by auto
  qed
qed

end

section \<open>A kernel\<close>

text \<open>
  Objects are numbered as they are created; loading fails for lack of privileges, and the objects
  in \<open>k_stuck\<close> cannot be closed.
\<close>

record kernel =
  k_next :: nat
  k_open :: "nat set"
  k_stuck :: "nat set"
  k_privileged :: bool

fun position :: "bytes list \<Rightarrow> bytes \<Rightarrow> nat" where
  "position [] t = 0"
| "position (u # us) t = (if t = u then 0 else Suc (position us t))"

definition kernel_lib :: "(bytes, nat, kernel) ebpf_lib" where
  "kernel_lib =
     \<lparr>lib_spec = (\<lambda>elf. if elf = [] then Inl ''EOF'' else Inr elf),
      lib_load = (\<lambda>spec tags k.
        if k_privileged k then
          (Inr (\<lambda>t. k_next k + position tags t),
           k\<lparr>k_next := k_next k + length tags, k_open := k_open k \<union> {k_next k..<k_next k + length tags}\<rparr>)
        else (Inl ''operation not permitted'', k)),
      lib_close = (\<lambda>h k. if h \<in> k_stuck k then (Some ''bad file descriptor'', k)
        else (None, k\<lparr>k_open := k_open k - {h}\<rparr>))\<rparr>"

definition live_objects :: "kernel \<Rightarrow> nat set" where
  "live_objects k = {h \<in> k_open k. h < k_next k}"

lemma position_less: "t \<in> set ts \<Longrightarrow> position ts t < length ts"
  by (induction ts) auto

lemma position_inj: "inj_on (position ts) (set ts)"
  by (induction ts) (auto simp: inj_on_def)

lemma position_onto: "distinct ts \<Longrightarrow> position ts ` set ts = {0..<length ts}"
proof -
  assume "distinct ts"
  then have "card (position ts ` set ts) = card {0..<length ts}"
    by (simp add: card_image [OF position_inj] distinct_card)
  then show ?thesis by (intro card_subset_eq) (auto dest: position_less)
qed

interpretation linux: ebpf_library kernel_lib live_objects
proof
  fix spec tags and k k' :: kernel and get
  assume l: "lib_load kernel_lib spec tags k = (Inr get, k')" and d: "distinct tags"
  then have g: "get = (\<lambda>t. k_next k + position tags t)"
    "k' = k\<lparr>k_next := k_next k + length tags, k_open := k_open k \<union> {k_next k..<k_next k + length tags}\<rparr>"
    by (auto simp: kernel_lib_def split: if_splits)
  have "get ` set tags = (\<lambda>n. k_next k + n) ` (position tags ` set tags)"
    by (simp add: g(1) image_image)
  also have "\<dots> = {k_next k..<k_next k + length tags}"
    by (simp add: position_onto [OF d] image_add_atLeastLessThan add.commute)
  finally have onto: "get ` set tags = {k_next k..<k_next k + length tags}" .
  have "inj_on get (set tags)" using position_inj [of tags] by (simp add: g(1) inj_on_def)
  moreover have "live_objects k' = live_objects k \<union> get ` set tags"
  proof (rule set_eqI)
    fix h
    show "h \<in> live_objects k' \<longleftrightarrow> h \<in> live_objects k \<union> get ` set tags"
      unfolding onto by (cases "h < k_next k"; cases "h \<in> k_open k") (auto simp: live_objects_def g(2))
  qed
  moreover have "get ` set tags \<inter> live_objects k = {}"
    unfolding onto by (auto simp: live_objects_def)
  ultimately show "inj_on get (set tags) \<and> get ` set tags \<inter> live_objects k = {} \<and>
      live_objects k' = live_objects k \<union> get ` set tags"
    by blast
next
  fix spec tags err and k k' :: kernel
  assume "lib_load kernel_lib spec tags k = (Inl err, k')"
  then show "live_objects k' = live_objects k" by (simp add: kernel_lib_def split: if_splits)
next
  fix h and k k' :: kernel
  assume "lib_close kernel_lib h k = (None, k')"
  then have "k' = k\<lparr>k_open := k_open k - {h}\<rparr>" by (simp add: kernel_lib_def split: if_splits)
  then show "live_objects k' = live_objects k - {h}" by (auto simp: live_objects_def)
next
  fix h err and k k' :: kernel
  assume "lib_close kernel_lib h k = (Some err, k')"
  then show "live_objects k - {h} \<subseteq> live_objects k' \<and> live_objects k' \<subseteq> live_objects k"
    by (auto simp: kernel_lib_def split: if_splits)
qed

section \<open>The transport and its objects\<close>

text \<open>
  C20. Nothing the eBPF transport loads into the kernel outlives it: when loading fails, \<open>Start\<close>
  returns that error having done nothing else, and the kernel is as before; otherwise closing
  the programs and maps is the last thing \<open>Start\<close> does, however it ends, and a close without
  error leaves the kernel as before. But \<open>_TracerClose\<close> stops at the first object that
  cannot be closed: those behind it stay open, and \<open>Start\<close> does not look at the error.
\<close>

theorem tracer_objects_released:
  assumes "ebpf_library L opened" "loadTracerObjects L elf k = (loaded, k1)"
    and "fails LoadTracerObjects = (case loaded of Inl e \<Rightarrow> Some e | Inr objs \<Rightarrow> None)"
    and "EBPF_Start parse fails pid reads ch = ((r, ch'), calls)" "r \<noteq> Running"
  shows "case loaded of
      Inl e \<Rightarrow> r = Returned (Some (''loading objects: '' @ e)) \<and> calls = [LoadTracerObjects] \<and> opened k1 = opened k
    | Inr objs \<Rightarrow> last calls = ObjsClose \<and>
        (case ObjectsClose (lib_close L) objs k1 of
           (None, k2) \<Rightarrow> opened k2 = opened k
         | (Some err, k2) \<Rightarrow> \<exists>before h after. handles objs = before @ h # after \<and>
             opened k \<union> set after \<subseteq> opened k2 \<and> opened k2 \<subseteq> opened k \<union> {h} \<union> set after)"
proof (cases loaded)
  case (Inl e)
  with assms(3,4) ebpf_library.loadTracerObjects_fails [OF assms(1) assms(2) [unfolded Inl]] show ?thesis
    by (simp add: EBPF_Start_def body_simps return_error_def wrap_error_def)
next
  case (Inr objs)
  then have ok: "fails LoadTracerObjects = None" using assms(3) by simp
  have "last calls = ObjsClose"
    using assms(4,5) ok
    by (auto simp: EBPF_Start_def body_simps return_error_def split: option.splits loop_result.splits prod.splits)
  moreover obtain r2 k2 where c: "ObjectsClose (lib_close L) objs k1 = (r2, k2)" by fastforce
  ultimately show ?thesis
    using ebpf_library.close_loaded [OF assms(1) assms(2) [unfolded Inr] c] by (simp add: Inr split: option.splits)
qed

section \<open>Big-endian machines\<close>

text \<open>The build constraints of the two files.\<close>

definition big_endian :: "bytes \<Rightarrow> bool" where
  "big_endian arch \<longleftrightarrow> arch \<in> set [''mips'', ''mips64'', ''ppc64'', ''s390x'']"

definition little_endian :: "bytes \<Rightarrow> bool" where
  "little_endian arch \<longleftrightarrow> arch \<in> set [''386'', ''amd64'', ''arm'', ''arm64'', ''loong64'',
     ''mips64le'', ''mipsle'', ''ppc64le'', ''riscv64'', ''wasm'']"

text \<open>\<open>tracerDataEvent\<close> in the byte order of the machine, as the kernel programs write it.\<close>

definition native_event :: "bytes \<Rightarrow> data_event \<Rightarrow> bytes" where
  "native_event arch e =
     (let w = (\<lambda>x :: 32 word. map (\<lambda>i. char_of (uint x div 256 ^ i)) (if big_endian arch then [3, 2, 1, 0] else [0, 1, 2, 3]))
      in w (ev_fd e) @ w (ev_size e) @ ev_payload e)"

lemma one_loader: "\<not> (big_endian arch \<and> little_endian arch)"
  by (auto simp: big_endian_def little_endian_def)

lemma native_little: "little_endian arch \<Longrightarrow> native_event arch e = encode_event e"
  using one_loader [of arch] by (simp add: native_event_def encode_event_def)

lemma swapped_size:
  assumes "0 < n" "n < (4096 :: int)"
  shows "4096 < le32 (map (\<lambda>i. char_of (n div 256 ^ i)) [3, 2, 1, 0])"
proof -
  have "n div 65536 = 0" "n div 16777216 = 0" "n div 256 < 16" "n = 256 * (n div 256) + n mod 256"
    using assms by simp_all
  moreover have "0 < n div 256 \<or> 0 < n mod 256" using assms calculation(4) by (cases "n div 256 = 0") auto
  ultimately show ?thesis
    using assms by (auto simp: le32_def of_char_of take_bit_eq_mod)
qed

text \<open>
  The receive loop reads the event as little-endian on every machine. On a big-endian one the
  size of any event with a payload is out of range, and the slice panics.
\<close>

theorem big_endian_panics:
  assumes "big_endian arch" "memory_ok user" "length (ev_payload e) = 4096" "unat count mod 4096 \<noteq> 0"
  shows "ebpf_iteration parse now (PerfSample (native_event arch (fill_event fd count buf user e))) (s, ch) = Panics ch"
proof -
  let ?e = "fill_event fd count buf user e"
  have "0 < uint (ev_size ?e)" "uint (ev_size ?e) < 4096"
    using assms(4) mod_less_divisor [of 4096 "unat count"] by (simp_all add: fill_event_fields)
  from swapped_size [OF this] have big: "4096 < le32 (map (\<lambda>i. char_of (uint (ev_size ?e) div 256 ^ i)) [3, 2, 1, 0])" .
  have "decode_event (native_event arch ?e) =
      Some (le32 (map (\<lambda>i. char_of (uint (ev_fd ?e) div 256 ^ i)) [3, 2, 1, 0]),
        le32 (map (\<lambda>i. char_of (uint (ev_size ?e) div 256 ^ i)) [3, 2, 1, 0]), ev_payload ?e)"
    using fill_event_length [OF assms(2,3), of fd count buf] assms(1)
    by (simp add: decode_event_def native_event_def Let_def)
  with big show ?thesis by (simp add: ebpf_iteration_def)
qed

section \<open>Examples\<close>

definition example_kernel :: kernel where
  "example_kernel = \<lparr>k_next = 5, k_open = {3}, k_stuck = {7}, k_privileged = True\<rparr>"

text \<open>The third program cannot be closed: all four maps stay open.\<close>

lemma tracer_objects_released_witness:
  "\<exists>objs k1 k2 err. loadTracerObjects kernel_lib ''ELF'' example_kernel = (Inr objs, k1) \<and>
     last (snd (EBPF_Start ParseJSONRPC (\<lambda>c. None) 42 [(5, PerfClosed)] (make_chan 2))) = ObjsClose \<and>
     ObjectsClose (lib_close kernel_lib) objs k1 = (Some err, k2) \<and>
     (\<exists>before h after. handles objs = before @ h # after \<and> live_objects example_kernel \<union> set after \<subseteq> live_objects k2)"
proof -
  obtain objs k1 where load: "loadTracerObjects kernel_lib ''ELF'' example_kernel = (Inr objs, k1)"
    by (simp add: loadTracerObjects_def loadTracer_def kernel_lib_def example_kernel_def)
  then have objs: "handles objs = [5, 6, 7, 8, 9, 10, 11]" "k_stuck k1 = {7}"
    by (auto simp: loadTracerObjects_def loadTracer_def kernel_lib_def example_kernel_def
        handles_def assign_objects_def assign_programs_def assign_maps_def program_tags_def map_tags_def)
  obtain r k2 where close: "ObjectsClose (lib_close kernel_lib) objs k1 = (r, k2)" by fastforce
  then have "r = Some ''bad file descriptor''"
    unfolding ObjectsClose_handles objs(1) using objs(2) by (auto simp: kernel_lib_def)
  obtain e ch' calls where s: "EBPF_Start ParseJSONRPC (\<lambda>c. None) 42 [(5, PerfClosed)] (make_chan 2) = ((e, ch'), calls)"
    by (metis prod_cases3 surj_pair)
  then have "e \<noteq> Running"
    by (auto simp: EBPF_Start_def body_simps ebpf_iteration_def)
  from tracer_objects_released [OF linux.ebpf_library_axioms load, where fails = "\<lambda>c. None", OF _ s this]
  have "last calls = ObjsClose" "\<exists>before h after. handles objs = before @ h # after \<and>
      live_objects example_kernel \<union> set after \<subseteq> live_objects k2"
    using close \<open>r = _\<close> by (simp_all, blast)
  with load close \<open>r = _\<close> s show ?thesis
    by (intro exI [of _ objs] exI [of _ k1] exI [of _ k2] exI [of _ "''bad file descriptor''"]) simp
qed

lemma big_endian_panics_witness:
  "ebpf_iteration ParseJSONRPC 5 (PerfSample (native_event ''s390x''
     (fill_event 1 2 0 (\<lambda>a n. replicate n (CHR ''x'')) \<lparr>ev_fd = 0, ev_size = 0, ev_payload = replicate 4096 (CHR ''0'')\<rparr>)))
     (new_streams, make_chan 1) = Panics (make_chan 1)"
  by (rule big_endian_panics) (simp_all add: big_endian_def memory_ok_def)

end
