(* ===== verification/Go_JSON_Struct.thy ===== *)
theory Go_JSON_Struct
  imports Go_JSON_Roundtrip
begin

text \<open>
  \<open>json.Unmarshal\<close> into a struct: the members of an object in the order of the text, each
  matched with a field by name and assigned according to the type of the field. The lemmas
  read back an object that was written field by field.
\<close>

section \<open>Decoding\<close>

text \<open>
  \<open>json.Unmarshal\<close> into a struct looks at the literal of a number: only digits after an optional
  sign make an integer. The members of the top-level object, each with its decoded value and
  its own text:
\<close>

function member_texts :: "bytes \<Rightarrow> (bytes \<times> json \<times> bytes) list" where
  "member_texts s =
     (case skip_ws s of
        [] \<Rightarrow> []
      | c # t \<Rightarrow>
          (case scan_string t of
             None \<Rightarrow> []
           | Some (k, r) \<Rightarrow>
               (let v = skip_ws (drop 1 (skip_ws r)) in
                case pvalue True max_nesting v of
                  None \<Rightarrow> []
                | Some (x, r') \<Rightarrow>
                    (k, x, take (length v - length r') v) #
                    (case skip_ws r' of
                       [] \<Rightarrow> []
                     | c' # r'' \<Rightarrow>
                         if c' = CHR '','' \<and> length r'' < length s then member_texts r'' else []))))"
  by pat_completeness auto
termination
  by (relation "measure length") auto

declare member_texts.simps [simp del]

definition parse_int64 :: "bytes \<Rightarrow> int option" where
  "parse_int64 lit =
     (let (neg, ds) = scan_sign lit in
      if ds \<noteq> [] \<and> list_all is_digit ds \<and> int64_range (signed neg (digits_val ds))
      then Some (signed neg (digits_val ds)) else None)"

text \<open>
  Field names match up to case. Beside the ASCII letters the long s and the Kelvin sign fold to
  a letter of the names.
\<close>

fun fold_name :: "bytes \<Rightarrow> bytes" where
  "fold_name [] = []"
| "fold_name (c # t) =
     (if c = CHR 0xC5 \<and> take 1 t = [CHR 0xBF] then CHR ''s'' # fold_name (drop 1 t)
      else if c = CHR 0xE2 \<and> take 2 t = [CHR 0x84, CHR 0xAA] then CHR ''k'' # fold_name (drop 2 t)
      else ascii_lower c # fold_name t)"

text \<open>The struct being filled, and whether a type error was recorded.\<close>

type_synonym 'a filling = "'a \<times> bool"

definition string_field :: "(bytes \<Rightarrow> 'a \<Rightarrow> 'a) \<Rightarrow> json \<Rightarrow> 'a filling \<Rightarrow> 'a filling" where
  "string_field put v st =
     (case v of JStr s \<Rightarrow> (put s (fst st), snd st) | JNull \<Rightarrow> st | _ \<Rightarrow> (fst st, True))"

definition bool_field :: "(bool \<Rightarrow> 'a \<Rightarrow> 'a) \<Rightarrow> json \<Rightarrow> 'a filling \<Rightarrow> 'a filling" where
  "bool_field put v st =
     (case v of JBool b \<Rightarrow> (put b (fst st), snd st) | JNull \<Rightarrow> st | _ \<Rightarrow> (fst st, True))"

definition int_field :: "(int \<Rightarrow> 'a \<Rightarrow> 'a) \<Rightarrow> json \<Rightarrow> bytes \<Rightarrow> 'a filling \<Rightarrow> 'a filling" where
  "int_field put v lit st =
     (case v of
        JNum f \<Rightarrow> (case parse_int64 lit of Some i \<Rightarrow> (put i (fst st), snd st) | None \<Rightarrow> (fst st, True))
      | JNull \<Rightarrow> st
      | _ \<Rightarrow> (fst st, True))"

definition float_field :: "(float64 \<Rightarrow> 'a \<Rightarrow> 'a) \<Rightarrow> json \<Rightarrow> 'a filling \<Rightarrow> 'a filling" where
  "float_field put v st =
     (case v of
        JNum f \<Rightarrow> (case f of Fin sg m e \<Rightarrow> (put f (fst st), snd st) | _ \<Rightarrow> (fst st, True))
      | JNull \<Rightarrow> st
      | _ \<Rightarrow> (fst st, True))"

text \<open>\<open>json.Unmarshal(data, &v)\<close> for a struct \<open>v\<close> with the value \<open>zero\<close>; \<open>field\<close> assigns one member.\<close>

definition unmarshal_struct ::
  "(bytes \<times> json \<times> bytes \<Rightarrow> 'a filling \<Rightarrow> 'a filling) \<Rightarrow> 'a \<Rightarrow> bytes \<Rightarrow> 'a option"
where
  "unmarshal_struct field zero data =
     (case unmarshal True data of
        Some (JObj members) \<Rightarrow>
          (if members = [] then Some zero
           else let (v, err) = fold field (member_texts (drop 1 (skip_ws data))) (zero, False)
                in if err then None else Some v)
      | Some JNull \<Rightarrow> Some zero
      | _ \<Rightarrow> None)"

section \<open>Encoding\<close>

text \<open>A struct is written field by field, each under the name of its tag.\<close>

definition quote :: "bytes \<Rightarrow> bytes" where
  "quote s = dquote # s @ [dquote]"

definition struct_text :: "(bytes \<times> bytes) list \<Rightarrow> bytes" where
  "struct_text fs = lbrace # commas (map (\<lambda>(k, v). quote k @ CHR '':'' # v) fs) @ [rbrace]"

section \<open>Reading back\<close>

text \<open>A key of plain characters needs no escape, and is read as it is.\<close>

definition plain_byte :: "char \<Rightarrow> bool" where
  "plain_byte c \<longleftrightarrow> c \<noteq> dquote \<and> c \<noteq> bslash \<and> (32 :: int) \<le> of_char c \<and> ascii c"

lemma scan_string_plain_key:
  "list_all plain_byte k \<Longrightarrow> scan_string (k @ dquote # r) = Some (k, r)"
proof (induction k)
  case Nil
  show ?case by (simp add: scan_string.simps)
next
  case (Cons c k)
  then have "scan_string ([c] @ k @ dquote # r) = prepend [c] (scan_string (k @ dquote # r))"
    by (intro scan_string_plain) (auto simp: plain_byte_def rune_len_ascii)
  with Cons show ?case by (simp add: prepend_Some)
qed

text \<open>Whatever bytes a string holds, its text is read back as their valid UTF-8.\<close>

lemma scan_escaped_any: "scan_string (escape_string s @ dquote # r) = Some (to_valid_utf8 s, r)"
proof (induction s rule: to_valid_utf8.induct)
  case (1 s)
  consider "s = []" | "s \<noteq> []" "rune_len s = 0" | "0 < rune_len s" by auto
  then show ?case
  proof cases
    case 1
    then show ?thesis by (simp add: escape_string.simps scan_string.simps to_valid_utf8.simps)
  next
    case 2
    let ?x = "escape_string (drop 1 s) @ dquote # r"
    have "char_of (239 :: int) = CHR 0xEF" "char_of (191 :: int) = CHR 0xBF"
      "char_of (189 :: int) = CHR 0xBD" by code_simp+
    then have "unescape (bslash # ''ufffd'' @ ?x) = Some (replacement_rune, 6)"
      by (simp add: unescape_def unescape_u_def getu4_def hex_val_def is_surrogate_def
          encode_rune_def replacement_rune_def)
    then have "scan_string (bslash # ''ufffd'' @ ?x) = prepend replacement_rune (scan_string ?x)"
      by (subst scan_string_escaped) auto
    with 2 1 show ?thesis
      by (subst escape_string.simps, subst to_valid_utf8.simps) (simp add: prepend_Some)
  next
    case 3
    have "s \<noteq> []" using 3 by auto
    let ?u = "take (rune_len s) s"
    have u: "0 < rune_len ?u" "rune_len ?u = length ?u"
      using 3 rune_len_take [of s] rune_len_le [of s] by simp_all
    have "scan_string (escape_rune ?u @ escape_string (drop (rune_len s) s) @ dquote # r) =
        prepend ?u (scan_string (escape_string (drop (rune_len s) s) @ dquote # r))"
      by (rule scan_string_rune [OF u])
    with 3 1 \<open>s \<noteq> []\<close> show ?thesis
      by (subst escape_string.simps, subst to_valid_utf8.simps) (simp add: prepend_Some)
  qed
qed

text \<open>The text of a field's value: a JSON value that ends where a comma or a brace follows.\<close>

definition literal :: "bytes \<Rightarrow> json \<Rightarrow> bool" where
  "literal t v \<longleftrightarrow> t \<noteq> [] \<and> \<not> is_ws (hd t) \<and>
     (\<forall>d r. number_ends r \<longrightarrow> pvalue True d (t @ r) = Some (v, r))"

lemma literal_reads: "literal t v \<Longrightarrow> number_ends r \<Longrightarrow> pvalue True d (t @ r) = Some (v, r)"
  by (simp add: literal_def)

lemma literal_skip: "literal t v \<Longrightarrow> skip_ws (t @ r) = t @ r"
  by (cases t) (auto simp: literal_def skip_ws_Cons)

lemma literal_string: "literal (string_text s) (JStr (to_valid_utf8 s))"
proof -
  have "pvalue True d (string_text s @ r) = Some (JStr (to_valid_utf8 s), r)" for d r
    by (subst pvalue.simps) (simp add: skip_ws_Cons string_text_def scan_escaped_any)
  then show ?thesis by (simp add: literal_def string_text_def)
qed

lemma literal_quote: "list_all plain_byte s \<Longrightarrow> literal (quote s) (JStr s)"
proof -
  assume "list_all plain_byte s"
  then have "pvalue True d (quote s @ r) = Some (JStr s, r)" for d r
    by (subst pvalue.simps) (simp add: skip_ws_Cons quote_def scan_string_plain_key)
  then show ?thesis by (simp add: literal_def quote_def)
qed

lemma pvalue_raw_number:
  assumes "scan_number s = Some (d, r)"
  shows "pvalue True n s = Some (JNum (f64_of_dec d), r)"
proof -
  obtain c t where s: "s = c # t" and c: "c = CHR ''-'' \<or> is_digit c"
    using scan_number_hd [OF assms(1)] by blast
  have "\<not> is_ws c" and ne: "c \<noteq> lbrace" "c \<noteq> lbrack" "c \<noteq> dquote" "c \<noteq> CHR ''t''" "c \<noteq> CHR ''f''" "c \<noteq> CHR ''n''"
    using c by (auto simp: is_ws_def is_digit_def)
  then have ws: "skip_ws s = c # t" unfolding s by (rule_tac skip_ws_Cons)
  have "\<not> HasPrefix (c # t) ''true''" "\<not> HasPrefix (c # t) ''false''" "\<not> HasPrefix (c # t) ''null''"
    using ne by (simp_all add: HasPrefix_def)
  with ne ws assms [unfolded s] show ?thesis
    by (simp add: pvalue.simps [of True n s] split: float64.split)
qed

lemma decimal_first: "0 \<le> n \<Longrightarrow> hd (decimal n) \<noteq> CHR ''0'' \<or> decimal n = ''0''"
proof (cases "n = 0")
  case True
  moreover have "decimal 0 = ''0''" by code_simp
  ultimately show ?thesis by simp
qed (use decimal_hd [of n] in simp)

lemma format_d_sign: "format_d i = sign_text (i < 0) @ decimal \<bar>i\<bar>"
  by (simp add: format_d_def sign_text_def)

lemma literal_int: "\<exists>f. literal (format_d i) (JNum f)"
proof -
  let ?n = "(i < 0, digits_val (decimal \<bar>i\<bar>), 0 :: int)"
  have ds: "\<forall>c\<in>set (decimal \<bar>i\<bar>). is_digit c" by (rule decimal_digits) simp
  have "scan_number (format_d i @ r) = Some (?n, r)" if "number_ends r" for r
    using scan_number_parts [OF ds _ decimal_first _ that, of "[]" "[]" 0 1 "i < 0"]
    by (simp add: format_d_sign)
  then have "pvalue True d (format_d i @ r) = Some (JNum (f64_of_dec ?n), r)" if "number_ends r" for d r
    using that by (intro pvalue_raw_number)
  moreover have "format_d i \<noteq> []" by (simp add: format_d_def)
  moreover have "\<not> is_ws (hd (format_d i))"
    using ds by (cases "decimal \<bar>i\<bar>") (auto simp: format_d_sign sign_text_def is_ws_def is_digit_def)
  ultimately show ?thesis unfolding literal_def by blast
qed

lemma parse_int64_format: "int64_range i \<Longrightarrow> parse_int64 (format_d i) = Some i"
proof -
  assume "int64_range i"
  have ds: "\<forall>c\<in>set (decimal \<bar>i\<bar>). is_digit c" by (rule decimal_digits) simp
  moreover have "hd (decimal \<bar>i\<bar>) \<noteq> CHR ''-''"
    using ds by (cases "decimal \<bar>i\<bar>") (auto simp: is_digit_def)
  ultimately show ?thesis
    using \<open>int64_range i\<close>
    by (auto simp: parse_int64_def format_d_sign scan_sign_text list_all_iff signed_def)
qed

text \<open>An object written field by field is read back field by field.\<close>

type_synonym field_text = "bytes \<times> bytes \<times> json"

definition field_literal :: "field_text \<Rightarrow> bool" where
  "field_literal f \<longleftrightarrow> list_all plain_byte (fst f) \<and> literal (fst (snd f)) (snd (snd f))"

abbreviation member_text :: "field_text \<Rightarrow> bytes" where
  "member_text f \<equiv> quote (fst f) @ CHR '':'' # fst (snd f)"

lemma member_scan:
  assumes "field_literal f" "number_ends r"
  shows "skip_ws (member_text f @ r) = dquote # fst f @ dquote # CHR '':'' # fst (snd f) @ r"
    and "scan_string (fst f @ dquote # CHR '':'' # fst (snd f) @ r) = Some (fst f, CHR '':'' # fst (snd f) @ r)"
    and "skip_ws (CHR '':'' # fst (snd f) @ r) = CHR '':'' # fst (snd f) @ r"
    and "pvalue True d (fst (snd f) @ r) = Some (snd (snd f), r)"
    and "skip_ws (fst (snd f) @ r) = fst (snd f) @ r"
  using assms literal_reads literal_skip
  by (auto simp: field_literal_def quote_def skip_ws_Cons scan_string_plain_key)

lemma pmembers_member:
  assumes "field_literal f" "number_ends r"
  shows "pmembers True d acc (member_text f @ r) =
    (case skip_ws r of [] \<Rightarrow> None
     | c # r' \<Rightarrow> if c = CHR '','' then
           (if length r' < length (member_text f @ r)
            then pmembers True d (acc @ [(fst f, snd (snd f))]) r' else None)
         else if c = rbrace then Some (acc @ [(fst f, snd (snd f))], r') else None)"
proof -
  have l: "length (fst (snd f) @ r) < length (member_text f @ r)" by (simp add: quote_def)
  show ?thesis
    by (subst pmembers.simps)
      (simp only: member_scan [OF assms] l member_put_def list.case option.case prod.case simp_thms
        if_True if_False)
qed

lemma member_texts_member:
  assumes "field_literal f" "number_ends r"
  shows "member_texts (member_text f @ r) =
    (fst f, snd (snd f), fst (snd f)) #
    (case skip_ws r of [] \<Rightarrow> []
     | c # r' \<Rightarrow> if c = CHR '','' \<and> length r' < length (member_text f @ r) then member_texts r' else [])"
  by (subst member_texts.simps)
    (simp only: member_scan [OF assms] Let_def list.case option.case prod.case drop_Suc_Cons drop_0
      One_nat_def length_append add_diff_cancel_right' append_eq_conv_conj take_append diff_self_eq_0
      take_0 append_Nil2 take_all [OF order_refl])

lemma members_read:
  assumes "fs \<noteq> []" "list_all field_literal fs"
  shows "pmembers True d acc (commas (map member_text fs) @ rbrace # r) =
      Some (acc @ map (\<lambda>f. (fst f, snd (snd f))) fs, r) \<and>
    member_texts (commas (map member_text fs) @ rbrace # r) =
      map (\<lambda>f. (fst f, snd (snd f), fst (snd f))) fs"
  using assms
proof (induction fs arbitrary: acc)
  case (Cons f fs)
  then have f: "field_literal f" by simp
  show ?case
  proof (cases "fs = []")
    case True
    then show ?thesis
      using pmembers_member [OF f, of "rbrace # r" d acc] member_texts_member [OF f, of "rbrace # r"]
      by (simp add: skip_ws_Cons)
  next
    case False
    let ?r = "CHR '','' # commas (map member_text fs) @ rbrace # r"
    have "length (commas (map member_text fs) @ rbrace # r) < length (member_text f @ ?r)" by simp
    then show ?thesis
      using pmembers_member [OF f, of ?r d acc] member_texts_member [OF f, of ?r] Cons False
      by (simp add: skip_ws_Cons commas_Cons)
  qed
qed simp

lemma struct_value:
  assumes "fs \<noteq> []" "list_all field_literal fs" "0 < d"
  shows "pvalue True d (lbrace # (commas (map member_text fs) @ [rbrace]) @ r) =
    Some (JObj (map (\<lambda>f. (fst f, snd (snd f))) fs), r)"
proof -
  let ?body = "commas (map member_text fs) @ rbrace # r"
  obtain f fs' where fs: "fs = f # fs'" using assms(1) by (cases fs) auto
  then obtain t where "?body = dquote # t" by (simp add: quote_def commas_Cons)
  then have "?body \<noteq> []" "take 1 (skip_ws ?body) \<noteq> [rbrace]"
    by (simp_all add: skip_ws_Cons)
  then have "pvalue True d (lbrace # ?body) = map_option (\<lambda>(m, r). (JObj m, r)) (pmembers True (d - 1) [] ?body)"
    using assms(3) by (subst pvalue.simps) (simp add: skip_ws_Cons)
  then show ?thesis using members_read [OF assms(1,2), of "d - 1" "[]" r] by simp
qed

theorem unmarshal_struct_text:
  assumes "fs \<noteq> []" "list_all field_literal fs"
  shows "unmarshal_struct field zero (struct_text (map (\<lambda>f. (fst f, fst (snd f))) fs)) =
    (let (v, err) = fold field (map (\<lambda>f. (fst f, snd (snd f), fst (snd f))) fs) (zero, False)
     in if err then None else Some v)"
proof -
  let ?body = "commas (map member_text fs) @ [rbrace]"
  let ?text = "struct_text (map (\<lambda>f. (fst f, fst (snd f))) fs)"
  have shape: "?text = lbrace # ?body" by (simp add: struct_text_def split_def comp_def)
  have "unmarshal True ?text = Some (JObj (map (\<lambda>f. (fst f, snd (snd f))) fs))"
    using struct_value [OF assms, of max_nesting "[]"]
    by (simp add: unmarshal_def shape skip_ws_def max_nesting_def)
  moreover have "drop 1 (skip_ws ?text) = ?body" by (simp add: shape skip_ws_Cons)
  ultimately show ?thesis
    using assms members_read [OF assms, of 0 "[]" "[]"] by (simp add: unmarshal_struct_def)
qed

end
