(* ===== verification/Main_Config.thy ===== *)
theory Main_Config
  imports Engine_Message Go_JSON_Struct
begin

text \<open>
  The configuration part of \<open>main.go\<close>: the command line flags, the JSON configuration file and
  how they are merged, the log level, the choice of the transport, and the credentials of the
  dashboard. What \<open>flag.Parse\<close> made of the command line is an argument: the value of every flag
  and which flags were set. Reading the file is a function from names to contents.
\<close>

section \<open>Configuration\<close>

record Config =
  WrapCmd :: bytes
  ProxyURL :: bytes
  ProxyPort :: bytes
  PID :: int
  DBPath :: bytes
  UIPort :: bytes
  LogLevel :: bytes
  LogJSON :: bool
  AuthUser :: bytes
  AuthPass :: bytes
  TLSCert :: bytes
  TLSKey :: bytes
  AlertWebhook :: bytes
  AlertErrorRate :: float64
  AlertLatency :: int
  AlertWindow :: int
  GCPercent :: int
  SocketLocal :: bytes
  SocketTarget :: bytes

definition float_zero :: float64 where
  "float_zero = Fin False 0 0"

text \<open>The defaults of the flags.\<close>

definition flag_defaults :: Config where
  "flag_defaults =
     \<lparr>WrapCmd = [], ProxyURL = [], ProxyPort = ''8081'', PID = 0, DBPath = ''mcpwatch_data'',
      UIPort = ''8080'', LogLevel = ''info'', LogJSON = False, AuthUser = [], AuthPass = [],
      TLSCert = [], TLSKey = [], AlertWebhook = [], AlertErrorRate = float_zero, AlertLatency = 0,
      AlertWindow = 60, GCPercent = 35, SocketLocal = [], SocketTarget = []\<rparr>"

text \<open>\<open>var fileCfg Config\<close>.\<close>

definition zero_config :: Config where
  "zero_config =
     \<lparr>WrapCmd = [], ProxyURL = [], ProxyPort = [], PID = 0, DBPath = [], UIPort = [],
      LogLevel = [], LogJSON = False, AuthUser = [], AuthPass = [], TLSCert = [], TLSKey = [],
      AlertWebhook = [], AlertErrorRate = float_zero, AlertLatency = 0, AlertWindow = 0,
      GCPercent = 0, SocketLocal = [], SocketTarget = []\<rparr>"

section \<open>Decoding the file into the struct\<close>

definition config_field :: "bytes \<times> json \<times> bytes \<Rightarrow> Config filling \<Rightarrow> Config filling" where
  "config_field m =
     (case m of (key, v, lit) \<Rightarrow>
        let k = fold_name key in
        if k = ''wrap'' then string_field (\<lambda>x c. c\<lparr>WrapCmd := x\<rparr>) v
        else if k = ''proxy'' then string_field (\<lambda>x c. c\<lparr>ProxyURL := x\<rparr>) v
        else if k = ''proxy_port'' then string_field (\<lambda>x c. c\<lparr>ProxyPort := x\<rparr>) v
        else if k = ''pid'' then int_field (\<lambda>x c. c\<lparr>PID := x\<rparr>) v lit
        else if k = ''db'' then string_field (\<lambda>x c. c\<lparr>DBPath := x\<rparr>) v
        else if k = ''ui'' then string_field (\<lambda>x c. c\<lparr>UIPort := x\<rparr>) v
        else if k = ''log_level'' then string_field (\<lambda>x c. c\<lparr>LogLevel := x\<rparr>) v
        else if k = ''log_json'' then bool_field (\<lambda>x c. c\<lparr>LogJSON := x\<rparr>) v
        else if k = ''auth_user'' then string_field (\<lambda>x c. c\<lparr>AuthUser := x\<rparr>) v
        else if k = ''auth_pass'' then string_field (\<lambda>x c. c\<lparr>AuthPass := x\<rparr>) v
        else if k = ''tls_cert'' then string_field (\<lambda>x c. c\<lparr>TLSCert := x\<rparr>) v
        else if k = ''tls_key'' then string_field (\<lambda>x c. c\<lparr>TLSKey := x\<rparr>) v
        else if k = ''alert_webhook'' then string_field (\<lambda>x c. c\<lparr>AlertWebhook := x\<rparr>) v
        else if k = ''alert_error_rate'' then float_field (\<lambda>x c. c\<lparr>AlertErrorRate := x\<rparr>) v
        else if k = ''alert_latency'' then int_field (\<lambda>x c. c\<lparr>AlertLatency := x\<rparr>) v lit
        else if k = ''alert_window'' then int_field (\<lambda>x c. c\<lparr>AlertWindow := x\<rparr>) v lit
        else if k = ''gc_percent'' then int_field (\<lambda>x c. c\<lparr>GCPercent := x\<rparr>) v lit
        else if k = ''socket_local'' then string_field (\<lambda>x c. c\<lparr>SocketLocal := x\<rparr>) v
        else if k = ''socket_target'' then string_field (\<lambda>x c. c\<lparr>SocketTarget := x\<rparr>) v
        else (\<lambda>st. st))"

text \<open>\<open>json.Unmarshal(data, &fileCfg)\<close>.\<close>

definition unmarshal_config :: "bytes \<Rightarrow> Config option" where
  "unmarshal_config data = unmarshal_struct config_field zero_config data"

section \<open>Merging\<close>

text \<open>\<open>if b { cfg.X = x }\<close>: a condition and an assignment.\<close>

definition assign_if :: "bool \<times> (Config \<Rightarrow> Config) \<Rightarrow> Config \<Rightarrow> Config" where
  "assign_if a cfg = (if fst a then snd a cfg else cfg)"

text \<open>The assignments of the file's values, each under its own condition.\<close>

definition merge_file :: "Config \<Rightarrow> Config \<Rightarrow> Config" where
  "merge_file f = fold assign_if
     [(WrapCmd f \<noteq> [], \<lambda>c. c\<lparr>WrapCmd := WrapCmd f\<rparr>),
      (ProxyURL f \<noteq> [], \<lambda>c. c\<lparr>ProxyURL := ProxyURL f\<rparr>),
      (ProxyPort f \<noteq> [], \<lambda>c. c\<lparr>ProxyPort := ProxyPort f\<rparr>),
      (PID f \<noteq> 0, \<lambda>c. c\<lparr>PID := PID f\<rparr>),
      (DBPath f \<noteq> [], \<lambda>c. c\<lparr>DBPath := DBPath f\<rparr>),
      (UIPort f \<noteq> [], \<lambda>c. c\<lparr>UIPort := UIPort f\<rparr>),
      (LogLevel f \<noteq> [], \<lambda>c. c\<lparr>LogLevel := LogLevel f\<rparr>),
      (LogJSON f, \<lambda>c. c\<lparr>LogJSON := LogJSON f\<rparr>),
      (AuthUser f \<noteq> [], \<lambda>c. c\<lparr>AuthUser := AuthUser f\<rparr>),
      (AuthPass f \<noteq> [], \<lambda>c. c\<lparr>AuthPass := AuthPass f\<rparr>),
      (TLSCert f \<noteq> [], \<lambda>c. c\<lparr>TLSCert := TLSCert f\<rparr>),
      (TLSKey f \<noteq> [], \<lambda>c. c\<lparr>TLSKey := TLSKey f\<rparr>),
      (AlertWebhook f \<noteq> [], \<lambda>c. c\<lparr>AlertWebhook := AlertWebhook f\<rparr>),
      (f64_less float_zero (AlertErrorRate f), \<lambda>c. c\<lparr>AlertErrorRate := AlertErrorRate f\<rparr>),
      (AlertLatency f > 0, \<lambda>c. c\<lparr>AlertLatency := AlertLatency f\<rparr>),
      (AlertWindow f > 0, \<lambda>c. c\<lparr>AlertWindow := AlertWindow f\<rparr>),
      (GCPercent f > 0, \<lambda>c. c\<lparr>GCPercent := GCPercent f\<rparr>)]"

text \<open>The explicitly set flags, which win over the file.\<close>

definition merge_flags :: "bytes set \<Rightarrow> Config \<Rightarrow> Config \<Rightarrow> Config" where
  "merge_flags explicit fl = fold assign_if
     [(''wrap'' \<in> explicit, \<lambda>c. c\<lparr>WrapCmd := WrapCmd fl\<rparr>),
      (''proxy'' \<in> explicit, \<lambda>c. c\<lparr>ProxyURL := ProxyURL fl\<rparr>),
      (''proxy-port'' \<in> explicit, \<lambda>c. c\<lparr>ProxyPort := ProxyPort fl\<rparr>),
      (''pid'' \<in> explicit, \<lambda>c. c\<lparr>PID := PID fl\<rparr>),
      (''db'' \<in> explicit, \<lambda>c. c\<lparr>DBPath := DBPath fl\<rparr>),
      (''ui'' \<in> explicit, \<lambda>c. c\<lparr>UIPort := UIPort fl\<rparr>),
      (''log-level'' \<in> explicit, \<lambda>c. c\<lparr>LogLevel := LogLevel fl\<rparr>),
      (''log-json'' \<in> explicit, \<lambda>c. c\<lparr>LogJSON := LogJSON fl\<rparr>),
      (''auth-user'' \<in> explicit, \<lambda>c. c\<lparr>AuthUser := AuthUser fl\<rparr>),
      (''auth-pass'' \<in> explicit, \<lambda>c. c\<lparr>AuthPass := AuthPass fl\<rparr>),
      (''tls-cert'' \<in> explicit, \<lambda>c. c\<lparr>TLSCert := TLSCert fl\<rparr>),
      (''tls-key'' \<in> explicit, \<lambda>c. c\<lparr>TLSKey := TLSKey fl\<rparr>),
      (''alert-webhook'' \<in> explicit, \<lambda>c. c\<lparr>AlertWebhook := AlertWebhook fl\<rparr>),
      (''alert-error-rate'' \<in> explicit, \<lambda>c. c\<lparr>AlertErrorRate := AlertErrorRate fl\<rparr>),
      (''alert-latency'' \<in> explicit, \<lambda>c. c\<lparr>AlertLatency := AlertLatency fl\<rparr>),
      (''alert-window'' \<in> explicit, \<lambda>c. c\<lparr>AlertWindow := AlertWindow fl\<rparr>),
      (''gc-percent'' \<in> explicit, \<lambda>c. c\<lparr>GCPercent := GCPercent fl\<rparr>)]"

datatype exit_reason = ConfigUnreadable | ConfigMalformed | WrongModes

text \<open>The configuration the program runs with, or why it exits.\<close>

definition load_config ::
  "(bytes \<Rightarrow> bytes option) \<Rightarrow> bytes set \<Rightarrow> Config \<Rightarrow> bytes \<Rightarrow> exit_reason + Config"
where
  "load_config ReadFile explicit fl configFile =
     (let cfg = fl in
      if configFile = [] then Inr cfg
      else (case ReadFile configFile of
              None \<Rightarrow> Inl ConfigUnreadable
            | Some data \<Rightarrow>
                (case unmarshal_config data of
                   None \<Rightarrow> Inl ConfigMalformed
                 | Some fileCfg \<Rightarrow> Inr (merge_flags explicit fl (merge_file fileCfg cfg)))))"

section \<open>Log level\<close>

datatype log_level = LevelDebug | LevelInfo | LevelWarn | LevelError

text \<open>\<open>slog.Level\<close> is an integer; the levels are ordered by it.\<close>

primrec level_value :: "log_level \<Rightarrow> int" where
  "level_value LevelDebug = - 4"
| "level_value LevelInfo = 0"
| "level_value LevelWarn = 4"
| "level_value LevelError = 8"

instantiation log_level :: linorder
begin

definition less_eq_log_level :: "log_level \<Rightarrow> log_level \<Rightarrow> bool" where
  "l \<le> l' \<longleftrightarrow> level_value l \<le> level_value l'"

definition less_log_level :: "log_level \<Rightarrow> log_level \<Rightarrow> bool" where
  "l < l' \<longleftrightarrow> level_value l < level_value l'"

instance
proof
  fix x y z :: log_level
  show "x \<le> y \<Longrightarrow> y \<le> x \<Longrightarrow> x = y"
    by (cases x; cases y) (simp_all add: less_eq_log_level_def)
qed (auto simp: less_eq_log_level_def less_log_level_def)

end

definition log_level :: "Config \<Rightarrow> log_level" where
  "log_level cfg =
     (let s = ToLowerASCII (LogLevel cfg) in
      if s = ''debug'' then LevelDebug
      else if s = ''warn'' then LevelWarn
      else if s = ''error'' then LevelError
      else LevelInfo)"

text \<open>What the handler of \<open>slog\<close> lets through.\<close>

definition log_enabled :: "Config \<Rightarrow> log_level \<Rightarrow> bool" where
  "log_enabled cfg l \<longleftrightarrow> log_level cfg \<le> l"

section \<open>Modes\<close>

definition modes :: "Config \<Rightarrow> nat" where
  "modes cfg =
     (if WrapCmd cfg \<noteq> [] then 1 else 0) + (if ProxyURL cfg \<noteq> [] then 1 else 0) +
     (if PID cfg \<noteq> 0 then 1 else 0) +
     (if SocketLocal cfg \<noteq> [] \<and> SocketTarget cfg \<noteq> [] then 1 else 0)"

datatype handler = NewStdio bytes | NewProxy bytes bytes | NewEBPF int | NewSocket bytes bytes

definition select_handler :: "Config \<Rightarrow> handler option" where
  "select_handler cfg =
     (if WrapCmd cfg \<noteq> [] then Some (NewStdio (WrapCmd cfg))
      else if ProxyURL cfg \<noteq> [] then Some (NewProxy (ProxyURL cfg) (ProxyPort cfg))
      else if PID cfg \<noteq> 0 then Some (NewEBPF (PID cfg))
      else if SocketLocal cfg \<noteq> [] \<and> SocketTarget cfg \<noteq> []
      then Some (NewSocket (SocketLocal cfg) (SocketTarget cfg))
      else None)"

text \<open>What the configuration asks of a handler.\<close>

definition requested :: "Config \<Rightarrow> handler set" where
  "requested cfg =
     (if WrapCmd cfg \<noteq> [] then {NewStdio (WrapCmd cfg)} else {}) \<union>
     (if ProxyURL cfg \<noteq> [] then {NewProxy (ProxyURL cfg) (ProxyPort cfg)} else {}) \<union>
     (if PID cfg \<noteq> 0 then {NewEBPF (PID cfg)} else {}) \<union>
     (if SocketLocal cfg \<noteq> [] \<and> SocketTarget cfg \<noteq> [] then {NewSocket (SocketLocal cfg) (SocketTarget cfg)} else {})"

definition uses_tls :: "Config \<Rightarrow> bool" where
  "uses_tls cfg \<longleftrightarrow> TLSCert cfg \<noteq> [] \<and> TLSKey cfg \<noteq> []"

text \<open>\<open>main\<close> up to its loop: the transport it starts and the configuration, or why it exits.\<close>

definition startup ::
  "(bytes \<Rightarrow> bytes option) \<Rightarrow> bytes set \<Rightarrow> Config \<Rightarrow> bytes \<Rightarrow> exit_reason + Config \<times> handler option"
where
  "startup ReadFile explicit fl configFile =
     (case load_config ReadFile explicit fl configFile of
        Inl e \<Rightarrow> Inl e
      | Inr cfg \<Rightarrow> if modes cfg \<noteq> 1 then Inl WrongModes else Inr (cfg, select_handler cfg))"

section \<open>Properties\<close>

text \<open>An assignment changes its own field and no other.\<close>

lemma assign_keep: "(\<And>c. F (u c) = F c) \<Longrightarrow> F (assign_if (b, u) c) = F c"
  by (simp add: assign_if_def)

lemmas assign_keeps =
  assign_keep [of WrapCmd]
  assign_keep [of ProxyURL]
  assign_keep [of ProxyPort]
  assign_keep [of PID]
  assign_keep [of DBPath]
  assign_keep [of UIPort]
  assign_keep [of LogLevel]
  assign_keep [of LogJSON]
  assign_keep [of AuthUser]
  assign_keep [of AuthPass]
  assign_keep [of TLSCert]
  assign_keep [of TLSKey]
  assign_keep [of AlertWebhook]
  assign_keep [of AlertErrorRate]
  assign_keep [of AlertLatency]
  assign_keep [of AlertWindow]
  assign_keep [of GCPercent]
  assign_keep [of SocketLocal]
  assign_keep [of SocketTarget]

lemma assign_hits:
  "WrapCmd (assign_if (b, \<lambda>c. c\<lparr>WrapCmd := x0\<rparr>) cfg) = (if b then x0 else WrapCmd cfg)"
  "ProxyURL (assign_if (b, \<lambda>c. c\<lparr>ProxyURL := x1\<rparr>) cfg) = (if b then x1 else ProxyURL cfg)"
  "ProxyPort (assign_if (b, \<lambda>c. c\<lparr>ProxyPort := x2\<rparr>) cfg) = (if b then x2 else ProxyPort cfg)"
  "PID (assign_if (b, \<lambda>c. c\<lparr>PID := x3\<rparr>) cfg) = (if b then x3 else PID cfg)"
  "DBPath (assign_if (b, \<lambda>c. c\<lparr>DBPath := x4\<rparr>) cfg) = (if b then x4 else DBPath cfg)"
  "UIPort (assign_if (b, \<lambda>c. c\<lparr>UIPort := x5\<rparr>) cfg) = (if b then x5 else UIPort cfg)"
  "LogLevel (assign_if (b, \<lambda>c. c\<lparr>LogLevel := x6\<rparr>) cfg) = (if b then x6 else LogLevel cfg)"
  "LogJSON (assign_if (b, \<lambda>c. c\<lparr>LogJSON := x7\<rparr>) cfg) = (if b then x7 else LogJSON cfg)"
  "AuthUser (assign_if (b, \<lambda>c. c\<lparr>AuthUser := x8\<rparr>) cfg) = (if b then x8 else AuthUser cfg)"
  "AuthPass (assign_if (b, \<lambda>c. c\<lparr>AuthPass := x9\<rparr>) cfg) = (if b then x9 else AuthPass cfg)"
  "TLSCert (assign_if (b, \<lambda>c. c\<lparr>TLSCert := x10\<rparr>) cfg) = (if b then x10 else TLSCert cfg)"
  "TLSKey (assign_if (b, \<lambda>c. c\<lparr>TLSKey := x11\<rparr>) cfg) = (if b then x11 else TLSKey cfg)"
  "AlertWebhook (assign_if (b, \<lambda>c. c\<lparr>AlertWebhook := x12\<rparr>) cfg) = (if b then x12 else AlertWebhook cfg)"
  "AlertErrorRate (assign_if (b, \<lambda>c. c\<lparr>AlertErrorRate := x13\<rparr>) cfg) = (if b then x13 else AlertErrorRate cfg)"
  "AlertLatency (assign_if (b, \<lambda>c. c\<lparr>AlertLatency := x14\<rparr>) cfg) = (if b then x14 else AlertLatency cfg)"
  "AlertWindow (assign_if (b, \<lambda>c. c\<lparr>AlertWindow := x15\<rparr>) cfg) = (if b then x15 else AlertWindow cfg)"
  "GCPercent (assign_if (b, \<lambda>c. c\<lparr>GCPercent := x16\<rparr>) cfg) = (if b then x16 else GCPercent cfg)"
  by (simp_all add: assign_if_def)

text \<open>A flag that was not set has its default.\<close>

definition flags_given :: "bytes set \<Rightarrow> Config \<Rightarrow> bool" where
  "flags_given explicit fl \<longleftrightarrow>
     (''wrap'' \<notin> explicit \<longrightarrow> WrapCmd fl = WrapCmd flag_defaults) \<and>
     (''proxy'' \<notin> explicit \<longrightarrow> ProxyURL fl = ProxyURL flag_defaults) \<and>
     (''proxy-port'' \<notin> explicit \<longrightarrow> ProxyPort fl = ProxyPort flag_defaults) \<and>
     (''pid'' \<notin> explicit \<longrightarrow> PID fl = PID flag_defaults) \<and>
     (''db'' \<notin> explicit \<longrightarrow> DBPath fl = DBPath flag_defaults) \<and>
     (''ui'' \<notin> explicit \<longrightarrow> UIPort fl = UIPort flag_defaults) \<and>
     (''log-level'' \<notin> explicit \<longrightarrow> LogLevel fl = LogLevel flag_defaults) \<and>
     (''log-json'' \<notin> explicit \<longrightarrow> LogJSON fl = LogJSON flag_defaults) \<and>
     (''auth-user'' \<notin> explicit \<longrightarrow> AuthUser fl = AuthUser flag_defaults) \<and>
     (''auth-pass'' \<notin> explicit \<longrightarrow> AuthPass fl = AuthPass flag_defaults) \<and>
     (''tls-cert'' \<notin> explicit \<longrightarrow> TLSCert fl = TLSCert flag_defaults) \<and>
     (''tls-key'' \<notin> explicit \<longrightarrow> TLSKey fl = TLSKey flag_defaults) \<and>
     (''alert-webhook'' \<notin> explicit \<longrightarrow> AlertWebhook fl = AlertWebhook flag_defaults) \<and>
     (''alert-error-rate'' \<notin> explicit \<longrightarrow> AlertErrorRate fl = AlertErrorRate flag_defaults) \<and>
     (''alert-latency'' \<notin> explicit \<longrightarrow> AlertLatency fl = AlertLatency flag_defaults) \<and>
     (''alert-window'' \<notin> explicit \<longrightarrow> AlertWindow fl = AlertWindow flag_defaults) \<and>
     (''gc-percent'' \<notin> explicit \<longrightarrow> GCPercent fl = GCPercent flag_defaults) \<and>
     (''socket-local'' \<notin> explicit \<longrightarrow> SocketLocal fl = SocketLocal flag_defaults) \<and>
     (''socket-target'' \<notin> explicit \<longrightarrow> SocketTarget fl = SocketTarget flag_defaults)"

text \<open>An explicit flag, else a value of the file, else the default.\<close>

definition pick :: "bool \<Rightarrow> 'a \<Rightarrow> bool \<Rightarrow> 'a \<Rightarrow> 'a \<Rightarrow> 'a" where
  "pick explicit flag given file def = (if explicit then flag else if given then file else def)"

lemma merge_file_fields:
  "WrapCmd (merge_file f cfg) = (if WrapCmd f \<noteq> [] then WrapCmd f else WrapCmd cfg)"
  "ProxyURL (merge_file f cfg) = (if ProxyURL f \<noteq> [] then ProxyURL f else ProxyURL cfg)"
  "ProxyPort (merge_file f cfg) = (if ProxyPort f \<noteq> [] then ProxyPort f else ProxyPort cfg)"
  "PID (merge_file f cfg) = (if PID f \<noteq> 0 then PID f else PID cfg)"
  "DBPath (merge_file f cfg) = (if DBPath f \<noteq> [] then DBPath f else DBPath cfg)"
  "UIPort (merge_file f cfg) = (if UIPort f \<noteq> [] then UIPort f else UIPort cfg)"
  "LogLevel (merge_file f cfg) = (if LogLevel f \<noteq> [] then LogLevel f else LogLevel cfg)"
  "LogJSON (merge_file f cfg) = (if LogJSON f then LogJSON f else LogJSON cfg)"
  "AuthUser (merge_file f cfg) = (if AuthUser f \<noteq> [] then AuthUser f else AuthUser cfg)"
  "AuthPass (merge_file f cfg) = (if AuthPass f \<noteq> [] then AuthPass f else AuthPass cfg)"
  "TLSCert (merge_file f cfg) = (if TLSCert f \<noteq> [] then TLSCert f else TLSCert cfg)"
  "TLSKey (merge_file f cfg) = (if TLSKey f \<noteq> [] then TLSKey f else TLSKey cfg)"
  "AlertWebhook (merge_file f cfg) = (if AlertWebhook f \<noteq> [] then AlertWebhook f else AlertWebhook cfg)"
  "AlertErrorRate (merge_file f cfg) = (if f64_less float_zero (AlertErrorRate f) then AlertErrorRate f else AlertErrorRate cfg)"
  "AlertLatency (merge_file f cfg) = (if AlertLatency f > 0 then AlertLatency f else AlertLatency cfg)"
  "AlertWindow (merge_file f cfg) = (if AlertWindow f > 0 then AlertWindow f else AlertWindow cfg)"
  "GCPercent (merge_file f cfg) = (if GCPercent f > 0 then GCPercent f else GCPercent cfg)"
  "SocketLocal (merge_file f cfg) = SocketLocal cfg" "SocketTarget (merge_file f cfg) = SocketTarget cfg"
  by (simp_all add: merge_file_def assign_hits assign_keeps)

lemma merge_flags_fields:
  "WrapCmd (merge_flags explicit fl cfg) = (if ''wrap'' \<in> explicit then WrapCmd fl else WrapCmd cfg)"
  "ProxyURL (merge_flags explicit fl cfg) = (if ''proxy'' \<in> explicit then ProxyURL fl else ProxyURL cfg)"
  "ProxyPort (merge_flags explicit fl cfg) = (if ''proxy-port'' \<in> explicit then ProxyPort fl else ProxyPort cfg)"
  "PID (merge_flags explicit fl cfg) = (if ''pid'' \<in> explicit then PID fl else PID cfg)"
  "DBPath (merge_flags explicit fl cfg) = (if ''db'' \<in> explicit then DBPath fl else DBPath cfg)"
  "UIPort (merge_flags explicit fl cfg) = (if ''ui'' \<in> explicit then UIPort fl else UIPort cfg)"
  "LogLevel (merge_flags explicit fl cfg) = (if ''log-level'' \<in> explicit then LogLevel fl else LogLevel cfg)"
  "LogJSON (merge_flags explicit fl cfg) = (if ''log-json'' \<in> explicit then LogJSON fl else LogJSON cfg)"
  "AuthUser (merge_flags explicit fl cfg) = (if ''auth-user'' \<in> explicit then AuthUser fl else AuthUser cfg)"
  "AuthPass (merge_flags explicit fl cfg) = (if ''auth-pass'' \<in> explicit then AuthPass fl else AuthPass cfg)"
  "TLSCert (merge_flags explicit fl cfg) = (if ''tls-cert'' \<in> explicit then TLSCert fl else TLSCert cfg)"
  "TLSKey (merge_flags explicit fl cfg) = (if ''tls-key'' \<in> explicit then TLSKey fl else TLSKey cfg)"
  "AlertWebhook (merge_flags explicit fl cfg) = (if ''alert-webhook'' \<in> explicit then AlertWebhook fl else AlertWebhook cfg)"
  "AlertErrorRate (merge_flags explicit fl cfg) = (if ''alert-error-rate'' \<in> explicit then AlertErrorRate fl else AlertErrorRate cfg)"
  "AlertLatency (merge_flags explicit fl cfg) = (if ''alert-latency'' \<in> explicit then AlertLatency fl else AlertLatency cfg)"
  "AlertWindow (merge_flags explicit fl cfg) = (if ''alert-window'' \<in> explicit then AlertWindow fl else AlertWindow cfg)"
  "GCPercent (merge_flags explicit fl cfg) = (if ''gc-percent'' \<in> explicit then GCPercent fl else GCPercent cfg)"
  "SocketLocal (merge_flags explicit fl cfg) = SocketLocal cfg"
  "SocketTarget (merge_flags explicit fl cfg) = SocketTarget cfg"
  by (simp_all add: merge_flags_def assign_hits assign_keeps)

lemmas merge_fields = merge_file_fields merge_flags_fields

lemma pick_merge:
  "(\<not> e \<Longrightarrow> v = d) \<Longrightarrow> (if e then v else if g then x else v) = pick e v g x d"
  by (simp add: pick_def)

text \<open>
  C32. Precedence: with a configuration file, every setting but the two socket paths is the
  explicitly set flag, else the value of the file where it gives one, else the default.
\<close>

theorem config_precedence:
  assumes "flags_given explicit fl" "configFile \<noteq> []" "ReadFile configFile = Some data"
    and "unmarshal_config data = Some f" "load_config ReadFile explicit fl configFile = Inr cfg"
  shows "WrapCmd cfg = pick (''wrap'' \<in> explicit) (WrapCmd fl) (WrapCmd f \<noteq> []) (WrapCmd f) ([]) \<and>
    ProxyURL cfg = pick (''proxy'' \<in> explicit) (ProxyURL fl) (ProxyURL f \<noteq> []) (ProxyURL f) ([]) \<and>
    ProxyPort cfg = pick (''proxy-port'' \<in> explicit) (ProxyPort fl) (ProxyPort f \<noteq> []) (ProxyPort f) (''8081'') \<and>
    PID cfg = pick (''pid'' \<in> explicit) (PID fl) (PID f \<noteq> 0) (PID f) (0) \<and>
    DBPath cfg = pick (''db'' \<in> explicit) (DBPath fl) (DBPath f \<noteq> []) (DBPath f) (''mcpwatch_data'') \<and>
    UIPort cfg = pick (''ui'' \<in> explicit) (UIPort fl) (UIPort f \<noteq> []) (UIPort f) (''8080'') \<and>
    LogLevel cfg = pick (''log-level'' \<in> explicit) (LogLevel fl) (LogLevel f \<noteq> []) (LogLevel f) (''info'') \<and>
    LogJSON cfg = pick (''log-json'' \<in> explicit) (LogJSON fl) (LogJSON f) (LogJSON f) (False) \<and>
    AuthUser cfg = pick (''auth-user'' \<in> explicit) (AuthUser fl) (AuthUser f \<noteq> []) (AuthUser f) ([]) \<and>
    AuthPass cfg = pick (''auth-pass'' \<in> explicit) (AuthPass fl) (AuthPass f \<noteq> []) (AuthPass f) ([]) \<and>
    TLSCert cfg = pick (''tls-cert'' \<in> explicit) (TLSCert fl) (TLSCert f \<noteq> []) (TLSCert f) ([]) \<and>
    TLSKey cfg = pick (''tls-key'' \<in> explicit) (TLSKey fl) (TLSKey f \<noteq> []) (TLSKey f) ([]) \<and>
    AlertWebhook cfg = pick (''alert-webhook'' \<in> explicit) (AlertWebhook fl) (AlertWebhook f \<noteq> []) (AlertWebhook f) ([]) \<and>
    AlertErrorRate cfg = pick (''alert-error-rate'' \<in> explicit) (AlertErrorRate fl) (f64_less float_zero (AlertErrorRate f)) (AlertErrorRate f) (float_zero) \<and>
    AlertLatency cfg = pick (''alert-latency'' \<in> explicit) (AlertLatency fl) (AlertLatency f > 0) (AlertLatency f) (0) \<and>
    AlertWindow cfg = pick (''alert-window'' \<in> explicit) (AlertWindow fl) (AlertWindow f > 0) (AlertWindow f) (60) \<and>
    GCPercent cfg = pick (''gc-percent'' \<in> explicit) (GCPercent fl) (GCPercent f > 0) (GCPercent f) (35)"
proof -
  have cfg: "cfg = merge_flags explicit fl (merge_file f fl)"
    using assms(2-5) by (simp add: load_config_def)
  show ?thesis
    unfolding cfg merge_fields
    by (intro conjI pick_merge) (use assms(1) in \<open>simp_all add: flags_given_def flag_defaults_def\<close>)
qed

text \<open>
  The socket mode cannot be configured in the file: whatever it says, the two socket paths
  are those of the command line.
\<close>

theorem file_sockets_ignored:
  assumes "load_config ReadFile explicit fl configFile = Inr cfg"
  shows "SocketLocal cfg = SocketLocal fl \<and> SocketTarget cfg = SocketTarget fl"
  using assms by (auto simp: load_config_def merge_fields(18,19,37,38) split: if_splits option.splits)

lemma one_mode: "modes cfg = 1 \<Longrightarrow> \<exists>t. select_handler cfg = Some t \<and> requested cfg = {t}"
  unfolding modes_def select_handler_def requested_def by (auto split: if_splits)

text \<open>
  Exactly one mode: \<open>main\<close> reaches its loop only if the configuration asks for exactly one
  transport, and that is the one it starts; the order of its tests never decides.
\<close>

theorem startup_one_transport:
  assumes "startup ReadFile explicit fl configFile = Inr (cfg, h)"
  shows "\<exists>t. h = Some t \<and> requested cfg = {t}"
  using assms one_mode by (auto simp: startup_def split: sum.splits if_splits)

section \<open>Examples\<close>

text \<open>A short file, with \<open>--ui 9000\<close> on the command line.\<close>

definition quoted :: "bytes \<Rightarrow> bytes" where
  "quoted s = dquote # s @ [dquote]"

definition example_file :: bytes where
  "example_file = [lbrace] @ quoted ''ui'' @ '': '' @ quoted ''8443'' @ '', '' @
     quoted ''Alert_Latency'' @ '': 1500, '' @ quoted ''proxy'' @ '':'' @ quoted ''http://x'' @ [rbrace]"

definition example_flags :: Config where
  "example_flags = flag_defaults\<lparr>UIPort := ''9000''\<rparr>"

definition example_fs :: "bytes \<Rightarrow> bytes option" where
  "example_fs name = (if name = ''config.json'' then Some example_file else None)"

definition example_decoded :: Config where
  "example_decoded = zero_config\<lparr>UIPort := ''8443'', AlertLatency := 1500, ProxyURL := ''http://x''\<rparr>"

lemma example_decodes: "unmarshal_config example_file = Some example_decoded"
  by code_simp

definition example_config :: Config where
  "example_config = merge_flags {''ui''} example_flags (merge_file example_decoded example_flags)"

lemma example_loads: "load_config example_fs {''ui''} example_flags ''config.json'' = Inr example_config"
  using example_decodes by (simp add: load_config_def example_fs_def example_config_def)

lemma config_precedence_witness:
  "UIPort example_config = ''9000'' \<and> AlertLatency example_config = 1500 \<and>
   ProxyURL example_config = ''http://x'' \<and> ProxyPort example_config = ''8081''"
proof -
  have "flags_given {''ui''} example_flags"
    by (simp add: flags_given_def example_flags_def)
  moreover have "example_fs ''config.json'' = Some example_file" by (simp add: example_fs_def)
  ultimately show ?thesis
    using config_precedence [OF _ _ _ example_decodes example_loads]
    by (simp add: pick_def example_decoded_def example_flags_def zero_config_def)
qed

lemma file_sockets_ignored_witness: "SocketLocal example_config = []"
  using file_sockets_ignored [OF example_loads] by (simp add: example_flags_def flag_defaults_def)

lemma startup_one_transport_witness:
  "\<exists>t. select_handler example_config = Some t \<and> requested example_config = {t}"
proof -
  have "modes example_config = 1" by code_simp
  then have "startup example_fs {''ui''} example_flags ''config.json'' =
      Inr (example_config, select_handler example_config)"
    using example_loads by (simp add: startup_def)
  then show ?thesis by (rule startup_one_transport)
qed

end
