(* ===== verification/Transport_Handler.thy ===== *)
theory Transport_Handler
  imports Transport_Lifecycle Main_Config
begin

text \<open>
  The transports behind the interface \<open>Handler\<close> of \<open>handler.go\<close>, as \<open>main\<close> uses them: it selects one
  by the configuration and calls \<open>Start\<close> and \<open>Type\<close> on it, whichever it is. The host is what the
  operating system, the libraries, the child process and the peers do while it runs.
\<close>

record host =
  ho_windows :: bool
  ho_linux :: bool
  ho_stdio :: "stdio_call \<Rightarrow> bytes option"
  ho_ebpf :: "ebpf_call \<Rightarrow> bytes option"
  ho_socket :: "socket_call \<Rightarrow> bytes option"
  ho_parse_url :: "bytes \<Rightarrow> bytes + url"
  ho_lines :: "(time \<times> stdio_event) list"
  ho_bodies :: "(time \<times> proxy_event) list"
  ho_served :: serve_end
  ho_reads :: "(time \<times> perf_read) list"
  ho_conns :: "(time \<times> relay_event) list"

fun Handler_Type :: "handler \<Rightarrow> bytes" where
  "Handler_Type (NewStdio command) = ''stdio''"
| "Handler_Type (NewProxy targetURL localPort) = ''http/sse''"
| "Handler_Type (NewEBPF pid) = ''ebpf''"
| "Handler_Type (NewSocket localPath targetPath) = ''socket''"

fun Handler_Start :: "host \<Rightarrow> handler \<Rightarrow> mchan \<Rightarrow> start_end \<times> mchan" where
  "Handler_Start H (NewStdio command) ch =
     fst (Stdio_Start ParseJSONRPC (ho_windows H) (ho_stdio H) command (ho_lines H) ch)"
| "Handler_Start H (NewProxy targetURL localPort) ch =
     Proxy_Start ParseJSONRPC (ho_parse_url H) targetURL (ho_bodies H) (ho_served H) ch"
| "Handler_Start H (NewEBPF pid) ch =
     (if ho_linux H then fst (EBPF_Start ParseJSONRPC (ho_ebpf H) pid (ho_reads H) ch)
      else fst (EBPF_stub_Start ch))"
| "Handler_Start H (NewSocket localPath targetPath) ch =
     fst (Socket_Start ParseJSONRPC (ho_socket H) localPath (ho_conns H) ch)"

text \<open>Every handler provides the interface, under its own type.\<close>

lemma Handler_Start_offers: "offers (Handler_Type h) ch (snd (Handler_Start H h ch))"
proof (cases h)
  case (NewEBPF pid)
  have "offers ''ebpf'' ch ch" unfolding offers_def by (intro exI [of _ "[]"]) simp
  with NewEBPF show ?thesis by (simp add: EBPF_Start_offers EBPF_stub_Start_def body_simps)
qed (simp_all add: Stdio_Start_offers Proxy_Start_offers Socket_Start_offers)

interpretation selected: transport "Handler_Type h" "\<lambda>H ch. Handler_Start H h ch" for h
  using Handler_Start_offers by unfold_locales (auto simp: offers_def)

text \<open>
  C16. What the configuration asks for is what reports: once the configuration has passed the check
  of the modes, exactly one transport is selected, and whatever its environment does while it runs,
  every message in the channel carries the type of that transport and has the shape the loop
  relies on, and at most 1000 wait. On other systems than Linux, tracing a process ends at once with
  an error, and nothing is reported.
\<close>

theorem selected_transport_reports:
  assumes "startup ReadFile explicit fl configFile = Inr (cfg, selected)"
  shows "\<exists>t. selected = Some t \<and> requested cfg = {t} \<and>
    list_all (report_ok (Handler_Type t)) (chan_items (snd (Handler_Start H t (make_chan 1000)))) \<and>
    length (chan_items (snd (Handler_Start H t (make_chan 1000)))) \<le> 1000 \<and>
    (PID cfg \<noteq> 0 \<and> \<not> ho_linux H \<longrightarrow>
       (\<exists>e. Handler_Start H t (make_chan 1000) = (Returned (Some e), make_chan 1000)))"
proof -
  have "modes cfg = 1" "selected = select_handler cfg"
    using assms by (auto simp: startup_def split: sum.splits if_splits)
  with one_mode obtain t where t: "selected = Some t" "requested cfg = {t}" by metis
  have "list_all (report_ok (Handler_Type t)) (chan_items (snd (Handler_Start H t (make_chan 1000))))"
    by (rule selected.start_reports) (simp add: make_chan_def)
  moreover have "length (chan_items (snd (Handler_Start H t (make_chan 1000)))) \<le> 1000"
  proof -
    have "chan_cap (snd (Handler_Start H t (make_chan 1000))) = 1000"
      using Handler_Start_offers [of t "make_chan 1000" H] by (auto simp: offers_def make_chan_def fold_try_send_cap)
    then show ?thesis using selected.start_bounded [of "make_chan 1000" H t] by (simp add: make_chan_def)
  qed
  moreover have "\<exists>e. Handler_Start H t (make_chan 1000) = (Returned (Some e), make_chan 1000)"
    if "PID cfg \<noteq> 0" "\<not> ho_linux H"
  proof -
    have "NewEBPF (PID cfg) \<in> requested cfg" using that(1) by (simp add: requested_def)
    then have "t = NewEBPF (PID cfg)" by (simp add: t(2))
    with that(2) show ?thesis by (simp add: EBPF_stub_Start_def body_simps)
  qed
  ultimately show ?thesis using t by blast
qed

section \<open>Examples\<close>

definition example_host :: host where
  "example_host =
     \<lparr>ho_windows = False, ho_linux = False, ho_stdio = (\<lambda>c. None), ho_ebpf = (\<lambda>c. None), ho_socket = (\<lambda>c. None),
      ho_parse_url = (\<lambda>s. Inl ''no URL''), ho_lines = [(5, StderrLine ''ready'')], ho_bodies = [],
      ho_served = StillServing, ho_reads = [], ho_conns = []\<rparr>"

lemma selected_transport_reports_witness:
  "\<exists>cfg t. startup (\<lambda>p. None) {''pid''} (flag_defaults\<lparr>PID := 42\<rparr>) [] = Inr (cfg, Some t) \<and>
     (\<exists>e. Handler_Start example_host t (make_chan 1000) = (Returned (Some e), make_chan 1000))"
proof -
  have "startup (\<lambda>p. None) {''pid''} (flag_defaults\<lparr>PID := 42\<rparr>) [] =
      Inr (flag_defaults\<lparr>PID := 42\<rparr>, Some (NewEBPF 42))"
    by (simp add: startup_def load_config_def modes_def select_handler_def flag_defaults_def)
  from selected_transport_reports [OF this, of example_host] this show ?thesis
    by (auto simp: example_host_def)
qed

end
