(* ===== verification/Engine_Correlator.thy ===== *)
theory Engine_Correlator
  imports Engine_Parser Engine_Tracing "HOL-Library.Word"
begin

text \<open>
  \<open>internal/engine/correlator.go\<close>: a table of 4096 slots, indexed by a hash of the JSON-RPC
  id, that remembers the pending request of each slot. \<open>Process\<close> stores a request and, for a
  response whose id is the one stored, fills in latency and method, reports the outcome on
  the span and clears the slot.

  The table is an interface of its own, \<open>pending_table\<close>: a bounded map in which an insertion
  evicts whatever shared its bucket. Its laws are proved for the slots of the code.
\<close>

section \<open>The code\<close>

abbreviation NumSlots :: nat where "NumSlots \<equiv> 4096"

record PendingSlot =
  slot_id :: bytes
  SentAt :: time
  slot_method :: bytes
  slot_span :: "nat option"

definition empty_slot :: PendingSlot where
  "empty_slot = \<lparr>slot_id = [], SentAt = zero_time, slot_method = [], slot_span = None\<rparr>"

record Correlator =
  slots :: "nat \<Rightarrow> PendingSlot"

definition NewCorrelator :: Correlator where
  "NewCorrelator = \<lparr>slots = (\<lambda>i. empty_slot)\<rparr>"

definition hashString :: "bytes \<Rightarrow> 32 word" where
  "hashString s = foldl (\<lambda>h c. h * 31 + of_nat (of_char c)) 0 s"

definition slot_index :: "bytes \<Rightarrow> nat" where
  "slot_index s = unat (hashString s mod 4096)"

definition set_slot :: "nat \<Rightarrow> PendingSlot \<Rightarrow> Correlator \<Rightarrow> Correlator" where
  "set_slot idx p c = c\<lparr>slots := (slots c)(idx := p)\<rparr>"

definition request_attrs :: "message \<Rightarrow> attr list" where
  "request_attrs msg =
     [AString ''mcp.method'' (Method msg), AString ''mcp.transport'' (Transport msg),
      AString ''mcp.direction'' (Direction msg), AString ''mcp.jsonrpc_id'' (JSONRPCID msg),
      AInt64 ''mcp.request_bytes'' (SizeBytes msg)]"

definition process_request :: "message \<Rightarrow> Correlator \<times> tracer \<Rightarrow> Correlator \<times> tracer" where
  "process_request msg st =
     (case st of (c, tr) \<Rightarrow>
        let parentCtx = extractParentContext msg;
            (span, tr) = start_span parentCtx (''mcp.request.'' @ Method msg) (request_attrs msg) tr
        in (set_slot (slot_index (JSONRPCID msg))
              \<lparr>slot_id = JSONRPCID msg, SentAt = Timestamp msg, slot_method = Method msg,
               slot_span = span\<rparr> c, tr))"

definition failed :: "message \<Rightarrow> bool" where
  "failed msg \<longleftrightarrow> ErrorCode msg \<noteq> [] \<or> (ErrorData msg \<noteq> [] \<and> ErrorData msg \<noteq> ''null'')"

definition outcome_calls :: "nat \<Rightarrow> message \<Rightarrow> span_call list" where
  "outcome_calls h msg =
     (if failed msg
      then [SetStatus h StatusError (''Error Code: '' @ ErrorCode msg),
            SetAttributes h [AString ''mcp.error_code'' (ErrorCode msg),
                             AString ''mcp.error_data'' (ErrorData msg)]]
      else [SetStatus h StatusOk ''success'']) @
     [SetAttributes h [AInt64 ''mcp.response_bytes'' (SizeBytes msg),
                       AInt64 ''mcp.latency_ms'' (LatencyMS msg)],
      EndSpan h]"

definition process_response ::
  "time \<Rightarrow> message \<Rightarrow> Correlator \<times> tracer \<Rightarrow> message \<times> Correlator \<times> tracer" where
  "process_response now msg st =
     (case st of (c, tr) \<Rightarrow>
        let idx = slot_index (JSONRPCID msg); slot = slots c idx in
        if slot_id slot = JSONRPCID msg then
          (let msg = msg\<lparr>LatencyMS := milliseconds (time_sub now (SentAt slot))\<rparr>;
               msg = (if Method msg = [] then msg\<lparr>Method := slot_method slot\<rparr> else msg);
               tr = (case slot_span slot of
                       None \<Rightarrow> tr
                     | Some h \<Rightarrow> span_calls (outcome_calls h msg) tr)
           in (msg, set_slot idx empty_slot c, tr))
        else (msg, c, tr))"

definition Process ::
  "time \<Rightarrow> message \<Rightarrow> Correlator \<times> tracer \<Rightarrow> message \<times> Correlator \<times> tracer" where
  "Process now msg st =
     (if JSONRPCID msg = [] then (msg, st)
      else if MsgType msg = MsgTypeRequest then (msg, process_request msg st)
      else if MsgType msg = MsgTypeResponse then process_response now msg st
      else (msg, st))"

text \<open>A sequence of calls, each at its own time: the messages as \<open>Process\<close> left them.\<close>

fun process_all ::
  "(time \<times> message) list \<Rightarrow> Correlator \<times> tracer \<Rightarrow> message list \<times> Correlator \<times> tracer" where
  "process_all [] st = ([], st)"
| "process_all ((now, msg) # ms) st =
     (let (msg', st') = Process now msg st; (msgs, st'') = process_all ms st' in (msg' # msgs, st''))"

section \<open>The interface of the table\<close>

locale pending_table =
  fixes bucket :: "'k \<Rightarrow> 'b"
    and find :: "'t \<Rightarrow> 'k \<Rightarrow> 'v option"
    and put :: "'k \<Rightarrow> 'v \<Rightarrow> 't \<Rightarrow> 't"
    and del :: "'k \<Rightarrow> 't \<Rightarrow> 't"
    and fresh :: "'t"
    and key_ok :: "'k \<Rightarrow> bool"
  assumes find_fresh: "find fresh k = None"
    and find_put_same: "key_ok k \<Longrightarrow> find (put k v t) k = Some v"
    and find_put_evicts: "key_ok k \<Longrightarrow> bucket k' = bucket k \<Longrightarrow> k' \<noteq> k \<Longrightarrow> find (put k v t) k' = None"
    and find_put_other: "bucket k' \<noteq> bucket k \<Longrightarrow> find (put k v t) k' = find t k'"
    and find_del_same: "find t k \<noteq> None \<Longrightarrow> find (del k t) k = None"
    and find_del_other: "find t k \<noteq> None \<Longrightarrow> k' \<noteq> k \<Longrightarrow> find (del k t) k' = find t k'"
    and find_bucket: "find t k \<noteq> None \<Longrightarrow> find t k' \<noteq> None \<Longrightarrow> bucket k = bucket k' \<Longrightarrow> k = k'"
begin

text \<open>A run of insertions and removals; a removal acts only on a key that is there.\<close>

fun apply_op :: "('k \<times> 'v option) \<Rightarrow> 't \<Rightarrow> 't" where
  "apply_op (k, Some v) t = (if key_ok k then put k v t else t)"
| "apply_op (k, None) t = (if find t k = None then t else del k t)"

lemma apply_op_other: "bucket k' \<noteq> bucket k \<Longrightarrow> find (apply_op (k, ov) t) k' = find t k'"
  using find_del_other [of t k k'] by (cases ov) (auto simp: find_put_other)

lemma survives:
  "\<forall>op\<in>set ops. bucket (fst op) \<noteq> bucket k \<Longrightarrow> find (fold apply_op ops t) k = find t k"
proof (induction ops arbitrary: t)
  case (Cons op ops)
  obtain k' ov where op: "op = (k', ov)" by fastforce
  then have "bucket k \<noteq> bucket k'" using Cons.prems by (auto simp: eq_commute)
  with Cons op show ?case by (simp del: apply_op.simps add: apply_op_other)
qed simp

lemma put_survives:
  "key_ok k \<Longrightarrow> \<forall>op\<in>set ops. bucket (fst op) \<noteq> bucket k \<Longrightarrow>
     find (fold apply_op ops (put k v t)) k = Some v"
  by (simp add: survives find_put_same)

lemma find_domain_put:
  "key_ok k \<Longrightarrow> {k'. find (put k v t) k' \<noteq> None}
     = insert k {k'. find t k' \<noteq> None \<and> bucket k' \<noteq> bucket k}"
  by (auto simp: find_put_same) (metis find_put_evicts find_put_other option.distinct(1))+

end

section \<open>The slots as that table\<close>

text \<open>
  The pending request of an id: what the slot of the id holds, when it holds that id. A
  pending request is its time, its method and its span.
\<close>

type_synonym pending = "time \<times> bytes \<times> nat option"

definition find_pending :: "Correlator \<Rightarrow> bytes \<Rightarrow> pending option" where
  "find_pending c i =
     (let p = slots c (slot_index i) in
      if i \<noteq> [] \<and> slot_id p = i then Some (SentAt p, slot_method p, slot_span p) else None)"

definition put_pending :: "bytes \<Rightarrow> pending \<Rightarrow> Correlator \<Rightarrow> Correlator" where
  "put_pending i v c =
     (case v of (t, m, h) \<Rightarrow>
        set_slot (slot_index i) \<lparr>slot_id = i, SentAt = t, slot_method = m, slot_span = h\<rparr> c)"

definition del_pending :: "bytes \<Rightarrow> Correlator \<Rightarrow> Correlator" where
  "del_pending i c = set_slot (slot_index i) empty_slot c"

lemma slots_set_slot [simp]: "slots (set_slot k p c) i = (if i = k then p else slots c i)"
  by (simp add: set_slot_def)

lemma empty_slot_simps [simp]: "slot_id empty_slot = []" "slot_span empty_slot = None"
  by (simp_all add: empty_slot_def)

interpretation slots: pending_table slot_index find_pending put_pending del_pending NewCorrelator
    "\<lambda>i. i \<noteq> []"
  by unfold_locales
    (auto simp: find_pending_def put_pending_def del_pending_def NewCorrelator_def Let_def
      split: if_splits)

text \<open>\<open>Process\<close> as operations of the table.\<close>

lemma process_request_put:
  assumes "JSONRPCID msg \<noteq> []"
  shows "fst (process_request msg (c, tr)) =
    put_pending (JSONRPCID msg)
      (Timestamp msg, Method msg,
       fst (start_span (extractParentContext msg) (''mcp.request.'' @ Method msg) (request_attrs msg) tr)) c"
  by (simp add: process_request_def put_pending_def split: prod.splits)

lemma process_response_hit:
  assumes "find_pending c (JSONRPCID msg) = Some (t, m, h)"
  shows "process_response now msg (c, tr) =
    (let msg' = msg\<lparr>LatencyMS := milliseconds (time_sub now t),
                    Method := if Method msg = [] then m else Method msg\<rparr>
     in (msg', del_pending (JSONRPCID msg) c,
         case h of None \<Rightarrow> tr | Some h \<Rightarrow> span_calls (outcome_calls h msg') tr))"
  using assms
  by (auto simp: find_pending_def process_response_def del_pending_def Let_def split: if_splits option.splits)

lemma process_response_miss:
  "JSONRPCID msg \<noteq> [] \<Longrightarrow> find_pending c (JSONRPCID msg) = None \<Longrightarrow>
     process_response now msg (c, tr) = (msg, c, tr)"
  by (auto simp: find_pending_def process_response_def Let_def split: if_splits)

section \<open>The hash\<close>

text \<open>The hash as a number: the value of the bytes in base 31.\<close>

definition poly31 :: "bytes \<Rightarrow> nat" where
  "poly31 s = foldl (\<lambda>h c. h * 31 + of_char c) 0 s"

lemma poly31_snoc: "poly31 (s @ [c]) = poly31 s * 31 + of_char c"
  by (simp add: poly31_def)

lemma hashString_of_nat: "hashString s = of_nat (poly31 s)"
  by (induction s rule: rev_induct) (simp_all add: hashString_def poly31_def)

text \<open>
  The slot of an id is its base-31 value modulo 4096, so the 32-bit wrap-around of
  \<open>hashString\<close> cannot be observed and the index is always in range.
\<close>

theorem slot_index_value: "slot_index s = poly31 s mod 4096 \<and> slot_index s < NumSlots"
proof -
  have "(4096 :: nat) dvd 2 ^ 32" by simp
  then have "poly31 s mod 2 ^ 32 mod 4096 = poly31 s mod 4096" by (rule mod_mod_cancel)
  then have "slot_index s = poly31 s mod 4096"
    by (simp add: slot_index_def hashString_of_nat unat_mod unat_of_nat)
  then show ?thesis by simp
qed

section \<open>Correlation\<close>

text \<open>Whether a call of \<open>Process\<close> can write slot \<open>j\<close>.\<close>

definition touches :: "message \<Rightarrow> nat \<Rightarrow> bool" where
  "touches m j \<longleftrightarrow> JSONRPCID m \<noteq> [] \<and> MsgType m \<in> {MsgTypeRequest, MsgTypeResponse} \<and>
     slot_index (JSONRPCID m) = j"

lemma process_untouched:
  assumes "\<not> touches msg j"
  shows "slots (fst (snd (Process now msg (c, tr)))) j = slots c j"
  using assms
  by (auto simp: Process_def touches_def process_request_def process_response_def Let_def
      split: prod.splits)

lemma process_all_untouched:
  "\<forall>x\<in>set ms. \<not> touches (snd x) j \<Longrightarrow>
     slots (fst (snd (process_all ms (c, tr)))) j = slots c j"
proof (induction ms arbitrary: c tr)
  case (Cons x ms)
  obtain now msg where x: "x = (now, msg)" by fastforce
  obtain msg' c' tr' where p: "Process now msg (c, tr) = (msg', c', tr')" by (metis prod_cases3)
  have "slots c' j = slots c j" using process_untouched [of msg j now c tr] Cons.prems x p by simp
  then show ?case using Cons x p by (simp add: split_def Let_def)
qed simp

lemma find_pending_slot:
  "slots c (slot_index i) = slots c' (slot_index i) \<Longrightarrow> find_pending c i = find_pending c' i"
  by (simp add: find_pending_def)

lemma process_response_kind:
  "JSONRPCID m \<noteq> [] \<Longrightarrow> MsgType m = MsgTypeResponse \<Longrightarrow> Process now m st = process_response now m st"
  by (simp add: Process_def)

lemma process_request_kind:
  "JSONRPCID m \<noteq> [] \<Longrightarrow> MsgType m = MsgTypeRequest \<Longrightarrow> Process now m st = (m, process_request m st)"
  by (simp add: Process_def)

lemma pending_after_request:
  assumes "JSONRPCID req = i" "i \<noteq> []" "MsgType req = MsgTypeRequest"
  shows "\<exists>h. find_pending (fst (snd (Process t req st))) i = Some (Timestamp req, Method req, h)"
proof -
  obtain c tr where st: "st = (c, tr)" by fastforce
  show ?thesis
    using process_request_put [of req c tr] assms
    by (auto simp: st process_request_kind slots.find_put_same)
qed

lemma response_of_request:
  assumes "MsgType req = MsgTypeRequest" "MsgType resp = MsgTypeResponse"
    and "JSONRPCID req = i" "JSONRPCID resp = i" "i \<noteq> []"
    and "\<forall>x\<in>set between. \<not> touches (snd x) (slot_index i)"
    and "Timestamp req \<le> now" "int64_range (now - Timestamp req)"
  shows "let st1 = snd (Process t req st); st2 = snd (process_all between st1);
             (resp', c, tr) = Process now resp st2 in
         resp' = resp\<lparr>LatencyMS := (now - Timestamp req) div 1000000,
                      Method := if Method resp = [] then Method req else Method resp\<rparr> \<and>
         find_pending c i = None"
proof -
  obtain c1 tr1 where st1: "snd (Process t req st) = (c1, tr1)" by fastforce
  obtain c2 tr2 where st2: "snd (process_all between (c1, tr1)) = (c2, tr2)" by fastforce
  obtain h where "find_pending c1 i = Some (Timestamp req, Method req, h)"
    using pending_after_request [of req i t st] assms st1 by auto
  moreover have "slots c2 (slot_index i) = slots c1 (slot_index i)"
    using process_all_untouched [of between "slot_index i" c1 tr1] assms(6) st2 by simp
  ultimately have pend: "find_pending c2 i = Some (Timestamp req, Method req, h)"
    using find_pending_slot by metis
  then have "find_pending (del_pending i c2) i = None" using slots.find_del_same by blast
  with pend show ?thesis
    using assms process_response_hit [of c2 resp "Timestamp req" "Method req" h now tr2]
    by (simp add: st1 st2 process_response_kind Let_def milliseconds_elapsed)
qed

text \<open>
  C21. Correlation: when a request has been processed, any messages that do not touch its slot
  have been processed since, and then the response with its id arrives, the response leaves
  with the whole milliseconds since the request's timestamp as its latency and, if it had no
  method, the request's method; nothing else of it changes and the slot is free again.
\<close>

theorem correlate:
  assumes "MsgType req = MsgTypeRequest" "MsgType resp = MsgTypeResponse"
    and "JSONRPCID req = i" "JSONRPCID resp = i" "i \<noteq> []"
    and "\<forall>x\<in>set between. \<not> touches (snd x) (slot_index i)"
    and "Timestamp req \<le> now" "int64_range (now - Timestamp req)"
  shows "let st1 = snd (Process t req st); st2 = snd (process_all between st1);
             (resp', c, tr) = Process now resp st2 in
         resp' = resp\<lparr>LatencyMS := (now - Timestamp req) div 1000000,
                      Method := if Method resp = [] then Method req else Method resp\<rparr> \<and>
         find_pending c i = None"
  using response_of_request [OF assms] .

text \<open>
  A response nobody waits for (its id was never requested, was already answered, or its
  slot was taken over) passes through \<open>Process\<close> unchanged and leaves the table and the spans
  alone.
\<close>

theorem orphan_unchanged:
  assumes "MsgType resp = MsgTypeResponse" "find_pending c (JSONRPCID resp) = None"
  shows "Process now resp (c, tr) = (resp, c, tr)"
  using assms process_response_miss [of resp c now tr] by (simp add: Process_def)

text \<open>
  Collisions evict: after a request whose id falls into the slot of a pending request
  with another id, the earlier request is forgotten, its response is an orphan, and the later
  request is the one that is pending; every pending request of another slot stays.
\<close>

theorem collision_evicts:
  assumes "MsgType req = MsgTypeRequest" "JSONRPCID req = j" "j \<noteq> []"
    and "slot_index i = slot_index j" "i \<noteq> j"
  shows "let c' = fst (snd (Process t req (c, tr))) in
         find_pending c' i = None \<and> find_pending c' j \<noteq> None \<and>
         (slot_index k \<noteq> slot_index j \<longrightarrow> find_pending c' k = find_pending c k)"
  using assms process_request_put [of req c tr]
  by (simp add: process_request_kind Let_def slots.find_put_same slots.find_put_evicts
      slots.find_put_other)

section \<open>Spans\<close>

definition slot_spans :: "Correlator \<Rightarrow> nat \<Rightarrow> nat option" where
  "slot_spans c i = slot_span (slots c i)"

definition spans_inv :: "Correlator \<times> tracer \<Rightarrow> bool" where
  "spans_inv st \<longleftrightarrow>
     (\<exists>ended. span_check (tr_calls (snd st)) = Some (tr_next (snd st), ended) \<and>
        (\<forall>i h. slot_spans (fst st) i = Some h \<longrightarrow> h < tr_next (snd st) \<and> h \<notin> set ended) \<and>
        (\<forall>i j h. slot_spans (fst st) i = Some h \<longrightarrow> slot_spans (fst st) j = Some h \<longrightarrow> i = j))"

lemma slot_spans_set [simp]:
  "slot_spans (set_slot k p c) i = (if i = k then slot_span p else slot_spans c i)"
  by (simp add: slot_spans_def)

lemma spans_inv_new [sanitary]: "spans_inv (NewCorrelator, new_tracer on)"
  by (simp add: spans_inv_def new_tracer_def NewCorrelator_def slot_spans_def)

lemma spans_inv_request [sanitary]:
  assumes "spans_inv st" shows "spans_inv (process_request msg st)"
proof -
  obtain c tr where st: "st = (c, tr)" by fastforce
  obtain ended where e: "span_check (tr_calls tr) = Some (tr_next tr, ended)"
      and s: "\<And>i h. slot_spans c i = Some h \<Longrightarrow> h < tr_next tr \<and> h \<notin> set ended"
      and u: "\<And>i j h. slot_spans c i = Some h \<Longrightarrow> slot_spans c j = Some h \<Longrightarrow> i = j"
    using assms by (auto simp: spans_inv_def st)
  show ?thesis
  proof (cases "tr_on tr")
    case False
    with e s u show ?thesis
      by (auto simp: st spans_inv_def process_request_def start_span_def)
  next
    case True
    have "tr_next tr \<notin> set ended" using span_check_ended [OF e] by blast
    with True e s u show ?thesis
      by (auto simp: st spans_inv_def process_request_def start_span_def span_check_append
          less_Suc_eq dest!: s split: if_splits)
  qed
qed

lemma outcome_calls_check:
  "h < n \<Longrightarrow> h \<notin> set ended \<Longrightarrow>
     foldl span_step (Some (n, ended)) (outcome_calls h msg) = Some (n, h # ended)"
  by (simp add: outcome_calls_def)

lemma spans_inv_response [sanitary]:
  assumes "spans_inv st" shows "spans_inv (snd (process_response now msg st))"
proof -
  obtain c tr where st: "st = (c, tr)" by fastforce
  obtain ended where e: "span_check (tr_calls tr) = Some (tr_next tr, ended)"
      and s: "\<And>i h. slot_spans c i = Some h \<Longrightarrow> h < tr_next tr \<and> h \<notin> set ended"
      and u: "\<And>i j h. slot_spans c i = Some h \<Longrightarrow> slot_spans c j = Some h \<Longrightarrow> i = j"
    using assms by (auto simp: spans_inv_def st)
  let ?i = "slot_index (JSONRPCID msg)"
  show ?thesis
  proof (cases "slot_id (slots c ?i) = JSONRPCID msg")
    case False
    with assms st show ?thesis by (simp add: process_response_def Let_def)
  next
    case True
    show ?thesis
    proof (cases "slot_span (slots c ?i)")
      case None
      with True e s u st show ?thesis
        by (auto simp: process_response_def spans_inv_def Let_def split: if_splits)
    next
      case (Some h)
      then have h: "slot_spans c ?i = Some h" by (simp add: slot_spans_def)
      with s have "h < tr_next tr" "h \<notin> set ended" by blast+
      with True Some e s u st h show ?thesis
        by (auto simp: process_response_def spans_inv_def Let_def span_check_append
            outcome_calls_check split: if_splits)
    qed
  qed
qed

lemma spans_inv_process [sanitary]:
  "spans_inv st \<Longrightarrow> spans_inv (snd (Process now msg st))"
  by (simp add: Process_def spans_inv_request spans_inv_response)

lemma spans_inv_all [sanitary]: "spans_inv st \<Longrightarrow> spans_inv (snd (process_all ms st))"
proof (induction ms arbitrary: st)
  case (Cons x ms)
  obtain now msg where "x = (now, msg)" by fastforce
  with Cons spans_inv_process [of st now msg] show ?case by (simp add: split_def Let_def)
qed simp

text \<open>
  C24. The correlator keeps the protocol of its spans on every input: starting from
  \<open>NewCorrelator\<close>, whatever messages arrive in whatever order, a span is used only after it
  was started, is ended at most once, and is never touched after it was ended.
\<close>

theorem spans_protocol:
  "span_check (tr_calls (snd (snd (process_all ms (NewCorrelator, new_tracer on))))) \<noteq> None"
  using spans_inv_all [OF spans_inv_new, of ms on] by (auto simp: spans_inv_def)

text \<open>A span that is in no slot is never used again: only \<open>Process\<close> ends spans.\<close>

definition abandoned :: "nat \<Rightarrow> Correlator \<times> tracer \<Rightarrow> bool" where
  "abandoned h st \<longleftrightarrow> h < tr_next (snd st) \<and> (\<forall>i. slot_spans (fst st) i \<noteq> Some h) \<and>
     EndSpan h \<notin> set (tr_calls (snd st))"

lemma outcome_calls_end: "EndSpan h \<in> set (outcome_calls h' msg) \<longleftrightarrow> h' = h"
  by (auto simp: outcome_calls_def)

lemma abandoned_process: "abandoned h st \<Longrightarrow> abandoned h (snd (Process now msg st))"
  by (cases st)
    (auto simp: abandoned_def Process_def process_request_def process_response_def start_span_def
      Let_def outcome_calls_end slot_spans_def split: option.splits)

lemma abandoned_all: "abandoned h st \<Longrightarrow> abandoned h (snd (process_all ms st))"
proof (induction ms arbitrary: st)
  case (Cons x ms)
  obtain now msg where "x = (now, msg)" by fastforce
  with Cons abandoned_process [of h st now msg] show ?case by (simp add: split_def Let_def)
qed simp

text \<open>
  The span of an evicted request leaks: when a request overwrites a slot that holds a
  live span (a collision, or the same id sent again), that span is ended neither then nor by
  anything processed later.
\<close>

theorem evicted_span_leaks:
  assumes "spans_inv (c, tr)" "MsgType req = MsgTypeRequest" "JSONRPCID req \<noteq> []"
    and "slot_spans c (slot_index (JSONRPCID req)) = Some h"
    and "EndSpan h \<notin> set (tr_calls tr)"
  shows "EndSpan h \<notin> set (tr_calls (snd (snd (process_all ms (snd (Process t req (c, tr)))))))"
proof -
  have h: "h < tr_next tr" and u: "\<And>i. slot_spans c i = Some h \<Longrightarrow> i = slot_index (JSONRPCID req)"
    using assms by (auto simp: spans_inv_def)
  have "abandoned h (snd (Process t req (c, tr)))"
    using assms(2,3,5) h u
    by (auto simp: abandoned_def process_request_kind process_request_def start_span_def less_Suc_eq)
  then show ?thesis using abandoned_all by (auto simp: abandoned_def)
qed

section \<open>Concrete runs\<close>

definition example_request :: "bytes \<Rightarrow> message" where
  "example_request i = zero_message\<lparr>MsgType := MsgTypeRequest, JSONRPCID := i,
     Method := ''tools/call'', Timestamp := 1000000000\<rparr>"

definition example_response :: "bytes \<Rightarrow> message" where
  "example_response i = zero_message\<lparr>MsgType := MsgTypeResponse, JSONRPCID := i\<rparr>"

lemma example_simps [simp]:
  "MsgType (example_request i) = MsgTypeRequest" "JSONRPCID (example_request i) = i"
  "Method (example_request i) = ''tools/call''" "Timestamp (example_request i) = 1000000000"
  "MsgType (example_response i) = MsgTypeResponse" "JSONRPCID (example_response i) = i"
  "Method (example_response i) = []" "Params (example_request i) = []"
  by (simp_all add: example_request_def example_response_def zero_message_def)

lemma example_slots:
  "slot_index ''1'' = 49" "slot_index ''2'' = 50" "slot_index ''b!'' = 3071" "slot_index ''a@'' = 3071"
  by code_simp+

lemma correlate_witness:
  "let st1 = snd (Process 0 (example_request ''1'') (NewCorrelator, new_tracer True));
       st2 = snd (process_all [(7, example_request ''2'')] st1) in
   LatencyMS (fst (Process 1050000000 (example_response ''1'') st2)) = 50 \<and>
   Method (fst (Process 1050000000 (example_response ''1'') st2)) = ''tools/call''"
  using correlate [of "example_request ''1''" "example_response ''1''" "''1''"
      "[(7, example_request ''2'')]" 1050000000 0 "(NewCorrelator, new_tracer True)"]
  by (simp add: touches_def example_slots int64_range_def Let_def split_def)

lemma orphan_unchanged_witness:
  "Process 9 (example_response ''1'') (NewCorrelator, new_tracer True)
     = (example_response ''1'', NewCorrelator, new_tracer True)"
  using orphan_unchanged [of "example_response ''1''" NewCorrelator 9 "new_tracer True"]
  by (simp add: slots.find_fresh)

lemma collision_evicts_witness:
  "find_pending (fst (snd (Process 0 (example_request ''a@'')
       (put_pending ''b!'' (3, ''ping'', None) NewCorrelator, new_tracer False)))) ''b!'' = None"
  using collision_evicts [of "example_request ''a@''" "''a@''" "''b!''" 0
      "put_pending ''b!'' (3, ''ping'', None) NewCorrelator" "new_tracer False" "[]"]
  by (simp add: example_slots Let_def)

lemma evicted_span_leaks_witness:
  "let st = snd (Process 0 (example_request ''b!'') (NewCorrelator, new_tracer True)) in
   EndSpan 0 \<notin> set (tr_calls (snd (snd (process_all [(9, example_response ''b!'')]
     (snd (Process 1 (example_request ''a@'') st))))))"
proof -
  let ?st = "snd (Process 0 (example_request ''b!'') (NewCorrelator, new_tracer True))"
  obtain c tr where st: "?st = (c, tr)" by fastforce
  have "spans_inv ?st" by (intro sanitary)
  moreover have "slot_spans (fst ?st) 3071 = Some 0" "EndSpan 0 \<notin> set (tr_calls (snd ?st))"
    by (simp_all add: process_request_kind process_request_def example_slots start_span_def
        new_tracer_def NewCorrelator_def span_calls_def)
  ultimately show ?thesis
    using evicted_span_leaks [of c tr "example_request ''a@''" 0 "[(9, example_response ''b!'')]" 1] st
    by (simp add: example_slots Let_def)
qed

end
