(* ===== verification/Go_Time.thy ===== *)
theory Go_Time
  imports Engine_Message
begin

text \<open>
  Go's \<open>time.Time.Format\<close> for the two layouts the program uses, RFC 3339 with seconds and with
  nanoseconds. An instant is an \<open>int\<close> of nanoseconds since the Unix epoch; the local zone is
  the environment's, a function from instants to the offset east of Greenwich in seconds.
\<close>

section \<open>The civil calendar\<close>

text \<open>
  The date of a day number. Days are counted from March 1 of the year 0, so that a leap day is
  the last of its year, and split into eras of 400 years, centuries, groups of four years and
  years; a century has 36524 days and the last of an era one more, as has the last year of
  each group of four.
\<close>

definition year_and_day :: "int \<Rightarrow> int \<times> int" where
  "year_and_day doe =
     (let c = min 3 (doe div 36524); dc = doe - c * 36524;
          q = dc div 1461; dq = dc - q * 1461;
          a = min 3 (dq div 365)
      in (100 * c + 4 * q + a, dq - a * 365))"

definition civil_of_days :: "int \<Rightarrow> int \<times> int \<times> int" where
  "civil_of_days n =
     (let z = n + 719468; (yoe, doy) = year_and_day (z mod 146097);
          mp = (5 * doy + 2) div 153;
          m = (if mp < 10 then mp + 3 else mp - 9)
      in (yoe + z div 146097 * 400 + (if m \<le> 2 then 1 else 0), m, doy - (153 * mp + 2) div 5 + 1))"

text \<open>The day number of a date, and the dates of the calendar.\<close>

definition days_of_civil :: "int \<times> int \<times> int \<Rightarrow> int" where
  "days_of_civil = (\<lambda>(y, m, d).
     let y' = (if m \<le> 2 then y - 1 else y); yoe = y' mod 400;
         doy = (153 * (if m > 2 then m - 3 else m + 9) + 2) div 5 + d - 1
     in y' div 400 * 146097 + yoe * 365 + yoe div 4 - yoe div 100 + doy - 719468)"

lemma year_and_day:
  assumes "0 \<le> doe" "doe < 146097" "year_and_day doe = (yoe, doy)"
  shows "0 \<le> yoe \<and> yoe < 400 \<and> 0 \<le> doy \<and> doy < 366 \<and>
    yoe * 365 + yoe div 4 - yoe div 100 + doy = doe"
proof -
  define c where "c = min 3 (doe div 36524)"
  define dc where "dc = doe - c * 36524"
  define q where "q = dc div 1461"
  define dq where "dq = dc - q * 1461"
  define a where "a = min 3 (dq div 365)"
  have y: "yoe = 100 * c + 4 * q + a" and d: "doy = dq - a * 365"
    using assms(3) by (simp_all add: year_and_day_def Let_def c_def dc_def q_def dq_def a_def)
  have c: "0 \<le> c" "c \<le> 3" "0 \<le> dc" "dc < 36525"
    using assms(1,2) by (auto simp: c_def dc_def min_def)
  have q: "0 \<le> q" "q \<le> 24" "0 \<le> dq" "dq < 1461"
    using c by (auto simp: q_def dq_def)
  have a: "0 \<le> a" "a \<le> 3" "0 \<le> doy" "doy < 366"
    using q by (auto simp: a_def d min_def)
  have "yoe div 4 = 25 * c + q" using a by (simp add: y)
  moreover have "yoe div 100 = c" using a q by (simp add: y)
  ultimately show ?thesis
    using a q c by (simp add: y d dq_def dc_def)
qed

lemma civil_of_days_inverse [simp]: "days_of_civil (civil_of_days n) = n"
proof -
  define z where "z = n + 719468"
  obtain yoe doy where yd: "year_and_day (z mod 146097) = (yoe, doy)" by fastforce
  have b: "0 \<le> yoe" "yoe < 400" "0 \<le> doy" "doy < 366"
    and sum: "yoe * 365 + yoe div 4 - yoe div 100 + doy = z mod 146097"
    using year_and_day [OF _ _ yd] by simp_all
  define mp where "mp = (5 * doy + 2) div 153"
  define d where "d = doy - (153 * mp + 2) div 5 + 1"
  have mp: "0 \<le> mp" "mp < 12" using b by (auto simp: mp_def)
  define m where "m = (if mp < 10 then mp + 3 else mp - 9)"
  have civil: "civil_of_days n = (yoe + z div 146097 * 400 + (if m \<le> 2 then 1 else 0), m, d)"
    by (simp add: civil_of_days_def yd m_def d_def mp_def Let_def flip: z_def)
  have month: "(if m > 2 then m - 3 else m + 9) = mp" using mp by (simp add: m_def)
  have year: "(if m \<le> 2 then yoe + z div 146097 * 400 + (if m \<le> 2 then 1 else 0) - 1
      else yoe + z div 146097 * 400 + (if m \<le> 2 then 1 else 0)) = yoe + z div 146097 * 400"
    by simp
  have "days_of_civil (civil_of_days n) =
      z div 146097 * 146097 + yoe * 365 + yoe div 4 - yoe div 100 + doy - 719468"
    unfolding civil days_of_civil_def prod.case Let_def year month using b by (simp add: d_def)
  also have "\<dots> = z div 146097 * 146097 + z mod 146097 - 719468"
    unfolding sum [symmetric] by simp
  also have "\<dots> = n" by (simp add: z_def)
  finally show ?thesis .
qed

lemma civil_of_days_range:
  assumes "civil_of_days n = (y, m, d)"
  shows "1 \<le> m \<and> m \<le> 12 \<and> 1 \<le> d \<and> d \<le> 31"
proof -
  define z where "z = n + 719468"
  obtain yoe doy where yd: "year_and_day (z mod 146097) = (yoe, doy)" by fastforce
  have b: "0 \<le> doy" "doy < 366" using year_and_day [OF _ _ yd] by simp_all
  define mp where "mp = (5 * doy + 2) div 153"
  have mp: "0 \<le> mp" "mp < 12" using b by (auto simp: mp_def)
  have "(y, m, d) = civil_of_days n" using assms by simp
  also have "\<dots> = (let m = (if mp < 10 then mp + 3 else mp - 9) in
      (yoe + z div 146097 * 400 + (if m \<le> 2 then 1 else 0), m, doy - (153 * mp + 2) div 5 + 1))"
    by (simp add: civil_of_days_def yd mp_def Let_def flip: z_def)
  finally have "d = doy - (153 * mp + 2) div 5 + 1" "m = (if mp < 10 then mp + 3 else mp - 9)"
    by (simp_all only: Let_def prod.inject)
  moreover have "153 * mp \<le> 5 * doy + 2" "5 * doy + 2 < 153 * mp + 153"
    by (simp_all add: mp_def)
  then have "(153 * mp + 2) div 5 \<le> doy" "doy \<le> (153 * mp + 2) div 5 + 30"
    by simp_all
  ultimately show ?thesis using mp by auto
qed

section \<open>Layouts\<close>

definition pad :: "nat \<Rightarrow> int \<Rightarrow> bytes" where
  "pad w i = (if i < 0 then ''-'' else []) @
     replicate (w - length (decimal \<bar>i\<bar>)) CHR ''0'' @ decimal \<bar>i\<bar>"

definition zone_text :: "int \<Rightarrow> bytes" where
  "zone_text offset =
     (if offset = 0 then ''Z''
      else let zone = go_quot offset 60 in
        (if zone < 0 then ''-'' else ''+'') @ pad 2 (\<bar>zone\<bar> div 60) @ '':'' @ pad 2 (\<bar>zone\<bar> mod 60))"

definition clock_text :: "int \<Rightarrow> bytes" where
  "clock_text s = pad 2 (s div 3600) @ '':'' @ pad 2 (s mod 3600 div 60) @ '':'' @ pad 2 (s mod 60)"

definition date_text :: "int \<times> int \<times> int \<Rightarrow> bytes" where
  "date_text = (\<lambda>(y, m, d). pad 4 y @ ''-'' @ pad 2 m @ ''-'' @ pad 2 d)"

text \<open>The nanoseconds without their trailing zeros, and nothing for a whole second.\<close>

definition fraction_text :: "int \<Rightarrow> bytes" where
  "fraction_text ns = (if ns = 0 then [] else CHR ''.'' # strip_zeros (pad 9 ns))"

definition local_seconds :: "(time \<Rightarrow> int) \<Rightarrow> time \<Rightarrow> int" where
  "local_seconds zone t = t div 1000000000 + zone t"

definition format_with :: "(int \<Rightarrow> bytes) \<Rightarrow> (time \<Rightarrow> int) \<Rightarrow> time \<Rightarrow> bytes" where
  "format_with part zone t =
     (let s = local_seconds zone t in
      date_text (civil_of_days (s div 86400)) @ ''T'' @ clock_text (s mod 86400) @
      part (t mod 1000000000) @ zone_text (zone t))"

definition RFC3339 :: "(time \<Rightarrow> int) \<Rightarrow> time \<Rightarrow> bytes" where
  "RFC3339 = format_with (\<lambda>ns. [])"

definition RFC3339Nano :: "(time \<Rightarrow> int) \<Rightarrow> time \<Rightarrow> bytes" where
  "RFC3339Nano = format_with fraction_text"

section \<open>Printed texts are ASCII\<close>

lemma ascii_valid : "list_all ascii s \<Longrightarrow> valid_utf8 s"
proof (induction s)
  case (Cons a s)
  then show ?case using is_rune_valid [OF is_rune_ascii, of a s] by simp
qed simp

lemma digit_ascii: "is_digit c \<Longrightarrow> ascii c"
  by (simp add: is_digit_def ascii_def byte_in_def)

lemma decimal_ascii: "0 \<le> n \<Longrightarrow> list_all ascii (decimal n)"
  using decimal_digits [of n] digit_ascii by (auto simp: list_all_iff)

lemma ascii_simps [simp]:
  "ascii CHR ''0''" "ascii CHR ''-''" "ascii CHR ''+''" "ascii CHR '':''" "ascii CHR ''.''"
  "ascii CHR ''T''" "ascii CHR ''Z''"
  by (simp_all add: ascii_def byte_in_def)

lemma list_all_replicate_ascii [simp]: "list_all ascii (replicate n CHR ''0'')"
  by (simp add: list_all_iff)

lemma pad_ascii [simp]: "list_all ascii (pad w i)"
  by (simp add: pad_def decimal_ascii)

lemma format_d_ascii [simp]: "list_all ascii (format_d i)"
  by (simp add: format_d_def decimal_ascii)

lemma strip_zeros_ascii: "list_all ascii ds \<Longrightarrow> list_all ascii (strip_zeros ds)"
  by (auto simp: strip_zeros_def list_all_iff dest: set_dropWhileD)

lemma format_with_ascii:
  "(\<And>ns. list_all ascii (part ns)) \<Longrightarrow> list_all ascii (format_with part zone t)"
  by (simp add: format_with_def Let_def date_text_def clock_text_def zone_text_def split_def)

lemma RFC3339_ascii [simp]: "list_all ascii (RFC3339 zone t)" "list_all ascii (RFC3339Nano zone t)"
  by (simp_all add: RFC3339_def RFC3339Nano_def format_with_ascii fraction_text_def strip_zeros_ascii)

end
