(* ===== verification/Engine_Marshal.thy ===== *)
theory Engine_Marshal
  imports Go_Time Go_JSON_Struct
begin

text \<open>
  \<open>json.Marshal\<close> on a \<open>Message\<close>: the fields in the order of the struct under the names of their
  tags. An \<open>int64\<close> is written in full, not as a \<open>float64\<close>, and a \<open>time.Time\<close> as a quoted RFC 3339
  text, unless its year has not four digits, which is an error.
\<close>

definition local_year :: "(time \<Rightarrow> int) \<Rightarrow> time \<Rightarrow> int" where
  "local_year zone t = fst (civil_of_days (local_seconds zone t div 86400))"

definition time_text :: "(time \<Rightarrow> int) \<Rightarrow> time \<Rightarrow> bytes option" where
  "time_text zone t =
     (if 0 \<le> local_year zone t \<and> local_year zone t \<le> 9999 then Some (quote (RFC3339Nano zone t)) else None)"

definition message_fields :: "bytes \<Rightarrow> message \<Rightarrow> (bytes \<times> bytes) list" where
  "message_fields timestamp m =
     [(''id'', format_d (ID m)),
      (''timestamp'', timestamp),
      (''transport'', string_text (Transport m)),
      (''direction'', string_text (Direction m)),
      (''msg_type'', string_text (MsgType m)),
      (''method'', string_text (Method m)),
      (''jsonrpc_id'', string_text (JSONRPCID m)),
      (''params'', string_text (Params m)),
      (''result'', string_text (Result m)),
      (''error_data'', string_text (ErrorData m)),
      (''latency_ms'', format_d (LatencyMS m)),
      (''size_bytes'', format_d (SizeBytes m)),
      (''token_estimate'', format_d (TokenEstimate m)),
      (''error_code'', string_text (ErrorCode m)),
      (''raw'', string_text (Raw m))]"

definition message_text :: "(time \<Rightarrow> int) \<Rightarrow> message \<Rightarrow> bytes option" where
  "message_text zone m =
     map_option (\<lambda>timestamp. struct_text (message_fields timestamp m)) (time_text zone (Timestamp m))"

text \<open>A slice of messages: \<open>null\<close> for the nil slice the queries return when they find nothing.\<close>

fun all_some :: "'a option list \<Rightarrow> 'a list option" where
  "all_some [] = Some []"
| "all_some (x # xs) = (case x of None \<Rightarrow> None | Some y \<Rightarrow> map_option (Cons y) (all_some xs))"

definition messages_text :: "(time \<Rightarrow> int) \<Rightarrow> message list \<Rightarrow> bytes option" where
  "messages_text zone ms =
     (if ms = [] then Some ''null''
      else map_option (\<lambda>ts. lbrack # commas ts @ [rbrack]) (all_some (map (message_text zone) ms)))"

end
