(* ===== verification/Metrics_Record.thy ===== *)
theory Metrics_Record
  imports Go_Time
begin

text \<open>
  \<open>internal/metrics/metrics.go\<close>: the Prometheus vectors and what \<open>RecordMetrics\<close> does to them.
  The client library is not part of the repository, so a call is recorded as data: the vector,
  the label values and the amount. \<open>admissible\<close> is when, by its documentation, such a call does
  not panic: as many label values as the vector has label names, every value valid UTF-8, and
  nothing negative added to a counter.
\<close>

section \<open>The vectors\<close>

datatype vec_kind = CounterVec | HistogramVec "nat list"

record vec =
  vec_name :: bytes
  vec_kind :: vec_kind
  vec_labels :: "bytes list"

definition MessagesTotal :: vec where
  "MessagesTotal = \<lparr>vec_name = ''mcp_messages_total'', vec_kind = CounterVec,
     vec_labels = [''transport'', ''direction'', ''msg_type'']\<rparr>"

definition RequestsTotal :: vec where
  "RequestsTotal = \<lparr>vec_name = ''mcp_requests_total'', vec_kind = CounterVec,
     vec_labels = [''method'', ''status'']\<rparr>"

text \<open>The bucket bounds are in milliseconds here.\<close>

definition RequestDuration :: vec where
  "RequestDuration = \<lparr>vec_name = ''mcp_request_duration_seconds'',
     vec_kind = HistogramVec [5, 10, 25, 50, 100, 250, 500, 1000, 2500, 5000, 10000],
     vec_labels = [''method'']\<rparr>"

definition BytesTotal :: vec where
  "BytesTotal = \<lparr>vec_name = ''mcp_bytes_total'', vec_kind = CounterVec,
     vec_labels = [''transport'', ''direction'']\<rparr>"

definition TokensTotal :: vec where
  "TokensTotal = \<lparr>vec_name = ''mcp_tokens_estimated_total'', vec_kind = CounterVec,
     vec_labels = [''transport'']\<rparr>"

lemmas vec_defs = MessagesTotal_def RequestsTotal_def RequestDuration_def BytesTotal_def TokensTotal_def

lemma vec_distinct [simp]:
  "MessagesTotal \<noteq> RequestsTotal" "MessagesTotal \<noteq> RequestDuration" "MessagesTotal \<noteq> BytesTotal"
  "MessagesTotal \<noteq> TokensTotal" "RequestsTotal \<noteq> RequestDuration" "RequestsTotal \<noteq> BytesTotal"
  "RequestsTotal \<noteq> TokensTotal" "RequestDuration \<noteq> BytesTotal" "RequestDuration \<noteq> TokensTotal"
  "BytesTotal \<noteq> TokensTotal"
  by (simp_all add: vec_defs)

lemmas vec_neq [simp] = vec_distinct vec_distinct [symmetric]

section \<open>Recording\<close>

text \<open>\<open>vec.WithLabelValues(labels...)\<close> followed by \<open>Inc\<close>, \<open>Add\<close> or \<open>Observe\<close>.\<close>

datatype metric_call =
    Inc vec "bytes list"
  | AddTo vec "bytes list" float64
  | Observe vec "bytes list" float64

definition response_error :: "message \<Rightarrow> bool" where
  "response_error msg \<longleftrightarrow> ErrorCode msg \<noteq> [] \<or> (ErrorData msg \<noteq> [] \<and> ErrorData msg \<noteq> ''null'')"

definition status_label :: "message \<Rightarrow> bytes" where
  "status_label msg = (if response_error msg then ''error'' else ''success'')"

definition record_response :: "message \<Rightarrow> metric_call list" where
  "record_response msg =
     Inc RequestsTotal [Method msg, status_label msg] #
     (if LatencyMS msg > 0
      then [Observe RequestDuration [Method msg] (f64_div (f64_of_int (LatencyMS msg)) (f64_of_int 1000))]
      else [])"

definition RecordMetrics :: "message option \<Rightarrow> metric_call list" where
  "RecordMetrics msg =
     (case msg of
        None \<Rightarrow> []
      | Some msg \<Rightarrow>
          [Inc MessagesTotal [Transport msg, Direction msg, MsgType msg],
           AddTo BytesTotal [Transport msg, Direction msg] (f64_of_int (SizeBytes msg))] @
          (if TokenEstimate msg > 0
           then [AddTo TokensTotal [Transport msg] (f64_of_int (TokenEstimate msg))] else []) @
          (if MsgType msg = MsgTypeResponse then record_response msg else []))"

section \<open>Admissible calls\<close>

definition labels_ok :: "vec \<Rightarrow> bytes list \<Rightarrow> bool" where
  "labels_ok v ls \<longleftrightarrow> length ls = length (vec_labels v) \<and> list_all valid_utf8 ls"

fun f64_nonneg :: "float64 \<Rightarrow> bool" where
  "f64_nonneg (Fin s m e) = (\<not> s)"
| "f64_nonneg (Inf s) = (\<not> s)"
| "f64_nonneg NaN = False"

fun admissible :: "metric_call \<Rightarrow> bool" where
  "admissible (Inc v ls) = labels_ok v ls"
| "admissible (AddTo v ls x) = (labels_ok v ls \<and> f64_nonneg x)"
| "admissible (Observe v ls x) = labels_ok v ls"

text \<open>What a message needs for its calls to be admissible.\<close>

definition labels_valid :: "message \<Rightarrow> bool" where
  "labels_valid m \<longleftrightarrow> valid_utf8 (Transport m) \<and> valid_utf8 (Direction m) \<and> valid_utf8 (MsgType m) \<and>
     valid_utf8 (Method m) \<and> 0 \<le> SizeBytes m"

lemma f64_of_int_nonneg: "0 \<le> n \<Longrightarrow> f64_nonneg (f64_of_int n)"
  by (simp add: f64_of_int_def f64_of_ratio_def Let_def)

lemma RecordMetrics_admissible:
  assumes "labels_valid m"
  shows "list_all admissible (RecordMetrics (Some m))"
proof -
  have "valid_utf8 (status_label m)"
    by (rule ascii_valid) (simp add: status_label_def ascii_def byte_in_def)
  then show ?thesis
    using assms
    by (simp add: RecordMetrics_def record_response_def labels_valid_def labels_ok_def vec_defs
        f64_of_int_nonneg)
qed

section \<open>What the vectors have counted\<close>

definition incs :: "vec \<Rightarrow> bytes list \<Rightarrow> metric_call list \<Rightarrow> nat" where
  "incs v ls calls = length (filter (\<lambda>c. c = Inc v ls) calls)"

definition added :: "vec \<Rightarrow> bytes list \<Rightarrow> metric_call list \<Rightarrow> float64 list" where
  "added v ls calls =
     List.map_filter (\<lambda>c. case c of AddTo v' ls' x \<Rightarrow> if v' = v \<and> ls' = ls then Some x else None | _ \<Rightarrow> None) calls"

definition observed :: "vec \<Rightarrow> bytes list \<Rightarrow> metric_call list \<Rightarrow> float64 list" where
  "observed v ls calls =
     List.map_filter (\<lambda>c. case c of Observe v' ls' x \<Rightarrow> if v' = v \<and> ls' = ls then Some x else None | _ \<Rightarrow> None) calls"

definition record_all :: "message list \<Rightarrow> metric_call list" where
  "record_all ms = concat (map (\<lambda>m. RecordMetrics (Some m)) ms)"

lemma count_append [simp]:
  "incs v ls (xs @ ys) = incs v ls xs + incs v ls ys"
  "added v ls (xs @ ys) = added v ls xs @ added v ls ys"
  "observed v ls (xs @ ys) = observed v ls xs @ observed v ls ys"
  by (simp_all add: incs_def added_def observed_def List.map_filter_def)

lemma count_simps [simp]:
  "incs v ls [] = 0" "added v ls [] = []" "observed v ls [] = []"
  "incs v ls (c # cs) = (if c = Inc v ls then 1 else 0) + incs v ls cs"
  "added v ls (AddTo v' ls' x # cs) = (if v' = v \<and> ls' = ls then [x] else []) @ added v ls cs"
  "added v ls (Inc v' ls' # cs) = added v ls cs"
  "added v ls (Observe v' ls' x # cs) = added v ls cs"
  "observed v ls (Observe v' ls' x # cs) = (if v' = v \<and> ls' = ls then [x] else []) @ observed v ls cs"
  "observed v ls (Inc v' ls' # cs) = observed v ls cs"
  "observed v ls (AddTo v' ls' x # cs) = observed v ls cs"
  by (simp_all add: incs_def added_def observed_def List.map_filter_def)

lemma record_all_simps [simp]:
  "record_all [] = []" "record_all (m # ms) = RecordMetrics (Some m) @ record_all ms"
  by (simp_all add: record_all_def)

text \<open>
  The metrics add up: over any sequence of messages each message counter is the number of
  messages with its labels, the request counters count the responses of a method by outcome,
  the byte and token counters have received the sizes and positive token estimates of exactly
  the messages with their labels, and the histogram of a method the positive latencies of its
  responses.
\<close>

theorem metrics_account:
  "incs MessagesTotal [t, d, k] (record_all ms) =
     length (filter (\<lambda>m. Transport m = t \<and> Direction m = d \<and> MsgType m = k) ms) \<and>
   incs RequestsTotal [meth, s] (record_all ms) =
     length (filter (\<lambda>m. MsgType m = MsgTypeResponse \<and> Method m = meth \<and> status_label m = s) ms) \<and>
   added BytesTotal [t, d] (record_all ms) =
     map (f64_of_int \<circ> SizeBytes) (filter (\<lambda>m. Transport m = t \<and> Direction m = d) ms) \<and>
   added TokensTotal [t] (record_all ms) =
     map (f64_of_int \<circ> TokenEstimate) (filter (\<lambda>m. Transport m = t \<and> TokenEstimate m > 0) ms) \<and>
   observed RequestDuration [meth] (record_all ms) =
     map (\<lambda>m. f64_div (f64_of_int (LatencyMS m)) (f64_of_int 1000))
       (filter (\<lambda>m. MsgType m = MsgTypeResponse \<and> Method m = meth \<and> LatencyMS m > 0) ms)"
  by (induction ms) (simp_all add: RecordMetrics_def record_response_def)

end
