(* ===== verification/Storage_Keys.thy ===== *)
theory Storage_Keys
  imports Engine_Message
begin

text \<open>
  The keys of \<open>internal/storage/badger.go\<close>: \<open>fmt.Sprintf("msg:%019d:%06d", ns, id)\<close>. The
  database orders entries by the bytes of their keys, so the order of the keys is the order
  in which messages are listed.
\<close>

definition msg_prefix :: bytes where
  "msg_prefix = ''msg:''"

definition stats_key :: bytes where
  "stats_key = ''stats''"

definition msg_key :: "int \<Rightarrow> int \<Rightarrow> bytes" where
  "msg_key nanos msgID = ''msg:'' @ format_0d 19 nanos @ CHR '':'' # format_0d 6 msgID"

section \<open>Order of digit strings\<close>

lemma less_append_same: "length xs = length ys \<Longrightarrow> (xs :: bytes) < ys \<Longrightarrow> xs @ zs < ys @ ws"
proof (induction xs ys rule: list_induct2)
  case (Cons x xs y ys)
  then show ?case by (auto simp: Cons_less_Cons)
qed simp

lemma append_less_same [simp]: "(xs @ ys :: bytes) < xs @ zs \<longleftrightarrow> ys < zs"
  by (induction xs) (simp_all add: Cons_less_Cons)

lemma less_char_int: "c < d \<longleftrightarrow> (of_char c :: int) < of_char d"
  by (simp only: less_char_def of_nat_of_char [symmetric, where ?'a = int] of_nat_less_iff)

lemma digit_val_less_iff:
  "is_digit c \<Longrightarrow> is_digit d \<Longrightarrow> digit_val c < digit_val d \<longleftrightarrow> c < d"
  by (simp add: digit_val_def less_char_int)

lemma digit_less_max: "is_digit c \<Longrightarrow> c < CHR 0xFF"
  by (simp add: less_char_int is_digit_def)

lemma digit_val_range: "is_digit c \<Longrightarrow> 0 \<le> digit_val c \<and> digit_val c < 10"
  by (simp add: digit_val_def is_digit_def)

lemma digits_val_Cons: "digits_val (c # cs) = digit_val c * 10 ^ length cs + digits_val cs"
  using digits_val_append [of "[c]" cs] by (simp add: digits_val_def)

lemma digits_val_bound: "\<forall>c\<in>set ds. is_digit c \<Longrightarrow> digits_val ds < 10 ^ length ds"
proof (induction ds)
  case (Cons c ds)
  then have "digit_val c \<le> 9" "digits_val ds < 10 ^ length ds"
    using digit_val_range [of c] by simp_all
  then have "digit_val c * 10 ^ length ds + digits_val ds < 9 * 10 ^ length ds + 10 ^ length ds"
    by (intro add_le_less_mono mult_right_mono) simp_all
  then show ?case by (simp add: digits_val_Cons)
qed simp

lemma digits_less:
  assumes "length xs = length ys" "\<forall>c\<in>set xs. is_digit c" "\<forall>c\<in>set ys. is_digit c"
    and "digits_val xs < digits_val ys"
  shows "xs < ys"
  using assms
proof (induction xs ys rule: list_induct2)
  case (Cons x xs y ys)
  have vx: "0 \<le> digits_val xs" "digits_val xs < 10 ^ length xs"
    and vy: "0 \<le> digits_val ys" "digits_val ys < 10 ^ length xs"
    using Cons digits_val_nonneg digits_val_bound by (simp_all add: Cons.hyps) (metis Cons.hyps)+
  show ?case
  proof (cases "digit_val x < digit_val y")
    case True
    then show ?thesis using Cons.prems digit_val_less_iff [of x y] by (simp add: Cons_less_Cons)
  next
    case False
    have "digit_val x \<le> digit_val y"
    proof (rule ccontr)
      assume "\<not> digit_val x \<le> digit_val y"
      then have "(digit_val y + 1) * 10 ^ length xs \<le> digit_val x * 10 ^ length xs"
        by (intro mult_right_mono) simp_all
      with Cons.prems(3) vx vy show False
        by (simp add: digits_val_Cons Cons.hyps distrib_right)
    qed
    with False have eq: "digit_val x = digit_val y" by simp
    then have "x = y"
      using Cons.prems digit_val_less_iff [of x y] digit_val_less_iff [of y x] by auto
    with eq Cons show ?thesis by (simp add: digits_val_Cons Cons_less_Cons)
  qed
qed simp

section \<open>Zero-padded numbers\<close>

lemma format_0d_digits: "0 \<le> n \<Longrightarrow> \<forall>c\<in>set (format_0d w n). is_digit c"
  using decimal_digits [of n] by (auto simp: format_0d_def)

lemma format_0d_val: "0 \<le> n \<Longrightarrow> digits_val (format_0d w n) = n"
  by (simp add: format_0d_def digits_val_append)

lemma format_0d_length:
  "0 \<le> n \<Longrightarrow> n < 10 ^ w \<Longrightarrow> 0 < w \<Longrightarrow> length (format_0d w n) = w"
  using decimal_length [of n w] by (simp add: format_0d_def)

lemma format_0d_less:
  assumes "0 \<le> m" "m < n" "n < 10 ^ w" "0 < w"
  shows "format_0d w m < format_0d w n"
proof -
  have "0 \<le> n" "m < 10 ^ w" using assms by simp_all
  with assms show ?thesis
    using format_0d_digits [of m w] format_0d_digits [of n w]
    by (intro digits_less) (simp_all add: format_0d_length format_0d_val)
qed

lemma format_0d_inject: "0 \<le> m \<Longrightarrow> 0 \<le> n \<Longrightarrow> format_0d w m = format_0d w n \<longleftrightarrow> m = n"
  by (metis format_0d_val)

section \<open>The order of the keys\<close>

definition key_time_ok :: "int \<Rightarrow> bool" where
  "key_time_ok t \<longleftrightarrow> 0 \<le> t \<and> t < 2 ^ 63"

lemma key_time_length: "key_time_ok t \<Longrightarrow> length (format_0d 19 t) = 19"
  by (rule format_0d_length) (simp_all add: key_time_ok_def)

lemma msg_key_less_time:
  assumes "key_time_ok t" "key_time_ok t'" "t < t'"
  shows "msg_key t i < msg_key t' i'"
proof -
  have "format_0d 19 t < format_0d 19 t'"
    using assms by (intro format_0d_less) (simp_all add: key_time_ok_def)
  then show ?thesis
    using assms by (simp add: msg_key_def less_append_same key_time_length)
qed

lemma msg_key_less_id:
  "0 \<le> i \<Longrightarrow> i < i' \<Longrightarrow> i' < 10 ^ 6 \<Longrightarrow> msg_key t i < msg_key t i'"
  by (simp add: msg_key_def Cons_less_Cons format_0d_less)

lemma msg_key_inject:
  assumes "key_time_ok t" "key_time_ok t'" "0 \<le> i" "0 \<le> i'"
  shows "msg_key t i = msg_key t' i' \<longleftrightarrow> t = t' \<and> i = i'"
  using assms format_0d_inject [of i i' 6] format_0d_inject [of t t' 19]
  by (auto simp: msg_key_def key_time_length key_time_ok_def)

lemma msg_key_prefix [simp]: "HasPrefix (msg_key t i) msg_prefix"
  by (simp add: HasPrefix_def msg_key_def msg_prefix_def)

text \<open>
  The database lists messages in the order of their timestamps and, for equal timestamps,
  of their ids, for every timestamp of the years 1970 to 2262 and every id of up to six
  digits, and no two messages with different timestamps or ids share a key.
\<close>

theorem msg_key_order:
  assumes "key_time_ok t" "key_time_ok t'" "0 \<le> i" "i < 10 ^ 6" "0 \<le> i'" "i' < 10 ^ 6"
  shows "(msg_key t i < msg_key t' i') = (t < t' \<or> t = t' \<and> i < i') \<and>
    (msg_key t i = msg_key t' i') = (t = t' \<and> i = i')"
proof -
  have "\<not> msg_key t i < msg_key t' i'" if n: "\<not> (t < t' \<or> t = t' \<and> i < i')"
  proof -
    consider "t' < t" | "t = t'" "i' < i" | "t = t'" "i = i'" using n by fastforce
    then have "msg_key t' i' \<le> msg_key t i"
      by cases (use assms msg_key_less_time msg_key_less_id in \<open>auto intro: less_imp_le\<close>)
    then show ?thesis by simp
  qed
  moreover have "msg_key t i < msg_key t' i'" if "t < t' \<or> t = t' \<and> i < i'"
    using that assms msg_key_less_time msg_key_less_id by auto
  ultimately show ?thesis using msg_key_inject assms by blast
qed

lemma msg_key_order_witness: "msg_key 1700000000000000000 9 < msg_key 1700000000000000000 10"
  using msg_key_order [of 1700000000000000000 1700000000000000000 9 10]
  by (simp add: key_time_ok_def)

text \<open>
  With a seventh digit the order breaks: at equal timestamps message 1000000 is listed
  before message 999999.
\<close>

theorem msg_key_order_breaks: "msg_key t 1000000 < msg_key t 999999"
proof -
  have "format_0d 6 1000000 < format_0d 6 999999" by code_simp
  then show ?thesis by (simp add: msg_key_def Cons_less_Cons)
qed

end
