(* ===== verification/Storage_Badger.thy ===== *)
theory Storage_Badger
  imports Storage_Keys Go_Chan
begin

text \<open>
  \<open>internal/storage/badger.go\<close>: the message store. Messages are queued by \<open>Insert\<close>, collected
  into batches by the goroutine \<open>runDrain\<close>, and written with the running statistics in one
  transaction by \<open>flush\<close>; queries scan the database in key order.

  BadgerDB is not part of the repository: it is the record \<open>badger\<close> of the operations the
  store calls, and the locale \<open>badger_db\<close> states the documented behaviour the store relies on
  (transactions, key order, expiry). \<open>memory_badger\<close> is an ordered map with expiry that has
  that behaviour.

  The stored bytes are only ever written by \<open>json.Marshal\<close> and read by \<open>json.Unmarshal\<close>, so a
  stored value is kept as what was marshalled, its strings turned into valid UTF-8.
\<close>

section \<open>Statistics\<close>

record Stats =
  TotalMessages :: int
  TotalRequests :: int
  TotalErrors :: int
  AvgLatencyMS :: float64
  TotalBytes :: int
  TotalTokens :: int

definition f64_zero :: float64 where
  "f64_zero = Fin False 0 0"

definition zero_stats :: Stats where
  "zero_stats = \<lparr>TotalMessages = 0, TotalRequests = 0, TotalErrors = 0, AvgLatencyMS = f64_zero,
                 TotalBytes = 0, TotalTokens = 0\<rparr>"

section \<open>Stored values\<close>

datatype stored = StoredMsg message | StoredStats Stats | StoredEmpty

text \<open>\<open>time.Time\<close> refuses to be marshalled outside the years 0 to 9999.\<close>

definition year_ok :: "time \<Rightarrow> bool" where
  "year_ok t \<longleftrightarrow> - 62167219200000000000 \<le> t \<and> t < 253402300800000000000"

definition marshal_message :: "message \<Rightarrow> stored option" where
  "marshal_message m = (if year_ok (Timestamp m) then Some (StoredMsg (message_utf8 m)) else None)"

text \<open>An infinite average cannot be marshalled; the error is dropped and no bytes are stored.\<close>

definition marshal_stats :: "Stats \<Rightarrow> stored" where
  "marshal_stats s = (case AvgLatencyMS s of Fin sg m e \<Rightarrow> StoredStats s | _ \<Rightarrow> StoredEmpty)"

definition unmarshal_message :: "stored \<Rightarrow> message option" where
  "unmarshal_message v =
     (case v of StoredMsg m \<Rightarrow> Some m | StoredStats s \<Rightarrow> Some zero_message | StoredEmpty \<Rightarrow> None)"

definition unmarshal_stats :: "stored \<Rightarrow> Stats option" where
  "unmarshal_stats v =
     (case v of StoredMsg m \<Rightarrow> Some zero_stats | StoredStats s \<Rightarrow> Some s | StoredEmpty \<Rightarrow> None)"

section \<open>The database\<close>

datatype 'v lookup = Found 'v | ErrKeyNotFound | ErrOther

type_synonym entry = "bytes \<times> stored \<times> int option"

record 'db badger =
  bg_get :: "time \<Rightarrow> 'db \<Rightarrow> bytes \<Rightarrow> stored lookup"
  bg_accepts :: "entry list \<Rightarrow> entry \<Rightarrow> bool"
  bg_commit :: "time \<Rightarrow> entry list \<Rightarrow> 'db \<Rightarrow> 'db option"
  bg_scan :: "time \<Rightarrow> 'db \<Rightarrow> bytes \<Rightarrow> (bytes \<times> stored) list"
  bg_drop_all :: "'db \<Rightarrow> 'db option"

definition alive :: "time \<Rightarrow> int option \<Rightarrow> time \<Rightarrow> bool" where
  "alive written ttl now \<longleftrightarrow> (case ttl of None \<Rightarrow> True | Some d \<Rightarrow> now < written + d)"

locale badger_db =
  fixes B :: "'db badger"
  assumes get_commit: "bg_commit B t ws db = Some db' \<Longrightarrow>
      bg_get B now db' k =
        (case map_of (rev ws) k of
           None \<Rightarrow> bg_get B now db k
         | Some (v, ttl) \<Rightarrow> if alive t ttl now then Found v else ErrKeyNotFound)"
    and scan_iff: "(k, v) \<in> set (bg_scan B now db p) \<longleftrightarrow> HasPrefix k p \<and> bg_get B now db k = Found v"
    and scan_sorted: "sorted_wrt (<) (map fst (bg_scan B now db p))"
    and get_drop_all: "bg_drop_all B db = Some db' \<Longrightarrow> bg_get B now db' k = ErrKeyNotFound"

section \<open>The store\<close>

record 'db store =
  st_db :: 'db
  st_queue :: "message chan"
  st_idCounter :: int
  st_batch :: "message list"

definition Insert :: "message \<Rightarrow> 'db store \<Rightarrow> 'db store" where
  "Insert msg s = s\<lparr>st_queue := try_send msg (st_queue s)\<rparr>"

text \<open>The state of a \<open>flush\<close> transaction.\<close>

record flush_state =
  fl_counter :: int
  fl_stats :: Stats
  fl_latency :: float64
  fl_writes :: "entry list"

definition one_day :: int where
  "one_day = 24 * 3600 * 1000000000"

definition is_error :: "message \<Rightarrow> bool" where
  "is_error msg \<longleftrightarrow> ErrorData msg \<noteq> [] \<and> ErrorData msg \<noteq> ''null''"

definition account :: "message \<Rightarrow> Stats \<Rightarrow> Stats" where
  "account msg s =
     s\<lparr>TotalMessages := wrap64 (TotalMessages s + 1),
       TotalRequests := (if MsgType msg = MsgTypeRequest then wrap64 (TotalRequests s + 1)
                         else TotalRequests s),
       TotalErrors := (if is_error msg then wrap64 (TotalErrors s + 1) else TotalErrors s),
       TotalBytes := wrap64 (TotalBytes s + SizeBytes msg),
       TotalTokens := wrap64 (TotalTokens s + TokenEstimate msg)\<rparr>"

definition add_latency :: "message \<Rightarrow> float64 \<Rightarrow> float64" where
  "add_latency msg latency =
     (if LatencyMS msg > 0 then f64_add latency (f64_of_int (LatencyMS msg)) else latency)"

text \<open>The loop over the batch; the flag is false when \<open>SetEntry\<close> refused an entry.\<close>

fun flush_msgs :: "'db badger \<Rightarrow> message list \<Rightarrow> flush_state \<Rightarrow> bool \<times> flush_state" where
  "flush_msgs B [] s = (True, s)"
| "flush_msgs B (msg # batch) s =
     (let msgID = (fl_counter s + 1) mod 2 ^ 64;
          s = s\<lparr>fl_counter := msgID\<rparr>;
          msg = msg\<lparr>ID := wrap64 msgID\<rparr>;
          key = msg_key (wrap64 (Timestamp msg)) msgID
      in case marshal_message msg of
           None \<Rightarrow> flush_msgs B batch s
         | Some val \<Rightarrow>
             (let entry = (key, val, Some one_day) in
              if \<not> bg_accepts B (fl_writes s) entry then (False, s)
              else flush_msgs B batch
                     (s\<lparr>fl_writes := fl_writes s @ [entry],
                        fl_stats := account msg (fl_stats s),
                        fl_latency := add_latency msg (fl_latency s)\<rparr>)))"

definition read_stats :: "'db badger \<Rightarrow> time \<Rightarrow> 'db \<Rightarrow> Stats" where
  "read_stats B now db =
     (case bg_get B now db stats_key of
        Found v \<Rightarrow> (case unmarshal_stats v of Some s \<Rightarrow> s | None \<Rightarrow> zero_stats)
      | _ \<Rightarrow> zero_stats)"

definition start_latency :: "Stats \<Rightarrow> float64" where
  "start_latency stats =
     (if TotalMessages stats > 0
      then f64_mul (AvgLatencyMS stats) (f64_of_int (TotalMessages stats)) else f64_zero)"

definition finish_stats :: "float64 \<Rightarrow> Stats \<Rightarrow> Stats" where
  "finish_stats latency stats =
     (if TotalMessages stats > 0
      then stats\<lparr>AvgLatencyMS := f64_div latency (f64_of_int (TotalMessages stats))\<rparr> else stats)"

text \<open>\<open>flush\<close>, and whether its transaction was committed (the code only logs the error).\<close>

definition flush :: "'db badger \<Rightarrow> time \<Rightarrow> message list \<Rightarrow> 'db store \<Rightarrow> bool \<times> 'db store" where
  "flush B now batch s =
     (let stats = read_stats B now (st_db s);
          (ok, f) = flush_msgs B batch
             \<lparr>fl_counter = st_idCounter s, fl_stats = stats, fl_latency = start_latency stats,
              fl_writes = []\<rparr>;
          s = s\<lparr>st_idCounter := fl_counter f\<rparr>;
          entry = (stats_key, marshal_stats (finish_stats (fl_latency f) (fl_stats f)), None)
      in if \<not> ok \<or> \<not> bg_accepts B (fl_writes f) entry then (False, s)
         else (case bg_commit B now (fl_writes f @ [entry]) (st_db s) of
                 None \<Rightarrow> (False, s)
               | Some db' \<Rightarrow> (True, s\<lparr>st_db := db'\<rparr>)))"

text \<open>The two cases of the \<open>select\<close> in \<open>runDrain\<close>.\<close>

definition drain_msg :: "'db badger \<Rightarrow> time \<Rightarrow> 'db store \<Rightarrow> 'db store" where
  "drain_msg B now s =
     (case recv (st_queue s) of
        None \<Rightarrow> s
      | Some (msg, q) \<Rightarrow>
          (let s = s\<lparr>st_queue := q, st_batch := st_batch s @ [msg]\<rparr> in
           if length (st_batch s) \<ge> 256
           then (snd (flush B now (st_batch s) s))\<lparr>st_batch := []\<rparr> else s))"

definition drain_tick :: "'db badger \<Rightarrow> time \<Rightarrow> 'db store \<Rightarrow> 'db store" where
  "drain_tick B now s =
     (if length (st_batch s) > 0
      then (snd (flush B now (st_batch s) s))\<lparr>st_batch := []\<rparr> else s)"

section \<open>Queries\<close>

fun recent_loop :: "int \<Rightarrow> (bytes \<times> stored) list \<Rightarrow> message list \<Rightarrow> message list" where
  "recent_loop limit [] messages = messages"
| "recent_loop limit ((key, val) # items) messages =
     (case unmarshal_message val of
        None \<Rightarrow> recent_loop limit items messages
      | Some msg \<Rightarrow>
          (let messages = messages @ [msg] in
           if int (length messages) \<ge> limit then messages
           else recent_loop limit items messages))"

definition QueryRecent :: "'db badger \<Rightarrow> time \<Rightarrow> int \<Rightarrow> 'db store \<Rightarrow> message list" where
  "QueryRecent B now limit s =
     recent_loop limit
       (rev (filter (\<lambda>kv. fst kv \<le> msg_prefix @ [CHR 0xFF]) (bg_scan B now (st_db s) msg_prefix))) []"

fun all_loop :: "(bytes \<times> stored) list \<Rightarrow> message list \<Rightarrow> message list" where
  "all_loop [] messages = messages"
| "all_loop ((key, val) # items) messages =
     (case unmarshal_message val of
        None \<Rightarrow> all_loop items messages
      | Some msg \<Rightarrow> all_loop items (messages @ [msg]))"

definition QueryAll :: "'db badger \<Rightarrow> time \<Rightarrow> 'db store \<Rightarrow> message list" where
  "QueryAll B now s = all_loop (bg_scan B now (st_db s) msg_prefix) []"

text \<open>\<open>GetStats\<close> returns the statistics and whether there was an error.\<close>

definition GetStats :: "'db badger \<Rightarrow> time \<Rightarrow> 'db store \<Rightarrow> Stats \<times> bool" where
  "GetStats B now s =
     (case bg_get B now (st_db s) stats_key of
        Found v \<Rightarrow> (case unmarshal_stats v of Some st \<Rightarrow> (st, False) | None \<Rightarrow> (zero_stats, True))
      | _ \<Rightarrow> (zero_stats, True))"

text \<open>\<open>Clear\<close>, and whether it failed.\<close>

definition stats_entry :: "Stats \<Rightarrow> entry" where
  "stats_entry st = (stats_key, marshal_stats st, None)"

definition Clear :: "'db badger \<Rightarrow> time \<Rightarrow> 'db store \<Rightarrow> bool \<times> 'db store" where
  "Clear B now s =
     (let s = s\<lparr>st_idCounter := 0\<rparr> in
      case bg_drop_all B (st_db s) of
        None \<Rightarrow> (False, s)
      | Some db \<Rightarrow>
          (if \<not> bg_accepts B [] (stats_entry zero_stats) then (False, s\<lparr>st_db := db\<rparr>)
           else (case bg_commit B now [stats_entry zero_stats] db of
                   None \<Rightarrow> (False, s\<lparr>st_db := db\<rparr>)
                 | Some db' \<Rightarrow> (True, s\<lparr>st_db := db'\<rparr>))))"

definition make_store :: "'db \<Rightarrow> int \<Rightarrow> 'db store" where
  "make_store db count =
     \<lparr>st_db = db, st_queue = make_chan 4096, st_idCounter = count, st_batch = []\<rparr>"

text \<open>\<open>New\<close> on the database that \<open>badger.Open\<close> returned, if it did.\<close>

definition New :: "'db badger \<Rightarrow> time \<Rightarrow> 'db option \<Rightarrow> 'db store option" where
  "New B now opened =
     (case opened of
        None \<Rightarrow> None
      | Some db \<Rightarrow>
          (case bg_get B now db stats_key of
             Found v \<Rightarrow>
               (let stats = (case unmarshal_stats v of Some s \<Rightarrow> s | None \<Rightarrow> zero_stats) in
                map_option (\<lambda>db. make_store db (TotalMessages stats mod 2 ^ 64)) (bg_commit B now [] db))
           | ErrKeyNotFound \<Rightarrow>
               (if bg_accepts B [] (stats_entry zero_stats)
                then map_option (\<lambda>db. make_store db 0) (bg_commit B now [stats_entry zero_stats] db)
                else None)
           | ErrOther \<Rightarrow> None))"

section \<open>An ordered map with expiry\<close>

type_synonym memory = "(bytes \<times> stored \<times> int option) list"

definition unexpired :: "int option \<Rightarrow> time \<Rightarrow> bool" where
  "unexpired expires now \<longleftrightarrow> (case expires of None \<Rightarrow> True | Some e \<Rightarrow> now < e)"

definition memory_get :: "time \<Rightarrow> memory \<Rightarrow> bytes \<Rightarrow> stored lookup" where
  "memory_get now db k =
     (case map_of db k of
        None \<Rightarrow> ErrKeyNotFound
      | Some (v, expires) \<Rightarrow> if unexpired expires now then Found v else ErrKeyNotFound)"

definition memory_write :: "time \<Rightarrow> entry \<Rightarrow> memory \<Rightarrow> memory" where
  "memory_write t e db = (case e of (k, v, ttl) \<Rightarrow> (k, v, map_option (\<lambda>d. t + d) ttl) # db)"

definition memory_index :: "memory \<Rightarrow> memory" where
  "memory_index db = foldr (\<lambda>(k, x) m. map_put k x m) db []"

definition memory_scan :: "time \<Rightarrow> memory \<Rightarrow> bytes \<Rightarrow> (bytes \<times> stored) list" where
  "memory_scan now db p =
     map (\<lambda>(k, v, expires). (k, v))
       (filter (\<lambda>(k, v, expires). HasPrefix k p \<and> unexpired expires now) (memory_index db))"

definition memory_badger :: "memory badger" where
  "memory_badger =
     \<lparr>bg_get = memory_get, bg_accepts = (\<lambda>ws e. True),
      bg_commit = (\<lambda>t ws db. Some (fold (memory_write t) ws db)), bg_scan = memory_scan,
      bg_drop_all = (\<lambda>db. Some [])\<rparr>"

lemma map_of_map_put: "map_of (map_put k v m) = (map_of m)(k \<mapsto> v)"
  by (induction k v m rule: map_put.induct) auto

lemma memory_index_map: "map_of (memory_index db) = map_of db"
  by (induction db) (auto simp: memory_index_def map_of_map_put)

lemma memory_index_sorted: "sorted_wrt (<) (map fst (memory_index db))"
  by (induction db) (auto simp: memory_index_def map_put_sorted)

lemma memory_index_iff: "(k, x) \<in> set (memory_index db) \<longleftrightarrow> map_of db k = Some x"
proof -
  have "distinct (map fst (memory_index db))"
    using memory_index_sorted strict_sorted_iff by blast
  then show ?thesis by (simp add: memory_index_map flip: map_of_eq_Some_iff)
qed

lemma memory_get_writes:
  "memory_get now (fold (memory_write t) ws db) k =
     (case map_of (rev ws) k of
        None \<Rightarrow> memory_get now db k
      | Some (v, ttl) \<Rightarrow> if alive t ttl now then Found v else ErrKeyNotFound)"
proof (induction ws arbitrary: db)
  case (Cons e ws)
  obtain k' v ttl where e: "e = (k', v, ttl)" by (cases e) auto
  have "memory_get now (memory_write t e db) k =
      (if k' = k then (if alive t ttl now then Found v else ErrKeyNotFound) else memory_get now db k)"
    by (cases ttl) (auto simp: e memory_get_def memory_write_def alive_def unexpired_def)
  with Cons [of "memory_write t e db"] e show ?case
    by (simp add: map_add_def split: option.splits)
qed simp

lemma sorted_map_filter:
  "sorted_wrt (<) (map fst xs) \<Longrightarrow>
     sorted_wrt (<) (map fst (map (\<lambda>(k, v, e). (k, v)) (filter P xs)))"
  by (induction xs) (auto simp: split_def)

lemma memory_badger_simps [simp]:
  "bg_get memory_badger = memory_get" "bg_accepts memory_badger ws e"
  "bg_commit memory_badger t ws db = Some (fold (memory_write t) ws db)"
  "bg_scan memory_badger = memory_scan" "bg_drop_all memory_badger db = Some []"
  by (simp_all add: memory_badger_def)

interpretation memory: badger_db memory_badger
proof
  fix t ws db db' now k
  assume "bg_commit memory_badger t ws db = Some db'"
  then show "bg_get memory_badger now db' k =
      (case map_of (rev ws) k of
         None \<Rightarrow> bg_get memory_badger now db k
       | Some (v, ttl) \<Rightarrow> if alive t ttl now then Found v else ErrKeyNotFound)"
  proof -
    have "db' = fold (memory_write t) ws db"
      using \<open>bg_commit memory_badger t ws db = Some db'\<close> by simp
    then show ?thesis unfolding memory_badger_simps by (simp only: memory_get_writes)
  qed
next
  fix k v now db p
  show "(k, v) \<in> set (bg_scan memory_badger now db p) \<longleftrightarrow>
      HasPrefix k p \<and> bg_get memory_badger now db k = Found v"
  proof -
    have "(k, v) \<in> set (memory_scan now db p) \<longleftrightarrow>
        (\<exists>e. map_of db k = Some (v, e) \<and> HasPrefix k p \<and> unexpired e now)"
      unfolding memory_scan_def by (auto simp flip: memory_index_iff) force
    also have "\<dots> \<longleftrightarrow> HasPrefix k p \<and> memory_get now db k = Found v"
      by (auto simp: memory_get_def split: option.splits)
    finally show ?thesis unfolding memory_badger_simps .
  qed
next
  fix now db p
  show "sorted_wrt (<) (map fst (bg_scan memory_badger now db p))"
    by (simp add: memory_scan_def sorted_map_filter memory_index_sorted
        del: map_map)
next
  fix db db' now k
  assume "bg_drop_all memory_badger db = Some db'"
  then show "bg_get memory_badger now db' k = ErrKeyNotFound"
    by (auto simp: memory_get_def)
qed

section \<open>What a database of this program holds\<close>

definition db_inv :: "'db badger \<Rightarrow> 'db \<Rightarrow> bool" where
  "db_inv B db \<longleftrightarrow>
     (\<forall>now k v. HasPrefix k msg_prefix \<longrightarrow> bg_get B now db k = Found v \<longrightarrow>
        (\<exists>m i. v = StoredMsg m \<and> k = msg_key (wrap64 (Timestamp m)) i \<and> 0 \<le> i \<and> ID m = wrap64 i))"

definition entry_ok :: "entry \<Rightarrow> bool" where
  "entry_ok e \<longleftrightarrow> (HasPrefix (fst e) msg_prefix \<longrightarrow>
     (\<exists>m i. fst (snd e) = StoredMsg m \<and> fst e = msg_key (wrap64 (Timestamp m)) i \<and> 0 \<le> i \<and>
        ID m = wrap64 i))"

lemma stats_key_prefix [simp]: "\<not> HasPrefix stats_key msg_prefix"
  by (simp add: HasPrefix_def stats_key_def msg_prefix_def)

lemma stats_entry_ok [simp]: "entry_ok (stats_key, v, ttl)"
  by (simp add: entry_ok_def)

lemma msg_key_seek: "msg_key t i \<le> msg_prefix @ [CHR 0xFF]"
proof -
  have ne: "format_0d 19 t \<noteq> []" by (simp add: format_0d_def)
  have "hd (format_0d 19 t) < CHR 0xFF"
  proof (cases "t < 0")
    case True
    then show ?thesis by (simp add: format_0d_def less_char_int)
  next
    case False
    then have "is_digit (hd (format_0d 19 t))"
      using format_0d_digits [of t 19] ne by simp
    then show ?thesis by (rule digit_less_max)
  qed
  with ne have "format_0d 19 t @ CHR '':'' # format_0d 6 i < [CHR 0xFF]"
    by (cases "format_0d 19 t") (simp_all add: Cons_less_Cons)
  then show ?thesis by (simp add: msg_key_def msg_prefix_def Cons_less_Cons le_less)
qed

section \<open>The loops of the queries\<close>

definition decoded :: "(bytes \<times> stored) list \<Rightarrow> message list" where
  "decoded items = List.map_filter (\<lambda>kv. unmarshal_message (snd kv)) items"

lemma decoded_simps [simp]:
  "decoded [] = []"
  "decoded (x # xs) = (case unmarshal_message (snd x) of None \<Rightarrow> [] | Some m \<Rightarrow> [m]) @ decoded xs"
  by (simp_all add: decoded_def List.map_filter_simps split: option.splits)

lemma decoded_iff: "m \<in> set (decoded items) \<longleftrightarrow> (\<exists>x\<in>set items. unmarshal_message (snd x) = Some m)"
  by (induction items) (auto split: option.splits)

lemma decoded_append [simp]: "decoded (xs @ ys) = decoded xs @ decoded ys"
  by (induction xs) simp_all

lemma decoded_rev: "decoded (rev xs) = rev (decoded xs)"
  by (induction xs) (simp_all split: option.splits)

lemma all_loop_decoded: "all_loop items ms = ms @ decoded items"
  by (induction items ms rule: all_loop.induct) (simp_all split: option.splits)

lemma recent_loop_decoded:
  "recent_loop limit items ms = ms @ take (nat (max 1 (limit - int (length ms)))) (decoded items)"
proof (induction limit items ms rule: recent_loop.induct)
  case (2 limit key val items ms)
  show ?case
  proof (cases "unmarshal_message val")
    case (Some m)
    have "nat (max 1 (limit - int (length ms))) =
        Suc (if limit \<le> int (length ms) + 1 then 0 else nat (max 1 (limit - int (length ms) - 1)))"
      by auto
    with 2 Some show ?thesis by (simp add: Let_def algebra_simps)
  qed (simp add: 2)
qed simp

end
