(* ===== verification/Storage_Properties.thy ===== *)
theory Storage_Properties
  imports Storage_Badger
begin

text \<open>
  The properties of the store: the invariant of its database, the agreement of its queries,
  that a committed batch is what the queries return, the running statistics, and the order
  and loss behaviour of the queue and the batches.
\<close>

section \<open>The loop of \<open>flush\<close>\<close>

text \<open>The messages of a batch with the numbers they get.\<close>

fun numbered :: "int \<Rightarrow> message list \<Rightarrow> (int \<times> message) list" where
  "numbered c [] = []"
| "numbered c (m # ms) =
     (let i = (c + 1) mod 2 ^ 64 in (i, m\<lparr>ID := wrap64 i\<rparr>) # numbered i ms)"

definition flush_entry :: "int \<times> message \<Rightarrow> entry" where
  "flush_entry x =
     (msg_key (wrap64 (Timestamp (snd x))) (fst x), StoredMsg (message_utf8 (snd x)), Some one_day)"

definition storable :: "int \<Rightarrow> message list \<Rightarrow> (int \<times> message) list" where
  "storable c ms = filter (\<lambda>x. year_ok (Timestamp (snd x))) (numbered c ms)"

lemma storable_Cons:
  "storable c (m # ms) =
     (let i = (c + 1) mod 2 ^ 64 in
      (if year_ok (Timestamp m) then [(i, m\<lparr>ID := wrap64 i\<rparr>)] else []) @ storable i ms)"
  by (simp add: storable_def Let_def)

lemma flush_msgs_ok:
  "flush_msgs B ms s = (True, s') \<Longrightarrow>
     fl_writes s' = fl_writes s @ map flush_entry (storable (fl_counter s) ms) \<and>
     fl_stats s' = fold account (map snd (storable (fl_counter s) ms)) (fl_stats s) \<and>
     fl_latency s' = fold add_latency (map snd (storable (fl_counter s) ms)) (fl_latency s)"
proof (induction ms arbitrary: s)
  case (Cons m ms)
  show ?case
  proof (cases "year_ok (Timestamp m)")
    case True
    with Cons show ?thesis
      by (simp add: storable_Cons marshal_message_def flush_entry_def Let_def split: if_splits)
  next
    case False
    with Cons show ?thesis by (simp add: storable_Cons marshal_message_def Let_def)
  qed
qed (simp add: storable_def)

lemma flush_msgs_counter:
  "0 \<le> fl_counter s \<Longrightarrow> fl_counter s < 2 ^ 64 \<Longrightarrow>
     0 \<le> fl_counter (snd (flush_msgs B ms s)) \<and> fl_counter (snd (flush_msgs B ms s)) < 2 ^ 64"
  by (induction ms arbitrary: s) (simp_all add: Let_def split: option.splits)

lemma numbered_range: "(i, m) \<in> set (numbered c ms) \<Longrightarrow> 0 \<le> i \<and> ID m = wrap64 i"
  by (induction ms arbitrary: c) (auto simp: Let_def)

lemma flush_entry_ok: "x \<in> set (storable c ms) \<Longrightarrow> entry_ok (flush_entry x)"
  using numbered_range [of "fst x" "snd x" c ms]
  by (auto simp: storable_def flush_entry_def entry_ok_def
      intro!: exI [of _ "message_utf8 (snd x)"] exI [of _ "fst x"])

definition committed_stats :: "'db badger \<Rightarrow> time \<Rightarrow> message list \<Rightarrow> 'db store \<Rightarrow> Stats" where
  "committed_stats B now batch s =
     (let st = read_stats B now (st_db s); ms = map snd (storable (st_idCounter s) batch)
      in finish_stats (fold add_latency ms (start_latency st)) (fold account ms st))"

lemma flush_committed:
  assumes "flush B now batch s = (True, s')"
  shows "bg_commit B now (map flush_entry (storable (st_idCounter s) batch) @
           [(stats_key, marshal_stats (committed_stats B now batch s), None)]) (st_db s) = Some (st_db s')
    \<and> st_queue s' = st_queue s"
proof -
  let ?f0 = "\<lparr>fl_counter = st_idCounter s, fl_stats = read_stats B now (st_db s),
      fl_latency = start_latency (read_stats B now (st_db s)), fl_writes = []\<rparr>"
  obtain ok f where f: "flush_msgs B batch ?f0 = (ok, f)" by fastforce
  with assms have "ok" by (auto simp: flush_def Let_def split: if_splits)
  with f flush_msgs_ok [of B batch ?f0 f] assms show ?thesis
    by (auto simp: flush_def committed_stats_def Let_def split: if_splits option.splits)
qed

lemma flush_failed: "flush B now batch s = (False, s') \<Longrightarrow> st_db s' = st_db s \<and> st_queue s' = st_queue s"
  by (auto simp: flush_def Let_def split: if_splits option.splits prod.splits)

lemma flush_queue [simp, frame_simps]:
  "st_queue (snd (flush B now batch s)) = st_queue s" "st_batch (snd (flush B now batch s)) = st_batch s"
  by (simp_all add: flush_def Let_def split: option.splits prod.splits)

section \<open>The store over any database that behaves like Badger\<close>

definition store_inv :: "'db badger \<Rightarrow> 'db store \<Rightarrow> bool" where
  "store_inv B s \<longleftrightarrow> db_inv B (st_db s) \<and> length (st_batch s) < 256 \<and>
     chan_cap (st_queue s) = 4096 \<and> length (chan_items (st_queue s)) \<le> 4096"

context badger_db
begin

lemma commit_inv:
  assumes "db_inv B db" "bg_commit B t ws db = Some db'" "\<forall>e\<in>set ws. entry_ok e"
  shows "db_inv B db'"
  unfolding db_inv_def
proof (intro allI impI)
  fix now k v
  assume k: "HasPrefix k msg_prefix" and v: "bg_get B now db' k = Found v"
  show "\<exists>m i. v = StoredMsg m \<and> k = msg_key (wrap64 (Timestamp m)) i \<and> 0 \<le> i \<and> ID m = wrap64 i"
  proof (cases "map_of (rev ws) k")
    case None
    then have "bg_get B now db k = Found v" using v get_commit [OF assms(2)] by simp
    then show ?thesis using assms(1) k by (auto simp: db_inv_def)
  next
    case (Some x)
    then have "(k, x) \<in> set ws" using map_of_SomeD by fastforce
    then have "entry_ok (k, x)" using assms(3) by blast
    moreover have "fst x = v"
      using v Some get_commit [OF assms(2), of now k] by (auto split: prod.splits if_splits)
    ultimately show ?thesis using k by (auto simp: entry_ok_def)
  qed
qed

lemma flush_inv: "db_inv B (st_db s) \<Longrightarrow> db_inv B (st_db (snd (flush B now batch s)))"
proof -
  assume inv: "db_inv B (st_db s)"
  obtain ok s' where f: "flush B now batch s = (ok, s')" by fastforce
  show ?thesis
  proof (cases ok)
    case True
    with f have "flush B now batch s = (True, s')" by simp
    note c = flush_committed [OF this]
    have "db_inv B (st_db s')"
      by (rule commit_inv [OF inv c [THEN conjunct1]]) (auto simp: flush_entry_ok)
    with f show ?thesis by simp
  next
    case False
    with f flush_failed [of B now batch s s'] inv show ?thesis by simp
  qed
qed

lemma QueryAll_decoded: "QueryAll B now s = decoded (bg_scan B now (st_db s) msg_prefix)"
  by (simp add: QueryAll_def all_loop_decoded)

lemma scan_below_seek:
  assumes "db_inv B db" "x \<in> set (bg_scan B now db msg_prefix)"
  shows "fst x \<le> msg_prefix @ [CHR 0xFF]"
  using assms scan_iff [of "fst x" "snd x" now db msg_prefix] msg_key_seek
  by (fastforce simp: db_inv_def)

lemma QueryRecent_take:
  assumes "db_inv B (st_db s)"
  shows "QueryRecent B now limit s = take (nat (max 1 limit)) (rev (QueryAll B now s))"
proof -
  have "filter (\<lambda>kv. fst kv \<le> msg_prefix @ [CHR 0xFF]) (bg_scan B now (st_db s) msg_prefix)
      = bg_scan B now (st_db s) msg_prefix"
    using scan_below_seek [OF assms] by (simp add: filter_id_conv)
  then show ?thesis
    by (simp add: QueryRecent_def recent_loop_decoded QueryAll_decoded decoded_rev)
qed

lemma QueryAll_iff:
  assumes "db_inv B (st_db s)"
  shows "m \<in> set (QueryAll B now s) \<longleftrightarrow>
    (\<exists>k. HasPrefix k msg_prefix \<and> bg_get B now (st_db s) k = Found (StoredMsg m))"
proof -
  have "m \<in> set (decoded items) \<longleftrightarrow> (\<exists>k v. (k, v) \<in> set items \<and> unmarshal_message v = Some m)" for items
    unfolding decoded_iff by (metis prod.collapse snd_conv)
  then have "m \<in> set (QueryAll B now s) \<longleftrightarrow>
      (\<exists>k v. HasPrefix k msg_prefix \<and> bg_get B now (st_db s) k = Found v \<and> unmarshal_message v = Some m)"
    by (simp add: QueryAll_decoded scan_iff)
  moreover have "unmarshal_message v = Some m \<longleftrightarrow> v = StoredMsg m"
    if "HasPrefix k msg_prefix" "bg_get B now (st_db s) k = Found v" for k v
    using assms that by (fastforce simp: db_inv_def unmarshal_message_def)
  ultimately show ?thesis by blast
qed

lemma QueryAll_sorted:
  assumes "db_inv B (st_db s)" "\<forall>m\<in>set (QueryAll B now s). key_time_ok (Timestamp m)"
  shows "sorted (map Timestamp (QueryAll B now s))"
proof -
  have "sorted (map Timestamp (decoded items))"
    if "sorted_wrt (<) (map fst items)" "set items \<subseteq> set (bg_scan B now (st_db s) msg_prefix)"
      "\<forall>m\<in>set (decoded items). key_time_ok (Timestamp m)" for items
    using that
  proof (induction items)
    case (Cons x items)
    have item: "\<exists>m i. snd y = StoredMsg m \<and> fst y = msg_key (wrap64 (Timestamp m)) i"
      if "y \<in> set (x # items)" for y
      using that Cons.prems(2) assms(1) scan_iff [of "fst y" "snd y" now "st_db s" msg_prefix]
      by (fastforce simp: db_inv_def)
    from item [of x] obtain m i where x: "snd x = StoredMsg m" "fst x = msg_key (wrap64 (Timestamp m)) i"
      by auto
    have "Timestamp m \<le> Timestamp m'" if m': "m' \<in> set (decoded items)" for m'
    proof -
      obtain y where y: "y \<in> set items" "unmarshal_message (snd y) = Some m'"
        using m' by (auto simp: decoded_iff)
      with item [of y] obtain i' where y': "snd y = StoredMsg m'" "fst y = msg_key (wrap64 (Timestamp m')) i'"
        by (auto simp: unmarshal_message_def)
      have less: "fst x < fst y" using Cons.prems(1) y(1) by auto
      have ok: "key_time_ok (Timestamp m)" "key_time_ok (Timestamp m')"
        using Cons.prems(3) x m' by (auto simp: unmarshal_message_def)
      then have w: "wrap64 (Timestamp m) = Timestamp m" "wrap64 (Timestamp m') = Timestamp m'"
        by (simp_all add: key_time_ok_def int64_range_def)
      show ?thesis
      proof (rule ccontr)
        assume "\<not> Timestamp m \<le> Timestamp m'"
        then have "fst y < fst x" using msg_key_less_time [OF ok(2,1), of i' i] x y' w by simp
        with less show False by simp
      qed
    qed
    moreover have "sorted (map Timestamp (decoded items))" using Cons by auto
    ultimately show ?case using x by (auto simp: unmarshal_message_def)
  qed simp
  from this [of "bg_scan B now (st_db s) msg_prefix"] show ?thesis
    using scan_sorted assms(2) by (simp add: QueryAll_decoded)
qed

lemma flush_get:
  assumes "flush B now batch s = (True, s')"
  shows "bg_get B t (st_db s') k =
    (case map_of (rev (map flush_entry (storable (st_idCounter s) batch) @
             [(stats_key, marshal_stats (committed_stats B now batch s), None)])) k of
       None \<Rightarrow> bg_get B t (st_db s) k
     | Some (v, ttl) \<Rightarrow> if alive now ttl t then Found v else ErrKeyNotFound)"
  using get_commit [OF flush_committed [OF assms, THEN conjunct1]] by blast

lemma flush_stats:
  assumes "flush B now batch s = (True, s')"
  shows "bg_get B t (st_db s') stats_key = Found (marshal_stats (committed_stats B now batch s))"
  using flush_get [OF assms, of t stats_key] by (simp add: alive_def)

text \<open>What a committed batch leaves in the database.\<close>

lemma flush_found:
  assumes "flush B now batch s = (True, s')" "(i, m) \<in> set (storable (st_idCounter s) batch)"
    and "\<And>j m'. (j, m') \<in> set (storable (st_idCounter s) batch) \<Longrightarrow>
           msg_key (wrap64 (Timestamp m')) j = msg_key (wrap64 (Timestamp m)) i \<Longrightarrow> m' = m"
    and "t < now + one_day"
  shows "bg_get B t (st_db s') (msg_key (wrap64 (Timestamp m)) i) = Found (StoredMsg (message_utf8 m))"
proof -
  let ?k = "msg_key (wrap64 (Timestamp m)) i"
  let ?ws = "map flush_entry (storable (st_idCounter s) batch)"
  have ne: "?k \<noteq> stats_key" by (metis msg_key_prefix stats_key_prefix)
  have "?k \<in> fst ` set (rev ?ws)"
    using assms(2) by (force simp: flush_entry_def)
  then obtain x where x: "map_of (rev ?ws) ?k = Some x"
    by (metis map_of_eq_None_iff not_None_eq)
  then have "(?k, x) \<in> set ?ws" using map_of_SomeD by fastforce
  then obtain j m' where j: "(j, m') \<in> set (storable (st_idCounter s) batch)" "flush_entry (j, m') = (?k, x)"
    by auto
  then have "m' = m" using assms(3) [OF j(1)] by (simp add: flush_entry_def)
  with j(2) have "x = (StoredMsg (message_utf8 m), Some one_day)" by (auto simp: flush_entry_def)
  with x ne flush_get [OF assms(1), of t ?k] assms(4) show ?thesis
    by (simp add: alive_def)
qed

lemma flush_only:
  assumes "flush B now batch s = (True, s')" "HasPrefix k msg_prefix"
    and "bg_get B t (st_db s') k = Found v"
  shows "bg_get B t (st_db s) k = Found v \<or>
    (\<exists>x\<in>set (storable (st_idCounter s) batch). v = StoredMsg (message_utf8 (snd x)) \<and> t < now + one_day)"
proof -
  let ?ws = "map flush_entry (storable (st_idCounter s) batch)"
  have ne: "k \<noteq> stats_key" using assms(2) by auto
  show ?thesis
  proof (cases "map_of (rev ?ws) k")
    case None
    with ne flush_get [OF assms(1), of t k] assms(3) show ?thesis by simp
  next
    case (Some x)
    then have "(k, x) \<in> set ?ws" using map_of_SomeD by fastforce
    then obtain y where "y \<in> set (storable (st_idCounter s) batch)" "flush_entry y = (k, x)" by auto
    with Some ne flush_get [OF assms(1), of t k] assms(3) show ?thesis
      by (auto simp: flush_entry_def alive_def split: if_splits intro!: bexI [of _ y])
  qed
qed

lemma Clear_get:
  assumes "Clear B now s = (True, s')"
  shows "bg_get B t (st_db s') k = (if k = stats_key then Found (StoredStats zero_stats) else ErrKeyNotFound)"
proof -
  obtain db where db: "bg_drop_all B (st_db s) = Some db"
      "bg_commit B now [stats_entry zero_stats] db = Some (st_db s')"
    using assms by (auto simp: Clear_def Let_def split: option.splits if_splits)
  show ?thesis
    using get_commit [OF db(2)] get_drop_all [OF db(1)]
    by (simp add: stats_entry_def marshal_stats_def zero_stats_def f64_zero_def alive_def)
qed

lemma Clear_inv: "db_inv B (st_db s) \<Longrightarrow> db_inv B (st_db (snd (Clear B now s)))"
proof -
  assume inv: "db_inv B (st_db s)"
  have drop: "db_inv B db" if "bg_drop_all B (st_db s) = Some db" for db
    using get_drop_all [OF that] by (simp add: db_inv_def)
  have "db_inv B db'" if "bg_drop_all B (st_db s) = Some db"
      "bg_commit B now [stats_entry zero_stats] db = Some db'" for db db'
    using commit_inv [OF drop [OF that(1)] that(2)] by (simp add: stats_entry_def)
  with inv drop show ?thesis
    by (simp add: Clear_def Let_def split: option.splits)
qed

lemma New_inv:
  assumes "New B now opened = Some s" "\<And>db. opened = Some db \<Longrightarrow> db_inv B db"
  shows "store_inv B s"
proof -
  obtain db db' ws c where "opened = Some db" "bg_commit B now ws db = Some db'" "s = make_store db' c"
      "\<forall>e\<in>set ws. entry_ok e"
    using assms(1)
    by (auto simp: New_def Let_def stats_entry_def split: option.splits lookup.splits if_splits)
  with assms(2) commit_inv show ?thesis
    by (auto simp: store_inv_def make_store_def make_chan_def)
qed

lemma Insert_inv [sanitary]: "store_inv B s \<Longrightarrow> store_inv B (Insert msg s)"
  by (auto simp: store_inv_def Insert_def try_send_def chan_has_room_def)

lemma drain_tick_inv [sanitary]: "store_inv B s \<Longrightarrow> store_inv B (drain_tick B now s)"
  by (auto simp: store_inv_def drain_tick_def flush_inv)

lemma drain_msg_inv [sanitary]: "store_inv B s \<Longrightarrow> store_inv B (drain_msg B now s)"
proof -
  assume inv: "store_inv B s"
  show ?thesis
  proof (cases "recv (st_queue s)")
    case None
    with inv show ?thesis by (simp add: drain_msg_def)
  next
    case (Some x)
    obtain msg q where x: "x = (msg, q)" by fastforce
    have q: "chan_cap q = chan_cap (st_queue s)" "length (chan_items q) \<le> length (chan_items (st_queue s))"
      using Some x by (auto simp: recv_def split: list.splits)
    let ?s = "s\<lparr>st_queue := q, st_batch := st_batch s @ [msg]\<rparr>"
    have "db_inv B (st_db (snd (flush B now (st_batch ?s) ?s)))"
      using flush_inv [of ?s now "st_batch ?s"] inv by (simp add: store_inv_def)
    with inv Some x q show ?thesis
      by (auto simp: drain_msg_def store_inv_def Let_def)
  qed
qed

end

section \<open>Properties\<close>

text \<open>
  C14. The store's invariant: whatever \<open>New\<close> returns satisfies it when the opened database was
  written by this program, and \<open>Insert\<close>, both cases of the drain loop and \<open>Clear\<close> keep it. It
  says that every entry under a message key is the message of that timestamp and number, that
  a batch never reaches 256 messages between two turns of the loop, and that the queue holds
  at most 4096.
\<close>

theorem store_invariant:
  assumes "badger_db B" "db_inv B db" "New B t0 (Some db) = Some s0" "store_inv B s"
  shows "store_inv B s0 \<and> store_inv B (Insert msg s) \<and> store_inv B (drain_msg B now s) \<and>
    store_inv B (drain_tick B now s) \<and> store_inv B (snd (Clear B now s))"
proof -
  have "store_inv B (snd (Clear B now s))"
    using assms(4) badger_db.Clear_inv [OF assms(1), of s now]
    by (simp add: store_inv_def Clear_def Let_def split: option.splits)
  moreover have "store_inv B s0"
    using badger_db.New_inv [OF assms(1,3)] assms(2) by simp
  ultimately show ?thesis
    using assms badger_db.Insert_inv badger_db.drain_msg_inv badger_db.drain_tick_inv by blast
qed

text \<open>
  \<open>QueryRecent\<close> is the newest end of \<open>QueryAll\<close>, newest first: it returns \<open>limit\<close> messages
  of the reversed list, or all of them if there are fewer, and one message even for a limit
  of zero or less.
\<close>

theorem recent_is_latest:
  assumes "badger_db B" "db_inv B (st_db s)"
  shows "QueryRecent B now limit s = take (nat (max 1 limit)) (rev (QueryAll B now s))"
  using badger_db.QueryRecent_take [OF assms] .

text \<open>
  \<open>QueryAll\<close> lists the messages in the order of their timestamps (of the years 1970 to
  2262).
\<close>

theorem query_chronological:
  assumes "badger_db B" "db_inv B (st_db s)" "\<forall>m\<in>set (QueryAll B now s). key_time_ok (Timestamp m)"
  shows "sorted (map Timestamp (QueryAll B now s))"
  using badger_db.QueryAll_sorted [OF assms] .

lemma numbered_bounds:
  "0 \<le> c \<Longrightarrow> c + int (length ms) < 2 ^ 63 \<Longrightarrow> (i, m) \<in> set (numbered c ms) \<Longrightarrow>
     c < i \<and> i \<le> c + int (length ms) \<and> ID m = i"
proof (induction ms arbitrary: c)
  case (Cons x ms)
  have i: "(c + 1) mod 2 ^ 64 = c + 1" "int64_range (c + 1)"
    using Cons.prems by (simp_all add: int64_range_def)
  show ?case
  proof (cases "(i, m) \<in> set (numbered (c + 1) ms)")
    case True
    with Cons.IH [of "c + 1"] Cons.prems(1,2) show ?thesis by simp
  next
    case False
    with Cons.prems(3) i Cons.prems(2) show ?thesis by (auto simp: Let_def)
  qed
qed simp

lemma numbered_unique:
  "0 \<le> c \<Longrightarrow> c + int (length ms) < 2 ^ 63 \<Longrightarrow> (i, m) \<in> set (numbered c ms) \<Longrightarrow>
     (i, m') \<in> set (numbered c ms) \<Longrightarrow> m = m'"
proof (induction ms arbitrary: c)
  case (Cons x ms)
  have i: "(c + 1) mod 2 ^ 64 = c + 1" using Cons.prems by simp
  have "(c + 1, n) \<notin> set (numbered (c + 1) ms)" for n
    using numbered_bounds [of "c + 1" ms "c + 1" n] Cons.prems(1,2) by auto
  with i Cons.prems Cons.IH [of "c + 1"] show ?case by (auto simp: Let_def)
qed simp

lemma numbered_time:
  "(i, m) \<in> set (numbered c ms) \<Longrightarrow> \<exists>m'\<in>set ms. Timestamp m = Timestamp m'"
  by (induction ms arbitrary: c) (auto simp: Let_def)

lemma key_time_year: "key_time_ok t \<Longrightarrow> year_ok t"
  by (simp add: key_time_ok_def year_ok_def)

lemma storable_all:
  "\<forall>m\<in>set ms. key_time_ok (Timestamp m) \<Longrightarrow> storable c ms = numbered c ms"
  using numbered_time key_time_year by (fastforce simp: storable_def filter_id_conv)

lemma flush_visible:
  assumes "badger_db B" "db_inv B (st_db s)" "flush B now batch s = (True, s')"
    and "0 \<le> st_idCounter s" "st_idCounter s + int (length batch) < 2 ^ 63"
    and "\<forall>m\<in>set batch. key_time_ok (Timestamp m)" "t < now + one_day"
  shows "set (map (message_utf8 \<circ> snd) (numbered (st_idCounter s) batch)) \<subseteq> set (QueryAll B t s') \<and>
    set (QueryAll B t s') \<subseteq>
      set (QueryAll B t s) \<union> set (map (message_utf8 \<circ> snd) (numbered (st_idCounter s) batch))"
proof -
  let ?c = "st_idCounter s"
  have st: "storable ?c batch = numbered ?c batch" using assms(6) by (rule storable_all)
  have inv: "db_inv B (st_db s')"
    using badger_db.flush_inv [OF assms(1,2), of now batch] assms(3) by simp
  have time: "key_time_ok (Timestamp m)" if "(i, m) \<in> set (numbered ?c batch)" for i m
    using numbered_time [OF that] assms(6) by auto
  have "message_utf8 m \<in> set (QueryAll B t s')" if im: "(i, m) \<in> set (numbered ?c batch)" for i m
  proof -
    have "m' = m" if "(j, m') \<in> set (storable ?c batch)"
        "msg_key (wrap64 (Timestamp m')) j = msg_key (wrap64 (Timestamp m)) i" for j m'
    proof -
      have "0 \<le> i" "0 \<le> j" using im that(1) numbered_range st by metis+
      moreover have "key_time_ok (wrap64 (Timestamp m))" "key_time_ok (wrap64 (Timestamp m'))"
        using time im that(1) st by (metis int64_range_def key_time_ok_def wrap64_id less_eq_neg_nonpos
          neg_le_0_iff_le order_trans zero_le_numeral zero_le_power)+
      ultimately have "i = j" using that(2) msg_key_inject by metis
      then show ?thesis using numbered_unique [OF assms(4,5)] im that(1) st by metis
    qed
    then have "bg_get B t (st_db s') (msg_key (wrap64 (Timestamp m)) i) = Found (StoredMsg (message_utf8 m))"
      using badger_db.flush_found [OF assms(1,3), of i m t] im st assms(7) by auto
    then show ?thesis using badger_db.QueryAll_iff [OF assms(1) inv] msg_key_prefix by blast
  qed
  moreover have "m \<in> set (QueryAll B t s) \<union> set (map (message_utf8 \<circ> snd) (numbered ?c batch))"
    if m: "m \<in> set (QueryAll B t s')" for m
  proof -
    obtain k where k: "HasPrefix k msg_prefix" "bg_get B t (st_db s') k = Found (StoredMsg m)"
      using m badger_db.QueryAll_iff [OF assms(1) inv] by blast
    then show ?thesis
      using badger_db.flush_only [OF assms(1,3) k] badger_db.QueryAll_iff [OF assms(1,2)] st by auto
  qed
  ultimately show ?thesis by auto
qed

text \<open>
  C12. Durability: when \<open>flush\<close> commits, every message of the batch is returned by \<open>QueryAll\<close>
  for the next 24 hours, under the consecutive number it was given and otherwise unchanged
  but for the replacement of invalid UTF-8, and every message returned was there before or
  is one of the batch.
\<close>

theorem flush_durable:
  assumes "badger_db B" "db_inv B (st_db s)" "flush B now batch s = (True, s')"
    and "0 \<le> st_idCounter s" "st_idCounter s + int (length batch) < 2 ^ 63"
    and "\<forall>m\<in>set batch. key_time_ok (Timestamp m)" "t < now + one_day"
  shows "set (map (message_utf8 \<circ> snd) (numbered (st_idCounter s) batch)) \<subseteq> set (QueryAll B t s') \<and>
    set (QueryAll B t s') \<subseteq>
      set (QueryAll B t s) \<union> set (map (message_utf8 \<circ> snd) (numbered (st_idCounter s) batch))"
  using flush_visible [OF assms] .

lemma fold_account_counts:
  "int64_range (TotalMessages s) \<Longrightarrow>
     TotalMessages (fold account ms s) = wrap64 (TotalMessages s + int (length ms))"
  "int64_range (TotalRequests s) \<Longrightarrow>
     TotalRequests (fold account ms s) =
       wrap64 (TotalRequests s + int (length (filter (\<lambda>m. MsgType m = MsgTypeRequest) ms)))"
  "int64_range (TotalErrors s) \<Longrightarrow>
     TotalErrors (fold account ms s) = wrap64 (TotalErrors s + int (length (filter is_error ms)))"
  "int64_range (TotalBytes s) \<Longrightarrow>
     TotalBytes (fold account ms s) = wrap64 (TotalBytes s + (\<Sum>m\<leftarrow>ms. SizeBytes m))"
  "int64_range (TotalTokens s) \<Longrightarrow>
     TotalTokens (fold account ms s) = wrap64 (TotalTokens s + (\<Sum>m\<leftarrow>ms. TokenEstimate m))"
  by (induction ms arbitrary: s) (simp_all add: account_def add.assoc add.commute [of 1])

lemma finish_stats_simps [simp]:
  "TotalMessages (finish_stats l s) = TotalMessages s" "TotalRequests (finish_stats l s) = TotalRequests s"
  "TotalErrors (finish_stats l s) = TotalErrors s" "TotalBytes (finish_stats l s) = TotalBytes s"
  "TotalTokens (finish_stats l s) = TotalTokens s"
  by (simp_all add: finish_stats_def)

definition stats_range :: "Stats \<Rightarrow> bool" where
  "stats_range s \<longleftrightarrow> int64_range (TotalMessages s) \<and> int64_range (TotalRequests s) \<and>
     int64_range (TotalErrors s) \<and> int64_range (TotalBytes s) \<and> int64_range (TotalTokens s)"

text \<open>
  C34. The statistics count what is stored: after a committed batch \<open>GetStats\<close> returns the old
  totals plus, over the messages of the batch that were stored, their number, the requests
  and errors among them, and their bytes and tokens, each reduced to 64 bits, and as average
  the accumulated positive latencies divided by the new number of messages.
\<close>

theorem flush_counts:
  assumes "badger_db B" "flush B now batch s = (True, s')"
    and "old = read_stats B now (st_db s)" "stats_range old"
    and "ms = map snd (storable (st_idCounter s) batch)"
    and "AvgLatencyMS (committed_stats B now batch s) = Fin sg m e"
  shows "\<exists>new. GetStats B t s' = (new, False) \<and>
    TotalMessages new = wrap64 (TotalMessages old + int (length ms)) \<and>
    TotalRequests new =
      wrap64 (TotalRequests old + int (length (filter (\<lambda>m. MsgType m = MsgTypeRequest) ms))) \<and>
    TotalErrors new = wrap64 (TotalErrors old + int (length (filter is_error ms))) \<and>
    TotalBytes new = wrap64 (TotalBytes old + (\<Sum>m\<leftarrow>ms. SizeBytes m)) \<and>
    TotalTokens new = wrap64 (TotalTokens old + (\<Sum>m\<leftarrow>ms. TokenEstimate m)) \<and>
    AvgLatencyMS new = (if TotalMessages new > 0
      then f64_div (fold add_latency ms (start_latency old)) (f64_of_int (TotalMessages new))
      else AvgLatencyMS (fold account ms old))"
proof -
  have "bg_get B t (st_db s') stats_key = Found (StoredStats (committed_stats B now batch s))"
    using badger_db.flush_stats [OF assms(1,2)] assms(6) by (simp add: marshal_stats_def)
  moreover have "committed_stats B now batch s =
      finish_stats (fold add_latency ms (start_latency old)) (fold account ms old)"
    using assms(3,5) by (simp add: committed_stats_def Let_def)
  ultimately show ?thesis
    using assms(4)
    by (simp add: GetStats_def unmarshal_stats_def fold_account_counts stats_range_def)
      (simp add: finish_stats_def fold_account_counts)
qed

lemma Clear_effect:
  assumes "badger_db B" "Clear B now s = (True, s')"
  shows "QueryAll B t s' = [] \<and> GetStats B t s' = (zero_stats, False) \<and> st_idCounter s' = 0 \<and>
    st_queue s' = st_queue s \<and> st_batch s' = st_batch s"
proof -
  note get = badger_db.Clear_get [OF assms]
  have "bg_scan B t (st_db s') msg_prefix = []"
    using badger_db.scan_iff [OF assms(1), of _ _ t "st_db s'" msg_prefix] get
    by (metis lookup.distinct(1) list.set_intros(1) neq_Nil_conv prod.collapse stats_key_prefix)
  moreover have "st_idCounter s' = 0 \<and> st_queue s' = st_queue s \<and> st_batch s' = st_batch s"
    using assms(2) by (auto simp: Clear_def Let_def split: option.splits if_splits)
  ultimately show ?thesis
    using get [of t stats_key] by (simp add: QueryAll_def GetStats_def unmarshal_stats_def)
qed

text \<open>
  \<open>Clear\<close> forgets everything: when it succeeds no message is returned any more, the
  statistics are zero, and the next message gets number 1. Messages still queued or in the
  current batch are not part of that and are stored later.
\<close>

theorem clear_empties:
  assumes "badger_db B" "Clear B now s = (True, s')"
  shows "QueryAll B t s' = [] \<and> GetStats B t s' = (zero_stats, False) \<and> st_idCounter s' = 0 \<and>
    st_queue s' = st_queue s \<and> st_batch s' = st_batch s"
  using Clear_effect [OF assms] .

section \<open>The queue and the batches\<close>

datatype store_event = Arrive message | TakeOne | Tick

definition pending :: "'db store \<Rightarrow> message list" where
  "pending s = st_batch s @ chan_items (st_queue s)"

fun store_step :: "'db badger \<Rightarrow> time \<Rightarrow> store_event \<Rightarrow> 'db store \<Rightarrow> 'db store" where
  "store_step B now (Arrive m) s = Insert m s"
| "store_step B now TakeOne s = drain_msg B now s"
| "store_step B now Tick s = drain_tick B now s"

text \<open>The batch a step hands to \<open>flush\<close>.\<close>

fun handed :: "store_event \<Rightarrow> 'db store \<Rightarrow> message list" where
  "handed (Arrive m) s = []"
| "handed TakeOne s =
     (case recv (st_queue s) of
        None \<Rightarrow> []
      | Some (m, q) \<Rightarrow> if length (st_batch s @ [m]) \<ge> 256 then st_batch s @ [m] else [])"
| "handed Tick s = st_batch s"

fun store_run ::
  "'db badger \<Rightarrow> time \<Rightarrow> store_event list \<Rightarrow> 'db store \<Rightarrow> message list \<times> 'db store" where
  "store_run B now [] s = ([], s)"
| "store_run B now (ev # evs) s =
     (let (log, s') = store_run B now evs (store_step B now ev s) in (handed ev s @ log, s'))"

fun arrivals :: "store_event list \<Rightarrow> message list" where
  "arrivals [] = []"
| "arrivals (Arrive m # evs) = m # arrivals evs"
| "arrivals (ev # evs) = arrivals evs"

lemma store_run_Cons:
  "store_run B now (ev # evs) s =
     (handed ev s @ fst (store_run B now evs (store_step B now ev s)),
      snd (store_run B now evs (store_step B now ev s)))"
  by (simp add: split_def Let_def)

declare store_run.simps(2) [simp del]

lemma store_step_pending:
  "handed ev s @ pending (store_step B now ev s) =
     (case ev of Arrive m \<Rightarrow> pending (Insert m s) | _ \<Rightarrow> pending s)"
proof (cases ev)
  case TakeOne
  then show ?thesis
    by (auto simp: pending_def drain_msg_def recv_def Let_def split: option.splits list.splits)
qed (auto simp: pending_def drain_tick_def)

lemma step_arrivals:
  "handed ev s @ pending (store_step B now ev s) @ rest =
     (case ev of Arrive m \<Rightarrow> pending (Insert m s) | _ \<Rightarrow> pending s) @ rest"
  by (metis append_assoc store_step_pending)

lemma subseq_skip: "subseq (xs @ ys) (xs @ y # ys)"
  by (rule list_emb_append_mono) auto

lemma Insert_pending:
  "pending (Insert m s) = pending s @ (if chan_has_room (st_queue s) then [m] else [])"
  by (simp add: pending_def Insert_def try_send_def)


text \<open>
  Without loss: as long as no more messages arrive than the queue has room for, everything
  that arrived is in what was handed to \<open>flush\<close>, the current batch or the queue, in the
  order of arrival.
\<close>

theorem store_lossless:
  assumes "length (chan_items (st_queue s)) + length (arrivals evs) \<le> chan_cap (st_queue s)"
  shows "fst (store_run B now evs s) @ pending (snd (store_run B now evs s)) = pending s @ arrivals evs"
  using assms
proof (induction evs arbitrary: s)
  case (Cons ev evs)
  let ?s = "store_step B now ev s"
  have queue: "chan_cap (st_queue ?s) = chan_cap (st_queue s)"
    "length (chan_items (st_queue ?s)) \<le> length (chan_items (st_queue s)) + (case ev of Arrive m \<Rightarrow> 1 | _ \<Rightarrow> 0)"
    by (cases ev; auto simp: Insert_def try_send_def drain_tick_def drain_msg_def recv_def Let_def
        split: option.splits list.splits)+
  have "length (chan_items (st_queue ?s)) + length (arrivals evs) \<le> chan_cap (st_queue ?s)"
    using Cons.prems queue by (cases ev) auto
  then have "fst (store_run B now evs ?s) @ pending (snd (store_run B now evs ?s)) = pending ?s @ arrivals evs"
    by (rule Cons.IH)
  then have "fst (store_run B now (ev # evs) s) @ pending (snd (store_run B now (ev # evs) s)) =
      handed ev s @ pending ?s @ arrivals evs"
    by (simp add: store_run_Cons)
  then show ?case
    unfolding step_arrivals using Cons.prems
    by (cases ev) (simp_all add: Insert_pending chan_has_room_def)
qed simp

section \<open>Concrete runs\<close>

lemma memory_flush_msgs: "fst (flush_msgs memory_badger ms f)"
  by (induction ms arbitrary: f) (simp_all add: Let_def split: option.splits)

lemma memory_flush: "fst (flush memory_badger now batch s)"
  using memory_flush_msgs by (simp add: flush_def Let_def split: prod.splits) (metis fst_conv)

lemma memory_flush_eq: "flush memory_badger now batch s = (True, snd (flush memory_badger now batch s))"
  using memory_flush [of now batch s] by (cases "flush memory_badger now batch s") simp

lemma memory_inv_empty: "db_inv memory_badger []"
  by (simp add: db_inv_def memory_get_def)

definition example_msg :: message where
  "example_msg = zero_message\<lparr>Timestamp := 1700000000000000000, MsgType := MsgTypeResponse,
     LatencyMS := 50, SizeBytes := 200, TokenEstimate := 50\<rparr>"

definition example_store :: "memory store" where
  "example_store = snd (flush memory_badger 0 [example_msg, example_msg] (make_store [] 0))"

lemma example_store_inv: "db_inv memory_badger (st_db example_store)"
  unfolding example_store_def
  by (rule memory.flush_inv) (simp add: make_store_def memory_inv_empty)

lemma example_all: "map ID (QueryAll memory_badger 1 example_store) = [1, 2]"
  by code_simp

lemma store_invariant_witness:
  "store_inv memory_badger (drain_tick memory_badger 5 (make_store [] 0))"
proof -
  have new: "New memory_badger 3 (Some []) = Some (make_store [stats_entry zero_stats] 0)"
    by (simp add: New_def memory_get_def memory_write_def stats_entry_def)
  have inv: "store_inv memory_badger (make_store [] 0)"
    by (simp add: store_inv_def make_store_def make_chan_def memory_inv_empty)
  show ?thesis
    using store_invariant [OF memory.badger_db_axioms memory_inv_empty new inv, of example_msg 5] by blast
qed

lemma recent_is_latest_witness:
  "map ID (QueryRecent memory_badger 1 1 example_store) = [2]"
  using recent_is_latest [OF memory.badger_db_axioms example_store_inv, of 1 1] example_all
  by (auto simp: map_eq_Cons_conv)

lemma query_chronological_witness:
  "sorted (map Timestamp (QueryAll memory_badger 1 example_store))"
proof -
  have "list_all (\<lambda>m. key_time_ok (Timestamp m)) (QueryAll memory_badger 1 example_store)"
    by code_simp
  then show ?thesis
    using query_chronological [OF memory.badger_db_axioms example_store_inv, of 1]
    by (simp add: list_all_iff)
qed

lemma flush_durable_witness:
  "example_msg\<lparr>ID := 1\<rparr> \<in> set (QueryAll memory_badger 1 example_store)"
proof -
  have inv: "db_inv memory_badger (st_db (make_store [] 0))"
    by (simp add: make_store_def memory_inv_empty)
  have "set (map (message_utf8 \<circ> snd) (numbered (st_idCounter (make_store [] 0)) [example_msg, example_msg]))
      \<subseteq> set (QueryAll memory_badger 1 (snd (flush memory_badger 0 [example_msg, example_msg] (make_store [] 0))))"
    using flush_durable [OF memory.badger_db_axioms inv memory_flush_eq, of "[example_msg, example_msg]" 1 0]
    by (simp add: make_store_def example_msg_def key_time_ok_def one_day_def)
  moreover have "message_utf8 (example_msg\<lparr>ID := 1\<rparr>) = example_msg\<lparr>ID := 1\<rparr>" by code_simp
  moreover have "wrap64 1 = 1" by code_simp
  ultimately show ?thesis
    by (simp add: example_store_def make_store_def Let_def)
qed

lemma flush_counts_witness:
  "\<exists>new. GetStats memory_badger 1 example_store = (new, False) \<and> TotalMessages new = 2 \<and>
     TotalBytes new = 400 \<and> f64_fmt_v (AvgLatencyMS new) = ''50''"
proof -
  let ?s = "make_store [] 0"
  have avg: "AvgLatencyMS (committed_stats memory_badger 0 [example_msg, example_msg] ?s) =
      Fin False 7036874417766400 (- 47)"
    by code_simp
  have read: "read_stats memory_badger 0 (st_db ?s) = zero_stats"
    by (simp add: read_stats_def memory_get_def make_store_def)
  have stored: "map snd (storable (st_idCounter ?s) [example_msg, example_msg]) =
      [example_msg\<lparr>ID := 1\<rparr>, example_msg\<lparr>ID := 2\<rparr>]"
    by code_simp
  have "stats_range zero_stats"
    by (simp add: stats_range_def zero_stats_def int64_range_def)
  from flush_counts [OF memory.badger_db_axioms memory_flush_eq read [symmetric] this stored [symmetric] avg, of 1]
  obtain new where new: "GetStats memory_badger 1 example_store = (new, False)"
      "TotalMessages new = wrap64 2" "TotalBytes new = wrap64 400"
    unfolding example_store_def by (auto simp: zero_stats_def example_msg_def)
  moreover have "wrap64 2 = 2" "wrap64 400 = 400" by code_simp+
  moreover have "f64_fmt_v (AvgLatencyMS (fst (GetStats memory_badger 1 example_store))) = ''50''"
    by code_simp
  ultimately show ?thesis using new by simp
qed

lemma clear_empties_witness:
  "QueryAll memory_badger 9 (snd (Clear memory_badger 5 example_store)) = []"
proof -
  have "Clear memory_badger 5 example_store = (True, snd (Clear memory_badger 5 example_store))"
    by (simp add: Clear_def)
  from clear_empties [OF memory.badger_db_axioms this] show ?thesis by blast
qed

lemma store_lossless_witness:
  "fst (store_run memory_badger 0 [Arrive example_msg, TakeOne, Tick] (make_store [] 0))
     @ pending (snd (store_run memory_badger 0 [Arrive example_msg, TakeOne, Tick] (make_store [] 0)))
   = [example_msg]"
  using store_lossless [of "make_store [] 0" "[Arrive example_msg, TakeOne, Tick]" memory_badger 0]
  by (simp add: make_store_def make_chan_def pending_def)

end
