(* ===== verification/Main_Loop.thy ===== *)
theory Main_Loop
  imports Engine_Correlator Engine_Marshal Metrics_Record Storage_Properties Main_Config
begin

text \<open>
  The loop of \<open>main.go\<close>: every message a transport has queued is correlated, recorded in the
  metrics, inserted into the store and broadcast to the dashboards, in this order; the end of
  the transport cancels the context, and a cancelled context ends the loop.

  A signal, like the end of the transport, cancels the context. The hub appears as the payloads handed to it (the \<open>Cast\<close> events of \<open>Server_Hub\<close>), the
  metrics as the calls made. \<open>select\<close> takes any case that is ready; the choice is the event. A
  transport reports a message by a non-blocking send at any time.
\<close>

section \<open>State\<close>

record 'db monitor =
  mn_messages :: "message option chan"
  mn_correlator :: "Correlator \<times> tracer"
  mn_metrics :: "metric_call list"
  mn_store :: "'db store"
  mn_frames :: "bytes list"
  mn_cancelled :: bool
  mn_returned :: bool

definition start_monitor :: "bool \<Rightarrow> 'db store \<Rightarrow> 'db monitor" where
  "start_monitor tracing store =
     \<lparr>mn_messages = make_chan 1000, mn_correlator = (NewCorrelator, new_tracer tracing),
      mn_metrics = [], mn_store = store, mn_frames = [], mn_cancelled = False, mn_returned = False\<rparr>"

section \<open>Steps\<close>

text \<open>\<open>hub.Broadcast(msg)\<close>: the payload, or nothing if the message cannot be marshalled.\<close>

definition frames_of :: "(time \<Rightarrow> int) \<Rightarrow> message \<Rightarrow> bytes list" where
  "frames_of zone msg = (case message_text zone msg of None \<Rightarrow> [] | Some payload \<Rightarrow> [payload])"

definition handle_message ::
  "(time \<Rightarrow> int) \<Rightarrow> time \<Rightarrow> message option \<Rightarrow> 'db monitor \<Rightarrow> 'db monitor"
where
  "handle_message zone now msg m =
     (case msg of
        None \<Rightarrow> m
      | Some msg \<Rightarrow>
          (let (msg, corr) = Process now msg (mn_correlator m) in
           m\<lparr>mn_correlator := corr,
             mn_metrics := mn_metrics m @ RecordMetrics (Some msg),
             mn_store := Insert msg (mn_store m),
             mn_frames := mn_frames m @ frames_of zone msg\<rparr>))"

datatype loop_event =
    Report "message option"
  | MessageReady time
  | TransportEnded
  | Interrupted
  | ContextDone

inductive loop_step ::
  "(time \<Rightarrow> int) \<Rightarrow> 'db monitor \<Rightarrow> loop_event \<Rightarrow> 'db monitor \<Rightarrow> bool" for zone
where
  message: "\<not> mn_returned m \<Longrightarrow> recv (mn_messages m) = Some (msg, q) \<Longrightarrow>
    loop_step zone m (MessageReady now) (handle_message zone now msg (m\<lparr>mn_messages := q\<rparr>))"
| report: "loop_step zone m (Report msg) (m\<lparr>mn_messages := try_send msg (mn_messages m)\<rparr>)"
| ended: "\<not> mn_returned m \<Longrightarrow> loop_step zone m TransportEnded (m\<lparr>mn_cancelled := True\<rparr>)"
| interrupted: "loop_step zone m Interrupted (m\<lparr>mn_cancelled := True\<rparr>)"
| cancelled: "\<not> mn_returned m \<Longrightarrow> mn_cancelled m \<Longrightarrow> loop_step zone m ContextDone (m\<lparr>mn_returned := True\<rparr>)"

inductive_simps loop_step_simps:
  "loop_step zone m (MessageReady now) m'" "loop_step zone m TransportEnded m'"
  "loop_step zone m ContextDone m'" "loop_step zone m (Report msg) m'"
  "loop_step zone m Interrupted m'"

text \<open>The messages of a sequence of turns, each handled at its own time.\<close>

definition handle_all ::
  "(time \<Rightarrow> int) \<Rightarrow> (time \<times> message) list \<Rightarrow> 'db monitor \<Rightarrow> 'db monitor"
where
  "handle_all zone ms m = fold (\<lambda>(now, msg). handle_message zone now (Some msg)) ms m"

section \<open>All sinks see the same messages\<close>

lemma handle_all_simps [simp]:
  "handle_all zone [] m = m"
  "handle_all zone ((now, msg) # ms) m = handle_all zone ms (handle_message zone now (Some msg) m)"
  by (simp_all add: handle_all_def)

lemma handle_all_sinks:
  "process_all ms (mn_correlator m) = (ps, corr) \<Longrightarrow>
     handle_all zone ms m =
       m\<lparr>mn_correlator := corr, mn_metrics := mn_metrics m @ record_all ps,
         mn_store := fold Insert ps (mn_store m),
         mn_frames := mn_frames m @ concat (map (frames_of zone) ps)\<rparr>"
proof (induction ms arbitrary: m ps)
  case (Cons x ms)
  obtain now msg where x: "x = (now, msg)" by fastforce
  obtain msg' corr1 where p: "Process now msg (mn_correlator m) = (msg', corr1)"
    by (cases "Process now msg (mn_correlator m)") blast
  obtain ps' where ps: "process_all ms corr1 = (ps', corr)" "ps = msg' # ps'"
    using Cons.prems x p by (auto simp: Let_def split: prod.splits)
  let ?m = "handle_message zone now (Some msg) m"
  have "?m = m\<lparr>mn_correlator := corr1, mn_metrics := mn_metrics m @ RecordMetrics (Some msg'),
      mn_store := Insert msg' (mn_store m), mn_frames := mn_frames m @ frames_of zone msg'\<rparr>"
    by (simp add: handle_message_def p)
  with Cons.IH [of ?m ps'] ps x show ?case by simp
qed simp

lemma process_all_length: "length (fst (process_all xs st)) = length xs"
proof (induction xs arbitrary: st)
  case (Cons x xs)
  then show ?case by (cases x) (simp add: Let_def split_def)
qed simp

lemma Process_time: "Timestamp (fst (Process now m st)) = Timestamp m"
  by (simp add: Process_def process_response_def Let_def split: prod.split)

lemma process_all_time:
  "map Timestamp (fst (process_all xs st)) = map (Timestamp \<circ> snd) xs"
proof (induction xs arbitrary: st)
  case (Cons x xs)
  obtain now m where x: "x = (now, m)" by fastforce
  with Cons Process_time [of now m st] show ?case by (simp add: Let_def split_def)
qed simp

text \<open>
  One message for every sink: whatever messages the loop handles from the start, the
  metrics have recorded, the store has been given and the dashboards have been sent the same
  sequence, that of the messages as the correlator left them, in the order they came.
\<close>

theorem sinks_agree:
  "\<exists>ps corr. process_all ms (NewCorrelator, new_tracer tracing) = (ps, corr) \<and>
    length ps = length ms \<and>
    mn_metrics (handle_all zone ms (start_monitor tracing s)) = record_all ps \<and>
    mn_store (handle_all zone ms (start_monitor tracing s)) = fold Insert ps s \<and>
    mn_frames (handle_all zone ms (start_monitor tracing s)) = concat (map (frames_of zone) ps)"
proof -
  obtain ps corr where p: "process_all ms (NewCorrelator, new_tracer tracing) = (ps, corr)"
    by (cases "process_all ms (NewCorrelator, new_tracer tracing)") blast
  have "process_all ms (mn_correlator (start_monitor tracing s)) = (ps, corr)"
    using p by (simp add: start_monitor_def)
  from handle_all_sinks [OF this, of zone] show ?thesis
    using p process_all_length [of ms "(NewCorrelator, new_tracer tracing)"] by (simp add: start_monitor_def)
qed

section \<open>Runs of the loop\<close>

inductive loop_run ::
  "(time \<Rightarrow> int) \<Rightarrow> 'db monitor \<Rightarrow> loop_event list \<Rightarrow> 'db monitor \<Rightarrow> bool" for zone
where
  stop: "loop_run zone m [] m"
| turn: "loop_step zone m e m' \<Longrightarrow> loop_run zone m' evs m'' \<Longrightarrow> loop_run zone m (e # evs) m''"

definition times :: "loop_event list \<Rightarrow> time list" where
  "times evs = List.map_filter (\<lambda>e. case e of MessageReady t \<Rightarrow> Some t | _ \<Rightarrow> None) evs"

definition queue_ops :: "loop_event list \<Rightarrow> message option qop list" where
  "queue_ops evs =
     List.map_filter (\<lambda>e. case e of Report x \<Rightarrow> Some (Put x) | MessageReady t \<Rightarrow> Some Get | _ \<Rightarrow> None) evs"

lemma times_simps [simp]:
  "times [] = []" "times (e # evs) = (case e of MessageReady t \<Rightarrow> [t] | _ \<Rightarrow> []) @ times evs"
  by (simp_all add: times_def List.map_filter_def split: loop_event.split)

lemma queue_ops_simps [simp]:
  "queue_ops [] = []"
  "queue_ops (e # evs) =
     (case e of Report x \<Rightarrow> [Put x] | MessageReady t \<Rightarrow> [Get] | _ \<Rightarrow> []) @ queue_ops evs"
  by (simp_all add: queue_ops_def List.map_filter_def split: loop_event.split)

definition sinks ::
  "'db monitor \<Rightarrow> (Correlator \<times> tracer) \<times> metric_call list \<times> 'db store \<times> bytes list"
where
  "sinks m = (mn_correlator m, mn_metrics m, mn_store m, mn_frames m)"

definition handle_taken ::
  "(time \<Rightarrow> int) \<Rightarrow> (time \<times> message option) list \<Rightarrow> 'db monitor \<Rightarrow> 'db monitor"
where
  "handle_taken zone xs m = fold (\<lambda>(now, x). handle_message zone now x) xs m"

lemma handle_message_sinks:
  "sinks a = sinks b \<Longrightarrow> sinks (handle_message zone now x a) = sinks (handle_message zone now x b)"
  by (simp add: sinks_def handle_message_def split: option.split prod.split)

lemma handle_taken_sinks:
  "sinks a = sinks b \<Longrightarrow> sinks (handle_taken zone xs a) = sinks (handle_taken zone xs b)"
proof (induction xs arbitrary: a b)
  case (Cons x xs)
  have "sinks (handle_message zone (fst x) (snd x) a) = sinks (handle_message zone (fst x) (snd x) b)"
    by (rule handle_message_sinks [OF Cons.prems])
  from Cons.IH [OF this] show ?case by (simp add: handle_taken_def split_def)
qed (simp add: handle_taken_def)

lemma handle_message_queue [simp]: "mn_messages (handle_message zone now x m) = mn_messages m"
  by (simp add: handle_message_def split: option.split prod.split)

lemma loop_run_taken:
  "loop_run zone m evs m' \<Longrightarrow>
     \<exists>xs. queue_run try_send recv (mn_messages m) (queue_ops evs) = (xs, mn_messages m') \<and>
       length xs = length (times evs) \<and>
       sinks m' = sinks (handle_taken zone (zip (times evs) xs) m)"
proof (induction rule: loop_run.induct)
  case (stop m)
  then show ?case by (simp add: handle_taken_def)
next
  case (turn m e m' evs m'')
  then obtain xs where xs: "queue_run try_send recv (mn_messages m') (queue_ops evs) = (xs, mn_messages m'')"
    "length xs = length (times evs)" "sinks m'' = sinks (handle_taken zone (zip (times evs) xs) m')" by blast
  from turn(1) show ?case
  proof (cases rule: loop_step.cases)
    case (message msg q now)
    let ?m = "handle_message zone now msg m"
    have "sinks m' = sinks ?m"
      unfolding message(2) by (rule handle_message_sinks) (simp add: sinks_def)
    then have "sinks m'' = sinks (handle_taken zone (zip (times evs) xs) ?m)"
      using xs(3) handle_taken_sinks by metis
    then show ?thesis
      using xs message by (intro exI [of _ "msg # xs"]) (simp add: handle_taken_def)
  next
    case (report msg)
    have "sinks m' = sinks m" using report by (simp add: sinks_def)
    then show ?thesis using xs report handle_taken_sinks [of m' m] by auto
  next
    case ended
    have "sinks m' = sinks m" using ended by (simp add: sinks_def)
    then show ?thesis using xs ended handle_taken_sinks [of m' m] by auto
  next
    case interrupted
    have "sinks m' = sinks m" using interrupted by (simp add: sinks_def)
    then show ?thesis using xs interrupted handle_taken_sinks [of m' m] by auto
  next
    case cancelled
    have "sinks m' = sinks m" using cancelled by (simp add: sinks_def)
    then show ?thesis using xs cancelled handle_taken_sinks [of m' m] by auto
  qed
qed

text \<open>
  The loop works through what is reported: along any run the messages it has handled, in
  order and each once, followed by those still queued, are a subsequence of those queued at
  first and those reported since; the correlator, the metrics, the store and the dashboards are
  exactly as handling them one by one leaves them. With room in the queue for all of them the
  subsequence is everything.
\<close>

theorem loop_handles_reports:
  assumes "loop_run zone m evs m'"
  shows "\<exists>xs. length xs = length (times evs) \<and>
    sinks m' = sinks (handle_taken zone (zip (times evs) xs) m) \<and>
    subseq (xs @ chan_items (mn_messages m'))
      (chan_items (mn_messages m) @ qputs (queue_ops evs)) \<and>
    (length (chan_items (mn_messages m)) + length (qputs (queue_ops evs)) \<le> chan_cap (mn_messages m) \<longrightarrow>
      xs @ chan_items (mn_messages m') = chan_items (mn_messages m) @ qputs (queue_ops evs))"
  using loop_run_taken [OF assms] gochan.run_subseq gochan.run_lossless by metis

section \<open>One exchange\<close>

text \<open>
  C4. An exchange is measured everywhere: when a request and, after messages that do not touch
  its slot, its response have been handled, the response has been recorded in the metrics,
  inserted into the store and sent to the dashboards with the whole milliseconds since the
  request as its latency and with the request's method if it had none.
\<close>

theorem exchange_measured:
  assumes "MsgType req = MsgTypeRequest" "MsgType resp = MsgTypeResponse"
    and "JSONRPCID req = i" "JSONRPCID resp = i" "i \<noteq> []"
    and "\<forall>x\<in>set between. \<not> touches (snd x) (slot_index i)"
    and "Timestamp req \<le> now" "int64_range (now - Timestamp req)"
    and "resp' = resp\<lparr>LatencyMS := (now - Timestamp req) div 1000000,
                     Method := if Method resp = [] then Method req else Method resp\<rparr>"
    and "before = handle_all zone ((t, req) # between) m"
  shows "let after = handle_all zone ((t, req) # between @ [(now, resp)]) m in
    mn_metrics after = mn_metrics before @ RecordMetrics (Some resp') \<and>
    mn_store after = Insert resp' (mn_store before) \<and>
    mn_frames after = mn_frames before @ frames_of zone resp'"
proof -
  have app: "handle_all zone (xs @ ys) m = handle_all zone ys (handle_all zone xs m)" for xs ys
    by (simp add: handle_all_def)
  have "mn_correlator before = snd (process_all between (snd (Process t req (mn_correlator m))))"
  proof -
    obtain ps corr where p: "process_all ((t, req) # between) (mn_correlator m) = (ps, corr)"
      by (cases "process_all ((t, req) # between) (mn_correlator m)") blast
    have "corr = snd (process_all between (snd (Process t req (mn_correlator m))))"
      using p by (auto simp: Let_def split: prod.splits)
    with handle_all_sinks [OF p, of zone] show ?thesis by (simp add: assms(10))
  qed
  with response_of_request [OF assms(1-8), of t "mn_correlator m"]
  have "fst (Process now resp (mn_correlator before)) = resp'"
    by (simp add: assms(9) Let_def split: prod.splits)
  moreover have "handle_all zone ((t, req) # between @ [(now, resp)]) m =
      handle_message zone now (Some resp) before"
    using app [of "(t, req) # between" "[(now, resp)]"] assms(10) by simp
  ultimately show ?thesis by (simp add: handle_message_def split_def)
qed

definition unnumbered :: bytes where
  "unnumbered = [lbrace] @ quote ''id'' @ '':0,''"

lemma message_text_id: "message_text zone m = Some t \<Longrightarrow> ID m = 0 \<Longrightarrow> prefix unnumbered t"
proof -
  have "format_d 0 = ''0''" by code_simp
  then show "message_text zone m = Some t \<Longrightarrow> ID m = 0 \<Longrightarrow> prefix unnumbered t"
    by (auto simp: message_text_def message_fields_def struct_text_def unnumbered_def quote_def)
qed

lemma Process_ID [simp]: "ID (fst (Process now m st)) = ID m"
  by (simp add: Process_def process_response_def Let_def split: prod.split)

lemma process_all_ID:
  "\<forall>x\<in>set ms. ID (snd x) = 0 \<Longrightarrow> \<forall>m\<in>set (fst (process_all ms st)). ID m = 0"
proof (induction ms arbitrary: st)
  case (Cons x ms)
  obtain now m where x: "x = (now, m)" by fastforce
  have "ID (fst (Process now m st)) = 0" using Cons.prems x by simp
  with Cons x show ?case by (simp add: Let_def split_def)
qed simp

text \<open>
  The dashboards never learn the number of a message: messages are numbered when they are
  written to the database, after the broadcast, and the transports report them with the number
  zero, so every frame sent starts with the identifier zero.
\<close>

theorem frames_unnumbered:
  assumes "\<forall>x\<in>set ms. ID (snd x) = 0"
  shows "\<forall>f\<in>set (mn_frames (handle_all zone ms (start_monitor tracing s))). prefix unnumbered f"
proof -
  let ?m = "start_monitor tracing s"
  obtain ps corr where p: "process_all ms (mn_correlator ?m) = (ps, corr)"
    by (cases "process_all ms (mn_correlator ?m)") blast
  have "\<forall>m\<in>set ps. ID m = 0" using process_all_ID [OF assms] p by (metis fst_conv)
  then have "\<forall>f\<in>set (concat (map (frames_of zone) ps)). prefix unnumbered f"
    by (auto simp: frames_of_def split: option.splits intro: message_text_id)
  with handle_all_sinks [OF p, of zone] show ?thesis by (simp add: start_monitor_def)
qed

section \<open>Examples\<close>

definition example_monitor :: "memory monitor" where
  "example_monitor = start_monitor False (make_store [] 0)"

definition example_request :: message where
  "example_request = zero_message\<lparr>MsgType := MsgTypeRequest, Timestamp := 1000000000,
     JSONRPCID := ''7'', Method := ''tools/list''\<rparr>"

definition example_response :: message where
  "example_response = zero_message\<lparr>MsgType := MsgTypeResponse, JSONRPCID := ''7''\<rparr>"

lemma loop_handles_reports_witness:
  "\<exists>xs m'. xs = [Some example_request] \<and>
     sinks m' = sinks (handle_taken (\<lambda>t. 0) (zip [5] xs) example_monitor)"
proof -
  let ?m = "example_monitor\<lparr>mn_messages := \<lparr>chan_cap = 1000, chan_items = [Some example_request]\<rparr>\<rparr>"
  let ?m' = "handle_message (\<lambda>t. 0) 5 (Some example_request)
    (?m\<lparr>mn_messages := \<lparr>chan_cap = 1000, chan_items = []\<rparr>\<rparr>)"
  have q: "mn_messages example_monitor = \<lparr>chan_cap = 1000, chan_items = []\<rparr>"
    by (simp add: example_monitor_def start_monitor_def make_chan_def)
  have "loop_step (\<lambda>t. 0) example_monitor (Report (Some example_request)) ?m"
    by (simp add: loop_step_simps q try_send_def chan_has_room_def)
  moreover have "loop_step (\<lambda>t. 0) ?m (MessageReady 5) ?m'"
    by (auto simp: loop_step_simps recv_def example_monitor_def start_monitor_def)
  ultimately have run: "loop_run (\<lambda>t. 0) example_monitor [Report (Some example_request), MessageReady 5] ?m'"
    by (blast intro: loop_run.intros)
  from loop_handles_reports [OF this] obtain xs where
    "length xs = 1" "sinks ?m' = sinks (handle_taken (\<lambda>t. 0) (zip [5] xs) example_monitor)"
    "xs @ chan_items (mn_messages ?m') = [Some example_request]"
    by (auto simp: q)
  then show ?thesis by (intro exI [of _ xs] exI [of _ ?m']) (cases xs; simp)
qed

lemma exchange_measured_witness:
  "\<exists>calls. mn_metrics (handle_all (\<lambda>t. 0) [(1000000000, example_request), (1250000000, example_response)]
      example_monitor) = calls @ RecordMetrics (Some (example_response\<lparr>LatencyMS := 250, Method := ''tools/list''\<rparr>))"
  using exchange_measured [where req = example_request and resp = example_response and i = "''7''"
      and between = "[]" and t = 1000000000 and now = 1250000000 and zone = "\<lambda>t. 0"
      and m = example_monitor, OF _ _ _ _ _ _ _ _ refl refl]
  by (simp add: example_request_def example_response_def int64_range_def zero_message_def Let_def)

lemma frames_unnumbered_witness:
  "list_all (prefix unnumbered) (mn_frames (handle_all (\<lambda>t. 0) [(5, example_request)]
      (start_monitor False (make_store ([] :: memory) 0))))"
  unfolding list_all_iff by (rule frames_unnumbered) (simp add: example_request_def zero_message_def)

end
