(* ===== verification/Go_HTTP.thy ===== *)
theory Go_HTTP
  imports Go_Bytes
begin

text \<open>
  The parts of Go's \<open>net/http\<close>, \<open>encoding/base64\<close> and \<open>path\<close> that decide what the dashboard
  server does with a request: the credentials of the \<open>Authorization\<close> header, and the choice of
  a handler by \<open>ServeMux\<close>.
\<close>

section \<open>Base64\<close>

definition b64_char :: "int \<Rightarrow> char" where
  "b64_char i =
     (if i < 26 then char_of (65 + i)
      else if i < 52 then char_of (71 + i)
      else if i < 62 then char_of (i - 4)
      else if i = 62 then CHR ''+'' else CHR ''/'')"

definition b64_val :: "char \<Rightarrow> int option" where
  "b64_val c =
     (let n = of_char c in
      if 65 \<le> n \<and> n \<le> 90 then Some (n - 65)
      else if 97 \<le> n \<and> n \<le> 122 then Some (n - 71)
      else if 48 \<le> n \<and> n \<le> 57 then Some (n + 4)
      else if c = CHR ''+'' then Some 62
      else if c = CHR ''/'' then Some 63
      else None)"

fun b64_encode :: "bytes \<Rightarrow> bytes" where
  "b64_encode [] = []"
| "b64_encode [a] =
     (let n = of_char a * 16 in [b64_char (n div 64), b64_char (n mod 64), CHR ''='', CHR ''=''])"
| "b64_encode [a, b] =
     (let n = (of_char a * 256 + of_char b) * 4 in
      [b64_char (n div 4096), b64_char (n div 64 mod 64), b64_char (n mod 64), CHR ''=''])"
| "b64_encode (a # b # c # t) =
     (let n = (of_char a * 256 + of_char b) * 256 + of_char c in
      b64_char (n div 262144) # b64_char (n div 4096 mod 64) # b64_char (n div 64 mod 64) #
      b64_char (n mod 64) # b64_encode t)"

text \<open>
  \<open>base64.StdEncoding.DecodeString\<close>, which ignores line breaks. The padding bits of the last
  group are not checked.
\<close>

fun b64_groups :: "bytes \<Rightarrow> bytes option" where
  "b64_groups [] = Some []"
| "b64_groups (a # b # c # d # t) =
     (case (b64_val a, b64_val b) of
        (Some x, Some y) \<Rightarrow>
          if c = CHR ''='' then
            (if d = CHR ''='' \<and> t = [] then Some [char_of ((x * 64 + y) div 16)] else None)
          else (case b64_val c of
             None \<Rightarrow> None
           | Some z \<Rightarrow>
               if d = CHR ''='' then
                 (if t = []
                  then let n = ((x * 64 + y) * 64 + z) div 4 in Some [char_of (n div 256), char_of (n mod 256)]
                  else None)
               else (case b64_val d of
                  None \<Rightarrow> None
                | Some w \<Rightarrow>
                    let n = ((x * 64 + y) * 64 + z) * 64 + w in
                    map_option (\<lambda>r. char_of (n div 65536) # char_of (n div 256 mod 256) # char_of (n mod 256) # r)
                      (b64_groups t)))
      | _ \<Rightarrow> None)"
| "b64_groups _ = None"

definition b64_decode :: "bytes \<Rightarrow> bytes option" where
  "b64_decode s = b64_groups (filter (\<lambda>c. c \<noteq> nl \<and> c \<noteq> cr) s)"

lemma b64_val_char:
  assumes "0 \<le> i" "i < 64"
  shows "b64_val (b64_char i) = Some i \<and> b64_char i \<noteq> CHR ''='' \<and> b64_char i \<noteq> nl \<and> b64_char i \<noteq> cr"
proof -
  have "list_all (\<lambda>i. b64_val (b64_char i) = Some i \<and> b64_char i \<noteq> CHR ''='' \<and>
      b64_char i \<noteq> nl \<and> b64_char i \<noteq> cr) [0..63]"
    by code_simp
  moreover have "i \<in> set [0..63]" using assms by simp
  ultimately show ?thesis by (auto simp: list_all_iff)
qed

lemmas b64_char_simps = b64_val_char [THEN conjunct1] b64_val_char [THEN conjunct2, THEN conjunct1]

lemma of_char_range: "(0 :: int) \<le> of_char c \<and> (of_char c :: int) < 256"
  using of_char_mod_256 [of c] by (metis (mono_tags) pos_mod_bound pos_mod_sign zero_less_numeral)

lemma char_of_of_char: "char_of (of_char c :: int) = c"
  by simp

text \<open>Two, three and four digits of base 64 make up the number they were taken from.\<close>

lemma base64_digits:
  fixes n :: int
  shows "n div 64 * 64 + n mod 64 = n"
    and "(n div 4096 * 64 + n div 64 mod 64) * 64 + n mod 64 = n"
    and "((n div 262144 * 64 + n div 4096 mod 64) * 64 + n div 64 mod 64) * 64 + n mod 64 = n"
proof -
  have *: "m div (64 * k) * 64 + m div k mod 64 = m div k" if "0 < k" for m k :: int
  proof -
    have "m div (64 * k) = m div k div 64"
      using that by (simp add: zdiv_zmult2_eq mult.commute)
    then show ?thesis by simp
  qed
  show "n div 64 * 64 + n mod 64 = n" by simp
  then show "(n div 4096 * 64 + n div 64 mod 64) * 64 + n mod 64 = n"
    using * [of 64 n] by simp
  then show "((n div 262144 * 64 + n div 4096 mod 64) * 64 + n div 64 mod 64) * 64 + n mod 64 = n"
    using * [of 4096 n] by simp
qed

lemma div_lt_64:
  fixes n k :: int
  assumes "n < 64 * k" "0 < k"
  shows "n div k < 64"
proof (rule ccontr)
  assume "\<not> n div k < 64"
  then have "64 * k \<le> n div k * k" using assms(2) by (intro mult_right_mono) simp_all
  also have "\<dots> \<le> n"
    using div_mult_mod_eq [of n k] pos_mod_sign [OF assms(2), of n] by linarith
  finally show False using assms(1) by simp
qed

lemma b64_digit: "0 \<le> n \<Longrightarrow> n < 64 * k \<Longrightarrow> 0 < k \<Longrightarrow>
    b64_val (b64_char (n div k)) = Some (n div k) \<and> b64_char (n div k) \<noteq> CHR ''=''"
  using b64_val_char [of "n div k"]
  by (simp add: pos_imp_zdiv_nonneg_iff div_lt_64)

lemma b64_digit_mod:
  "b64_val (b64_char (n mod 64)) = Some (n mod 64)" "b64_char (n mod 64) \<noteq> CHR ''=''"
  using b64_val_char [of "n mod 64"] by simp_all

lemma bytes3:
  fixes a b c :: int
  assumes "0 \<le> a" "0 \<le> b" "b < 256" "0 \<le> c" "c < 256" and n: "n = (a * 256 + b) * 256 + c"
  shows "n div 65536 = a" "n div 256 mod 256 = b" "n mod 256 = c"
proof -
  have 1: "n div 256 = a * 256 + b" using assms by simp
  then show "n div 256 mod 256 = b" using assms(2,3) by simp
  show "n mod 256 = c" using 1 n minus_div_mult_eq_mod [of n 256] by simp
  have "n div 65536 = n div 256 div 256" by (simp flip: zdiv_zmult2_eq)
  then show "n div 65536 = a" using 1 assms(2,3) by simp
qed

lemma b64_groups_encode: "b64_groups (b64_encode s) = Some s"
proof (induction s rule: b64_encode.induct)
  case (2 a)
  obtain n where n: "n = of_char a * (16 :: int)" by blast
  have r: "0 \<le> n" "n < 64 * 64" "n div 16 = of_char a" using of_char_range [of a] by (simp_all add: n)
  have "b64_groups (b64_encode [a]) = Some [char_of (n div 16)]"
    unfolding b64_encode.simps Let_def n [symmetric]
    using b64_digit [OF r(1,2)] b64_digit_mod [of n] base64_digits(1) [of n] by simp
  with r show ?case by simp
next
  case (3 a b)
  obtain n where n: "n = (of_char a * 256 + of_char b) * (4 :: int)" by blast
  have r: "0 \<le> n" "n < 64 * 4096" "n div 4 = of_char a * 256 + of_char b"
    using of_char_range [of a] of_char_range [of b] by (simp_all add: n)
  have "b64_groups (b64_encode [a, b]) = Some [char_of (n div 4 div 256), char_of (n div 4 mod 256)]"
    unfolding b64_encode.simps Let_def n [symmetric]
    using b64_digit [OF r(1,2)] b64_digit_mod [of n] b64_digit_mod [of "n div 64"]
      base64_digits(2) [of n] by (simp add: Let_def)
  with r of_char_range [of b] show ?case by simp
next
  case (4 a b c t)
  obtain n where n: "n = (of_char a * 256 + of_char b) * 256 + (of_char c :: int)" by blast
  have r: "0 \<le> n" "n < 64 * 262144"
    using of_char_range [of a] of_char_range [of b] of_char_range [of c] by (simp_all add: n)
  have bytes: "n div 65536 = of_char a" "n div 256 mod 256 = of_char b" "n mod 256 = of_char c"
    using bytes3 [OF _ _ _ _ _ n] of_char_range [of a] of_char_range [of b] of_char_range [of c]
    by simp_all
  have "b64_groups (b64_encode (a # b # c # t)) =
      Some (char_of (n div 65536) # char_of (n div 256 mod 256) # char_of (n mod 256) # t)"
    unfolding b64_encode.simps Let_def n [symmetric] b64_groups.simps
    using b64_digit [OF r(1,2), THEN conjunct1] b64_digit_mod [of n] b64_digit_mod [of "n div 64"]
      b64_digit_mod [of "n div 4096"] 4
    by (simp only: base64_digits(3) option.case prod.case option.map if_False zero_less_numeral)
  then show ?case unfolding bytes by simp
qed simp

lemma b64_char_no_break: "0 \<le> n \<Longrightarrow> n < 64 * k \<Longrightarrow> 0 < k \<Longrightarrow>
    b64_char (n div k) \<noteq> nl \<and> b64_char (n div k) \<noteq> cr"
  using b64_val_char [of "n div k"]
  by (simp add: pos_imp_zdiv_nonneg_iff div_lt_64)

lemma b64_char_no_break_mod: "b64_char (n mod 64) \<noteq> nl" "b64_char (n mod 64) \<noteq> cr"
  using b64_val_char [of "n mod 64"] by simp_all

lemma b64_encode_chars: "filter (\<lambda>c. c \<noteq> nl \<and> c \<noteq> cr) (b64_encode s) = b64_encode s"
proof (induction s rule: b64_encode.induct)
  case (2 a)
  obtain n where n: "n = of_char a * (16 :: int)" by blast
  have "0 \<le> n" "n < 64 * 64" using of_char_range [of a] by (simp_all add: n)
  then show ?case
    unfolding b64_encode.simps Let_def n [symmetric]
    using b64_char_no_break [of n 64] by (simp add: b64_char_no_break_mod)
next
  case (3 a b)
  obtain n where n: "n = (of_char a * 256 + of_char b) * (4 :: int)" by blast
  have "0 \<le> n" "n < 64 * 4096" using of_char_range [of a] of_char_range [of b] by (simp_all add: n)
  then show ?case
    unfolding b64_encode.simps Let_def n [symmetric]
    using b64_char_no_break [of n 4096] by (simp add: b64_char_no_break_mod)
next
  case (4 a b c t)
  obtain n where n: "n = (of_char a * 256 + of_char b) * 256 + (of_char c :: int)" by blast
  have "0 \<le> n" "n < 64 * 262144"
    using of_char_range [of a] of_char_range [of b] of_char_range [of c] by (simp_all add: n)
  then show ?case
    unfolding b64_encode.simps Let_def n [symmetric]
    using b64_char_no_break [of n 262144] 4 by (simp add: b64_char_no_break_mod)
qed simp

lemma b64_roundtrip: "b64_decode (b64_encode s) = Some s"
  by (simp add: b64_decode_def b64_groups_encode b64_encode_chars)

section \<open>Basic authentication\<close>

definition basic_prefix :: bytes where
  "basic_prefix = ''Basic ''"

text \<open>\<open>strings.Cut\<close> at the first occurrence of a byte.\<close>

definition cut_at :: "char \<Rightarrow> bytes \<Rightarrow> (bytes \<times> bytes) option" where
  "cut_at c s =
     (case dropWhile (\<lambda>x. x \<noteq> c) s of [] \<Rightarrow> None | x # t \<Rightarrow> Some (takeWhile (\<lambda>x. x \<noteq> c) s, t))"

text \<open>\<open>r.BasicAuth()\<close> on the value of the header, empty if there is none.\<close>

definition BasicAuth :: "bytes \<Rightarrow> (bytes \<times> bytes) option" where
  "BasicAuth auth =
     (if auth = [] then None
      else if length auth < 6 \<or> ToLowerASCII (take 6 auth) \<noteq> ToLowerASCII basic_prefix then None
      else Option.bind (b64_decode (drop 6 auth)) (cut_at CHR '':''))"

text \<open>The header a client sends for a user name and a password.\<close>

definition basic_header :: "bytes \<Rightarrow> bytes \<Rightarrow> bytes" where
  "basic_header user pass = basic_prefix @ b64_encode (user @ CHR '':'' # pass)"

lemma cut_at_first: "c \<notin> set s \<Longrightarrow> cut_at c (s @ c # t) = Some (s, t)"
  by (induction s) (auto simp: cut_at_def split: list.splits)

lemma cut_at_no_sep: "cut_at c s = Some (u, p) \<Longrightarrow> c \<notin> set u"
  by (auto simp: cut_at_def split: list.splits dest: set_takeWhileD)

lemma BasicAuth_header: "CHR '':'' \<notin> set user \<Longrightarrow> BasicAuth (basic_header user pass) = Some (user, pass)"
  by (simp add: BasicAuth_def basic_header_def basic_prefix_def b64_roundtrip cut_at_first)

section \<open>Choosing a handler\<close>

text \<open>Splitting a path at its slashes, and putting it together again.\<close>

fun split_slash :: "bytes \<Rightarrow> bytes list" where
  "split_slash [] = [[]]"
| "split_slash (c # t) =
     (if c = CHR ''/'' then [] # split_slash t
      else (case split_slash t of [] \<Rightarrow> [[c]] | s # ss \<Rightarrow> (c # s) # ss))"

fun join_slash :: "bytes list \<Rightarrow> bytes" where
  "join_slash [] = []"
| "join_slash (s # ss) = CHR ''/'' # s @ join_slash ss"

text \<open>\<open>path.Clean\<close> on a rooted path: no empty and no dot elements, and each \<open>..\<close> removes the
  element before it.\<close>

definition clean_element :: "bytes \<Rightarrow> bytes list \<Rightarrow> bytes list" where
  "clean_element e stack =
     (if e = [] \<or> e = ''.'' then stack
      else if e = ''..'' then tl stack
      else e # stack)"

definition path_clean :: "bytes \<Rightarrow> bytes" where
  "path_clean p =
     (case rev (fold clean_element (split_slash p) []) of
        [] \<Rightarrow> ''/'' | es \<Rightarrow> join_slash es)"

definition cleanPath :: "bytes \<Rightarrow> bytes" where
  "cleanPath p =
     (if p = [] then ''/''
      else let p = (if hd p = CHR ''/'' then p else CHR ''/'' # p); np = path_clean p in
        if last p = CHR ''/'' \<and> np \<noteq> ''/'' then np @ ''/'' else np)"

text \<open>\<open>url.PathUnescape\<close> of a path element; an invalid escape leaves it as it is.\<close>

definition hex_digit_val :: "char \<Rightarrow> int option" where
  "hex_digit_val c =
     (let n = of_char c in
      if 48 \<le> n \<and> n \<le> 57 then Some (n - 48)
      else if 97 \<le> n \<and> n \<le> 102 then Some (n - 87)
      else if 65 \<le> n \<and> n \<le> 70 then Some (n - 55)
      else None)"

fun unescape_path :: "bytes \<Rightarrow> bytes option" where
  "unescape_path [] = Some []"
| "unescape_path (c # t) =
     (if c = CHR ''%'' then
        (case t of
           h # l # t' \<Rightarrow>
             (case (hex_digit_val h, hex_digit_val l) of
                (Some x, Some y) \<Rightarrow> map_option (Cons (char_of (x * 16 + y))) (unescape_path t')
              | _ \<Rightarrow> None)
         | _ \<Rightarrow> None)
      else map_option (Cons c) (unescape_path t))"

definition path_element :: "bytes \<Rightarrow> bytes" where
  "path_element e = (case unescape_path e of Some u \<Rightarrow> u | None \<Rightarrow> e)"

text \<open>
  What \<open>ServeMux\<close> does with the escaped path of a request, for patterns that are either literal
  paths or the root subtree \<open>/\<close>: redirect to the clean path, or the pattern that matches.
\<close>

datatype route = Redirect bytes | Pattern bytes

definition pattern_elements :: "bytes \<Rightarrow> bytes list" where
  "pattern_elements pat = tl (split_slash pat)"

definition mux_match :: "bytes list \<Rightarrow> bytes \<Rightarrow> bytes" where
  "mux_match patterns path =
     (case List.find (\<lambda>pat. pattern_elements pat = map path_element (pattern_elements path)) patterns of
        Some pat \<Rightarrow> pat | None \<Rightarrow> ''/'')"

definition mux_route :: "bytes list \<Rightarrow> bytes \<Rightarrow> bytes \<Rightarrow> route" where
  "mux_route patterns meth escapedPath =
     (if meth = ''CONNECT'' then Pattern (mux_match patterns escapedPath)
      else let path = cleanPath escapedPath in
        if path \<noteq> escapedPath then Redirect path else Pattern (mux_match patterns path))"

lemma mux_match_in: "mux_match patterns path \<in> insert ''/'' (set patterns)"
  by (auto simp: mux_match_def find_Some_iff split: option.split)

lemma mux_route_pattern: "mux_route patterns meth p = Pattern pat \<Longrightarrow> pat \<in> insert ''/'' (set patterns)"
  using mux_match_in by (auto simp: mux_route_def Let_def split: if_splits)

end
