(* ===== verification/Go_CSV.thy ===== *)
theory Go_CSV
  imports Go_Bytes Go_UTF8
begin

text \<open>
  Go's \<open>encoding/csv\<close> writer with its default settings, and a reader of RFC 4180 to state what
  the written text means.
\<close>

section \<open>Writing\<close>

abbreviation (input) comma :: char where "comma \<equiv> CHR 0x2C"

definition starts_with_space :: "bytes \<Rightarrow> bool" where
  "starts_with_space s \<longleftrightarrow> list_ex (HasPrefix s) space_runes"

definition fieldNeedsQuotes :: "bytes \<Rightarrow> bool" where
  "fieldNeedsQuotes field =
     (if field = [] then False
      else if field = bslash # ''.'' then True
      else if list_ex (\<lambda>c. c = nl \<or> c = cr \<or> c = dquote \<or> c = comma) field then True
      else starts_with_space field)"

text \<open>Inside quotes only the quote itself is written twice.\<close>

fun double_quotes :: "bytes \<Rightarrow> bytes" where
  "double_quotes [] = []"
| "double_quotes (c # t) = (if c = dquote then dquote # dquote # double_quotes t else c # double_quotes t)"

definition csv_field :: "bytes \<Rightarrow> bytes" where
  "csv_field field =
     (if fieldNeedsQuotes field then dquote # double_quotes field @ [dquote] else field)"

fun csv_fields :: "bytes list \<Rightarrow> bytes" where
  "csv_fields [] = []"
| "csv_fields [f] = csv_field f"
| "csv_fields (f # g # fs) = csv_field f @ comma # csv_fields (g # fs)"

text \<open>\<open>writer.Write(record)\<close>.\<close>

definition csv_record :: "bytes list \<Rightarrow> bytes" where
  "csv_record fields = csv_fields fields @ [nl]"

section \<open>Reading\<close>

text \<open>A quoted field after its opening quote: its content and what follows the closing quote.\<close>

fun read_quoted :: "bytes \<Rightarrow> (bytes \<times> bytes) option" where
  "read_quoted [] = None"
| "read_quoted (c # t) =
     (if c = dquote then
        (case t of
           d # t' \<Rightarrow> if d = dquote then map_option (\<lambda>(v, r). (dquote # v, r)) (read_quoted t')
                    else Some ([], t)
         | [] \<Rightarrow> Some ([], []))
      else map_option (\<lambda>(v, r). (c # v, r)) (read_quoted t))"

definition plain :: "char \<Rightarrow> bool" where
  "plain c \<longleftrightarrow> c \<noteq> comma \<and> c \<noteq> nl"

definition read_field :: "bytes \<Rightarrow> (bytes \<times> bytes) option" where
  "read_field s =
     (if take 1 s = [dquote] then read_quoted (drop 1 s)
      else Some (takeWhile plain s, dropWhile plain s))"

text \<open>The fields up to the end of the line, then the lines up to the end of the text.\<close>

function read_record :: "bytes \<Rightarrow> (bytes list \<times> bytes) option" where
  "read_record s =
     (case read_field s of
        None \<Rightarrow> None
      | Some (f, r) \<Rightarrow>
          (case r of
             [] \<Rightarrow> None
           | c # t \<Rightarrow>
               if c = nl then Some ([f], t)
               else if c = comma \<and> length t < length s
               then map_option (\<lambda>(fs, r'). (f # fs, r')) (read_record t)
               else None))"
  by pat_completeness auto
termination
  by (relation "measure length") auto

declare read_record.simps [simp del]

function read_csv :: "bytes \<Rightarrow> bytes list list option" where
  "read_csv s =
     (if s = [] then Some []
      else (case read_record s of
              None \<Rightarrow> None
            | Some (fs, r) \<Rightarrow>
                if length r < length s then map_option (\<lambda>rs. fs # rs) (read_csv r) else None))"
  by pat_completeness auto
termination
  by (relation "measure length") auto

declare read_csv.simps [simp del]

section \<open>Round trip\<close>

lemma read_quoted_text:
  "r \<noteq> [] \<Longrightarrow> hd r \<noteq> dquote \<Longrightarrow> read_quoted (double_quotes f @ dquote # r) = Some (f, r)"
  by (induction f rule: double_quotes.induct) (auto split: list.split)

lemma needs_quotes_plain:
  "\<not> fieldNeedsQuotes f \<Longrightarrow> list_all plain f \<and> take 1 f \<noteq> [dquote]"
  by (cases f) (auto simp: fieldNeedsQuotes_def plain_def list_all_iff list_ex_iff split: if_splits)

lemma read_field_text:
  assumes "c = comma \<or> c = nl"
  shows "read_field (csv_field f @ c # t) = Some (f, c # t)"
proof (cases "fieldNeedsQuotes f")
  case True
  then show ?thesis using assms by (auto simp: csv_field_def read_field_def read_quoted_text)
next
  case False
  note p = needs_quotes_plain [OF this]
  have "takeWhile plain (f @ c # t) = f" "dropWhile plain (f @ c # t) = c # t"
    using p assms by (auto simp: list_all_iff plain_def takeWhile_append dropWhile_append)
  moreover have "take 1 (f @ c # t) \<noteq> [dquote]" using p assms by (cases f) auto
  ultimately show ?thesis using False by (simp add: csv_field_def read_field_def)
qed

lemma read_record_text: "fs \<noteq> [] \<Longrightarrow> read_record (csv_record fs @ t) = Some (fs, t)"
proof (induction fs rule: csv_fields.induct)
  case (2 f)
  then show ?case by (subst read_record.simps) (simp add: csv_record_def read_field_text)
next
  case (3 f g fs)
  then show ?case
    by (subst read_record.simps) (simp add: csv_record_def read_field_text)
qed simp

lemma read_csv_text:
  "\<forall>fs\<in>set rows. fs \<noteq> [] \<Longrightarrow> read_csv (concat (map csv_record rows)) = Some rows"
proof (induction rows)
  case (Cons fs rows)
  then have "read_record (csv_record fs @ concat (map csv_record rows)) =
      Some (fs, concat (map csv_record rows))"
    by (simp add: read_record_text)
  moreover have "csv_record fs \<noteq> []" by (simp add: csv_record_def)
  ultimately show ?case
    using Cons by (subst read_csv.simps) simp
qed (simp add: read_csv.simps)

end
