(* ===== verification/Go_Time_Parse.thy ===== *)
theory Go_Time_Parse
  imports Go_Time
begin

text \<open>
  The inverse of \<open>Go_Time\<close>: \<open>time.Time.UnmarshalJSON\<close> reads an RFC 3339 text. A text in the
  layout with nanoseconds is read back as the instant it was printed from, provided the offset
  of the zone is a whole number of minutes below a day, which is all the layout can express.
\<close>

section \<open>Reading\<close>

definition leap_year :: "int \<Rightarrow> bool" where
  "leap_year y \<longleftrightarrow> y mod 4 = 0 \<and> (y mod 100 \<noteq> 0 \<or> y mod 400 = 0)"

definition days_in :: "int \<Rightarrow> int \<Rightarrow> int" where
  "days_in m y =
     (if m = 2 then (if leap_year y then 29 else 28)
      else if m = 4 \<or> m = 6 \<or> m = 9 \<or> m = 11 then 30 else 31)"

definition uint_in :: "bytes \<Rightarrow> int \<Rightarrow> int \<Rightarrow> int option" where
  "uint_in s lo hi =
     (if list_all is_digit s \<and> lo \<le> digits_val s \<and> digits_val s \<le> hi then Some (digits_val s) else None)"

text \<open>A fraction of a second, of which nine digits count, and what follows it.\<close>

definition parse_nanos :: "bytes \<Rightarrow> int \<times> bytes" where
  "parse_nanos s =
     (case s of
        c # d # t \<Rightarrow>
          if c = CHR ''.'' \<and> is_digit d
          then (let ds = take 9 (takeWhile is_digit (d # t))
                in (digits_val ds * 10 ^ (9 - length ds), dropWhile is_digit (d # t)))
          else (0, s)
      | _ \<Rightarrow> (0, s))"

definition parse_zone :: "bytes \<Rightarrow> int option" where
  "parse_zone s =
     (if s = ''Z'' then Some 0
      else if length s \<noteq> 6 then None
      else Option.bind (uint_in (take 2 (drop 1 s)) 0 23) (\<lambda>hr.
           Option.bind (uint_in (take 2 (drop 4 s)) 0 59) (\<lambda>mm.
             if (s ! 0 = CHR ''-'' \<or> s ! 0 = CHR ''+'') \<and> s ! 3 = CHR '':''
             then Some (signed (s ! 0 = CHR ''-'') ((hr * 60 + mm) * 60)) else None)))"

definition parse_RFC3339 :: "bytes \<Rightarrow> time option" where
  "parse_RFC3339 s =
     (if length s < 19 then None
      else Option.bind (uint_in (take 4 s) 0 9999) (\<lambda>year.
           Option.bind (uint_in (take 2 (drop 5 s)) 1 12) (\<lambda>month.
           Option.bind (uint_in (take 2 (drop 8 s)) 1 (days_in month year)) (\<lambda>day.
           Option.bind (uint_in (take 2 (drop 11 s)) 0 23) (\<lambda>hour.
           Option.bind (uint_in (take 2 (drop 14 s)) 0 59) (\<lambda>minute.
           Option.bind (uint_in (take 2 (drop 17 s)) 0 59) (\<lambda>sec.
             if s ! 4 = CHR ''-'' \<and> s ! 7 = CHR ''-'' \<and> s ! 10 = CHR ''T'' \<and>
                s ! 13 = CHR '':'' \<and> s ! 16 = CHR '':''
             then (case parse_nanos (drop 19 s) of (nsec, z) \<Rightarrow>
                     map_option (\<lambda>offset.
                       (days_of_civil (year, month, day) * 86400 + hour * 3600 + minute * 60 + sec
                          - offset) * 1000000000 + nsec) (parse_zone z))
             else None)))))))"

section \<open>Fixed-width numbers\<close>

lemma pad_number:
  assumes "0 \<le> i" "i < 10 ^ w" "0 < w"
  shows "length (pad w i) = w" "list_all is_digit (pad w i)" "digits_val (pad w i) = i"
  using decimal_length [OF assms] decimal_digits [OF assms(1)] assms(1)
  by (auto simp: pad_def list_all_iff digits_val_append)

lemma uint_in_pad:
  "0 \<le> i \<Longrightarrow> i < 10 ^ w \<Longrightarrow> 0 < w \<Longrightarrow> lo \<le> i \<Longrightarrow> i \<le> hi \<Longrightarrow> uint_in (pad w i) lo hi = Some i"
  by (simp add: uint_in_def pad_number)

section \<open>The calendar stays within its months\<close>

lemma year_and_day_leap:
  assumes "0 \<le> doe" "doe < 146097" "year_and_day doe = (yoe, 365)"
  shows "leap_year (yoe + 1)"
proof -
  define c where "c = min 3 (doe div 36524)"
  define dc where "dc = doe - c * 36524"
  define q where "q = dc div 1461"
  define dq where "dq = dc - q * 1461"
  define a where "a = min 3 (dq div 365)"
  have y: "yoe = 100 * c + 4 * q + a" and d: "dq - a * 365 = 365"
    using assms(3) by (simp_all add: year_and_day_def Let_def c_def dc_def q_def dq_def a_def)
  have c: "0 \<le> c" "c \<le> 3" "0 \<le> dc" "dc < 36525"
    using assms(1,2) by (auto simp: c_def dc_def min_def)
  have c3: "dc = 36524 \<Longrightarrow> c = 3"
    using pos_mod_bound [of 36524 doe]
    by (cases "3 \<le> doe div 36524") (auto simp: c_def dc_def min_def minus_div_mult_eq_mod)
  have q: "0 \<le> q" "q \<le> 24" "0 \<le> dq" "dq < 1461" "dc = q * 1461 + dq"
    using c by (auto simp: q_def dq_def)
  have "a = 3" using d q by (auto simp: a_def min_def split: if_splits)
  then have "dq = 1460" using d by simp
  show ?thesis
  proof (cases "q = 24")
    case True
    then have "c = 3" using c3 q(5) \<open>dq = 1460\<close> by simp
    then show ?thesis using True \<open>a = 3\<close> by (simp add: leap_year_def y)
  next
    case False
    have e: "yoe + 1 = 4 * (25 * c + q + 1)" "yoe + 1 = 4 * (q + 1) + 100 * c"
      using \<open>a = 3\<close> by (simp_all add: y)
    have "(yoe + 1) mod 100 = 4 * (q + 1)" unfolding e(2) using False q by simp
    moreover have "(yoe + 1) mod 4 = 0" unfolding e(1) by simp
    ultimately show ?thesis using q by (simp add: leap_year_def)
  qed
qed

lemma leap_year_era: "leap_year (y + n * 400) = leap_year y"
proof -
  have "(y + n * 400) mod 4 = y mod 4" "(y + n * 400) mod 100 = y mod 100"
    using mod_mult_self1 [of y "n * 100" 4] mod_mult_self1 [of y "n * 4" 100] by (simp_all add: ac_simps)
  then show ?thesis by (simp add: leap_year_def)
qed

lemma month_days:
  assumes "0 \<le> mp" "mp < 11" "doy < (153 * (mp + 1) + 2) div 5"
    and "m = (if mp < 10 then mp + 3 else mp - 9)"
  shows "doy - (153 * mp + 2) div 5 + 1 \<le> days_in m y"
proof -
  have "mp \<in> {0, 1, 2, 3, 4, 5, 6, 7, 8, 9, 10}" using assms(1,2) by simp presburger
  then show ?thesis using assms(3,4) by (elim insertE emptyE) (simp_all add: days_in_def)
qed

lemma civil_of_days_month:
  assumes "civil_of_days n = (y, m, d)"
  shows "d \<le> days_in m y"
proof -
  define z where "z = n + 719468"
  obtain yoe doy where yd: "year_and_day (z mod 146097) = (yoe, doy)" by fastforce
  have b: "0 \<le> doy" "doy < 366" using year_and_day [OF _ _ yd] by simp_all
  define mp where "mp = (5 * doy + 2) div 153"
  have mp: "0 \<le> mp" "mp < 12" using b by (auto simp: mp_def)
  have "(y, m, d) = civil_of_days n" using assms by simp
  also have "\<dots> = (let m = (if mp < 10 then mp + 3 else mp - 9) in
      (yoe + z div 146097 * 400 + (if m \<le> 2 then 1 else 0), m, doy - (153 * mp + 2) div 5 + 1))"
    by (simp add: civil_of_days_def yd mp_def Let_def flip: z_def)
  finally have d: "d = doy - (153 * mp + 2) div 5 + 1" and m: "m = (if mp < 10 then mp + 3 else mp - 9)"
    and y: "y = yoe + z div 146097 * 400 + (if m \<le> 2 then 1 else 0)"
    by (simp_all only: Let_def prod.inject)
  have "5 * doy + 2 < 153 * mp + 153" by (simp add: mp_def)
  then have up: "doy < (153 * (mp + 1) + 2) div 5" by simp
  show ?thesis
  proof (cases "mp < 11")
    case True
    with month_days [OF mp(1) _ up m] show ?thesis by (simp add: d)
  next
    case False
    then have "mp = 11" using mp by simp
    then have "m = 2" "d = doy - 336" by (simp_all add: m d)
    moreover have "leap_year y" if "doy = 365"
      using year_and_day_leap [of "z mod 146097" yoe] yd that \<open>m = 2\<close>
        leap_year_era [of "yoe + 1" "z div 146097"] by (simp add: y ac_simps)
    ultimately show ?thesis using b by (cases "doy = 365") (auto simp: days_in_def)
  qed
qed

section \<open>Texts are read back\<close>

lemma length_Suc_conv2: "length xs = 2 \<Longrightarrow> \<exists>a b. xs = [a, b]"
  and length_Suc_conv4: "length xs = 4 \<Longrightarrow> \<exists>a b c d. xs = [a, b, c, d]"
  by (auto simp: numeral_eq_Suc length_Suc_conv)

lemma parse_nanos_fraction:
  assumes "0 \<le> ns" "ns < 1000000000" "z \<noteq> []" "\<not> is_digit (hd z)" "hd z \<noteq> CHR ''.''"
  shows "parse_nanos (fraction_text ns @ z) = (ns, z)"
proof (cases "ns = 0")
  case True
  with assms show ?thesis by (cases z) (auto simp: fraction_text_def parse_nanos_def split: list.split)
next
  case False
  obtain k where k: "pad 9 ns = strip_zeros (pad 9 ns) @ replicate k CHR ''0''"
    using strip_zeros_decomp by blast
  let ?ds = "strip_zeros (pad 9 ns)"
  have p: "length (pad 9 ns) = 9" "list_all is_digit (pad 9 ns)" "digits_val (pad 9 ns) = ns"
    using pad_number [of ns 9] assms by simp_all
  have len: "length ?ds + k = 9" using p(1) arg_cong [OF k, of length] by simp
  have dig: "list_all is_digit ?ds" using p(2) by (subst (asm) k) simp
  have val: "digits_val ?ds * 10 ^ k = ns"
    using p(3) by (subst (asm) k) (simp add: digits_val_append)
  have "?ds \<noteq> []" using val False by auto
  then obtain d ds where ds: "?ds = d # ds" by (cases ?ds) auto
  have tw: "takeWhile is_digit (?ds @ z) = ?ds" "dropWhile is_digit (?ds @ z) = z"
    using dig assms(3,4) by (cases z; auto simp: list_all_iff takeWhile_append dropWhile_append)+
  have "9 - length ?ds = k" "take 9 ?ds = ?ds" using len by simp_all
  then show ?thesis
    using False tw val dig unfolding ds fraction_text_def by (simp add: parse_nanos_def)
qed

lemma parse_zone_text:
  assumes "offset mod 60 = 0" "\<bar>offset\<bar> < 86400"
  shows "parse_zone (zone_text offset) = Some offset"
proof (cases "offset = 0")
  case True
  then show ?thesis by (simp add: zone_text_def parse_zone_def)
next
  case False
  obtain z where z: "offset = z * 60" using assms(1) by (metis dvd_imp_mod_0 dvdE mod_0_imp_dvd mult.commute)
  then have b: "\<bar>z\<bar> < 1440" "z \<noteq> 0" using assms(2) False by auto
  have q: "go_quot offset 60 = z" by (simp add: z go_quot_def sgn_if abs_mult flip: mult_minus_left)
  let ?h = "pad 2 (\<bar>z\<bar> div 60)" and ?m = "pad 2 (\<bar>z\<bar> mod 60)"
  have "length ?h = 2" "length ?m = 2" using b by (simp_all add: pad_number)
  then obtain h1 h2 m1 m2 where hm: "?h = [h1, h2]" "?m = [m1, m2]" using length_Suc_conv2 by metis
  have "uint_in ?h 0 23 = Some (\<bar>z\<bar> div 60)" "uint_in ?m 0 59 = Some (\<bar>z\<bar> mod 60)"
    using b by (simp_all add: uint_in_pad)
  moreover have "signed (z < 0) ((\<bar>z\<bar> div 60 * 60 + \<bar>z\<bar> mod 60) * 60) = offset"
    by (simp add: signed_def z)
  ultimately show ?thesis
    using False by (auto simp: zone_text_def Let_def q hm parse_zone_def)
qed

lemma zone_text_hd: "zone_text offset \<noteq> []" "\<not> is_digit (hd (zone_text offset))" "hd (zone_text offset) \<noteq> CHR ''.''"
  by (simp_all add: zone_text_def Let_def is_digit_def)

text \<open>The years the layout has four digits for, and the offsets it can express.\<close>

definition printable_time :: "(time \<Rightarrow> int) \<Rightarrow> time \<Rightarrow> bool" where
  "printable_time zone t \<longleftrightarrow>
     (let y = fst (civil_of_days (local_seconds zone t div 86400)) in 0 \<le> y \<and> y \<le> 9999) \<and>
     zone t mod 60 = 0 \<and> \<bar>zone t\<bar> < 86400"

theorem RFC3339Nano_roundtrip:
  assumes "printable_time zone t"
  shows "parse_RFC3339 (RFC3339Nano zone t) = Some t"
proof -
  define s where "s = local_seconds zone t"
  obtain y m d where c: "civil_of_days (s div 86400) = (y, m, d)" by (metis prod_cases3)
  have y: "0 \<le> y" "y \<le> 9999" using assms c by (simp_all add: printable_time_def s_def)
  have md: "1 \<le> m" "m \<le> 12" "1 \<le> d" "d \<le> 31" "d \<le> days_in m y"
    using civil_of_days_range [OF c] civil_of_days_month [OF c] by simp_all
  define k where "k = s mod 86400"
  define hh where "hh = k div 3600"
  define mi where "mi = k mod 3600 div 60"
  define se where "se = k mod 60"
  have k: "0 \<le> k" "k < 86400" by (simp_all add: k_def)
  have h: "0 \<le> hh" "hh \<le> 23" "0 \<le> mi" "mi \<le> 59" "0 \<le> se" "se \<le> 59"
    using k by (auto simp: hh_def mi_def se_def)
  let ?Y = "pad 4 y" and ?M = "pad 2 m" and ?D = "pad 2 d" and ?H = "pad 2 hh" and ?I = "pad 2 mi"
    and ?S = "pad 2 se"
  let ?z = "fraction_text (t mod 1000000000) @ zone_text (zone t)"
  have "length ?Y = 4" "length ?M = 2" "length ?D = 2" "length ?H = 2" "length ?I = 2" "length ?S = 2"
    using y md h by (simp_all add: pad_number)
  then obtain y1 y2 y3 y4 m1 m2 d1 d2 h1 h2 i1 i2 s1 s2 where ps:
    "?Y = [y1, y2, y3, y4]" "?M = [m1, m2]" "?D = [d1, d2]" "?H = [h1, h2]" "?I = [i1, i2]" "?S = [s1, s2]"
    using length_Suc_conv2 length_Suc_conv4 by metis
  have us: "uint_in ?Y 0 9999 = Some y" "uint_in ?M 1 12 = Some m" "uint_in ?D 1 (days_in m y) = Some d"
    "uint_in ?H 0 23 = Some hh" "uint_in ?I 0 59 = Some mi" "uint_in ?S 0 59 = Some se"
    using y md h by (simp_all add: uint_in_pad)
  have nz: "parse_nanos ?z = (t mod 1000000000, zone_text (zone t))"
    by (rule parse_nanos_fraction) (simp_all add: zone_text_hd)
  have pz: "parse_zone (zone_text (zone t)) = Some (zone t)"
    using assms by (intro parse_zone_text) (simp_all add: printable_time_def)
  have "RFC3339Nano zone t = ?Y @ CHR ''-'' # ?M @ CHR ''-'' # ?D @ CHR ''T'' # ?H @ CHR '':'' # ?I @
      CHR '':'' # ?S @ ?z"
    by (simp add: RFC3339Nano_def format_with_def Let_def date_text_def clock_text_def c
        flip: s_def k_def hh_def mi_def se_def)
  then have parsed: "parse_RFC3339 (RFC3339Nano zone t) =
      Some ((days_of_civil (y, m, d) * 86400 + hh * 3600 + mi * 60 + se - zone t) * 1000000000 + t mod 1000000000)"
    using us unfolding ps by (simp add: parse_RFC3339_def nz pz)
  have "days_of_civil (y, m, d) = s div 86400" using civil_of_days_inverse c by metis
  moreover have "hh * 3600 + mi * 60 + se = k"
  proof -
    have "se = k mod 3600 mod 60" by (simp add: se_def mod_mod_cancel)
    then show ?thesis unfolding hh_def mi_def by (metis add.assoc div_mult_mod_eq)
  qed
  moreover have "s div 86400 * 86400 + k = t div 1000000000 + zone t"
    by (simp add: k_def s_def local_seconds_def)
  ultimately show ?thesis using parsed by (simp add: add.assoc)
qed

end
