(* ===== verification/Engine_Codec.thy ===== *)
theory Engine_Codec
  imports Engine_Marshal Go_Time_Parse
begin

text \<open>
  \<open>json.Unmarshal\<close> into a \<open>Message\<close>, as the queries of the store call it on every value, and
  the round trip: a message that was marshalled is read back with its strings made valid UTF-8
  and everything else as it was. This is what lets the store's model keep a marshalled message
  as the message itself.
\<close>

section \<open>Decoding\<close>

text \<open>\<open>Time.UnmarshalJSON\<close> works on the literal: \<open>null\<close> changes nothing, a quoted text is parsed.\<close>

definition time_field :: "(time \<Rightarrow> 'a \<Rightarrow> 'a) \<Rightarrow> bytes \<Rightarrow> 'a filling \<Rightarrow> 'a filling" where
  "time_field put lit st =
     (if lit = ''null'' then st
      else if length lit < 2 \<or> hd lit \<noteq> dquote \<or> last lit \<noteq> dquote then (fst st, True)
      else (case parse_RFC3339 (butlast (tl lit)) of
              None \<Rightarrow> (fst st, True)
            | Some t \<Rightarrow> (put t (fst st), snd st)))"

definition message_field :: "bytes \<times> json \<times> bytes \<Rightarrow> message filling \<Rightarrow> message filling" where
  "message_field x =
     (case x of (key, v, lit) \<Rightarrow>
        let k = fold_name key in
        if k = ''id'' then int_field (\<lambda>x m. m\<lparr>ID := x\<rparr>) v lit
        else if k = ''timestamp'' then time_field (\<lambda>x m. m\<lparr>Timestamp := x\<rparr>) lit
        else if k = ''transport'' then string_field (\<lambda>x m. m\<lparr>Transport := x\<rparr>) v
        else if k = ''direction'' then string_field (\<lambda>x m. m\<lparr>Direction := x\<rparr>) v
        else if k = ''msg_type'' then string_field (\<lambda>x m. m\<lparr>MsgType := x\<rparr>) v
        else if k = ''method'' then string_field (\<lambda>x m. m\<lparr>Method := x\<rparr>) v
        else if k = ''jsonrpc_id'' then string_field (\<lambda>x m. m\<lparr>JSONRPCID := x\<rparr>) v
        else if k = ''params'' then string_field (\<lambda>x m. m\<lparr>Params := x\<rparr>) v
        else if k = ''result'' then string_field (\<lambda>x m. m\<lparr>Result := x\<rparr>) v
        else if k = ''error_data'' then string_field (\<lambda>x m. m\<lparr>ErrorData := x\<rparr>) v
        else if k = ''latency_ms'' then int_field (\<lambda>x m. m\<lparr>LatencyMS := x\<rparr>) v lit
        else if k = ''size_bytes'' then int_field (\<lambda>x m. m\<lparr>SizeBytes := x\<rparr>) v lit
        else if k = ''token_estimate'' then int_field (\<lambda>x m. m\<lparr>TokenEstimate := x\<rparr>) v lit
        else if k = ''error_code'' then string_field (\<lambda>x m. m\<lparr>ErrorCode := x\<rparr>) v
        else if k = ''raw'' then string_field (\<lambda>x m. m\<lparr>Raw := x\<rparr>) v
        else (\<lambda>st. st))"

definition decode_message :: "bytes \<Rightarrow> message option" where
  "decode_message data = unmarshal_struct message_field zero_message data"

section \<open>Round trip\<close>

text \<open>The \<open>int64\<close> fields of a message are in range.\<close>

definition message_ints_ok :: "message \<Rightarrow> bool" where
  "message_ints_ok m \<longleftrightarrow> int64_range (ID m) \<and> int64_range (LatencyMS m) \<and>
     int64_range (SizeBytes m) \<and> int64_range (TokenEstimate m)"

lemma plain_digit: "is_digit c \<Longrightarrow> plain_byte c"
  by (auto simp: plain_byte_def is_digit_def ascii_def byte_in_def)

lemma plain_simps [simp]:
  "plain_byte CHR ''-''" "plain_byte CHR ''+''" "plain_byte CHR '':''" "plain_byte CHR ''T''"
  "plain_byte CHR ''Z''" "plain_byte CHR ''.''" "plain_byte CHR ''0''"
  by (simp_all add: plain_byte_def ascii_def byte_in_def)

lemma pad_plain [simp]: "list_all plain_byte (pad w i)"
proof -
  have "list_all plain_byte (decimal \<bar>i\<bar>)"
    using decimal_digits [of "\<bar>i\<bar>"] plain_digit by (auto simp: list_all_iff)
  then show ?thesis by (auto simp: pad_def list_all_iff)
qed

lemma RFC3339Nano_plain [simp]: "list_all plain_byte (RFC3339Nano zone t)"
proof -
  have "list_all plain_byte (strip_zeros ds)" if "list_all plain_byte ds" for ds
    using that by (auto simp: strip_zeros_def list_all_iff dest: set_dropWhileD)
  then show ?thesis
    by (simp add: RFC3339Nano_def format_with_def Let_def date_text_def clock_text_def zone_text_def
        fraction_text_def split_def)
qed

lemma fold_name_keys:
  "fold_name ''id'' = ''id''"
  "fold_name ''timestamp'' = ''timestamp''"
  "fold_name ''transport'' = ''transport''"
  "fold_name ''direction'' = ''direction''"
  "fold_name ''msg_type'' = ''msg_type''"
  "fold_name ''method'' = ''method''"
  "fold_name ''jsonrpc_id'' = ''jsonrpc_id''"
  "fold_name ''params'' = ''params''"
  "fold_name ''result'' = ''result''"
  "fold_name ''error_data'' = ''error_data''"
  "fold_name ''latency_ms'' = ''latency_ms''"
  "fold_name ''size_bytes'' = ''size_bytes''"
  "fold_name ''token_estimate'' = ''token_estimate''"
  "fold_name ''error_code'' = ''error_code''"
  "fold_name ''raw'' = ''raw''"
  by code_simp+

lemma plain_keys:
  "list_all plain_byte ''id''"
  "list_all plain_byte ''timestamp''"
  "list_all plain_byte ''transport''"
  "list_all plain_byte ''direction''"
  "list_all plain_byte ''msg_type''"
  "list_all plain_byte ''method''"
  "list_all plain_byte ''jsonrpc_id''"
  "list_all plain_byte ''params''"
  "list_all plain_byte ''result''"
  "list_all plain_byte ''error_data''"
  "list_all plain_byte ''latency_ms''"
  "list_all plain_byte ''size_bytes''"
  "list_all plain_byte ''token_estimate''"
  "list_all plain_byte ''error_code''"
  "list_all plain_byte ''raw''"
  by code_simp+

text \<open>The fields of a marshalled message: key, text of the value, and the value that is read.\<close>

definition message_literals ::
  "bytes \<Rightarrow> float64 \<Rightarrow> float64 \<Rightarrow> float64 \<Rightarrow> float64 \<Rightarrow> message \<Rightarrow> field_text list"
where
  "message_literals ts f1 f2 f3 f4 m =
    [(''id'', format_d (ID m), JNum f1),
     (''timestamp'', quote ts, JStr ts),
     (''transport'', string_text (Transport m), JStr (to_valid_utf8 (Transport m))),
     (''direction'', string_text (Direction m), JStr (to_valid_utf8 (Direction m))),
     (''msg_type'', string_text (MsgType m), JStr (to_valid_utf8 (MsgType m))),
     (''method'', string_text (Method m), JStr (to_valid_utf8 (Method m))),
     (''jsonrpc_id'', string_text (JSONRPCID m), JStr (to_valid_utf8 (JSONRPCID m))),
     (''params'', string_text (Params m), JStr (to_valid_utf8 (Params m))),
     (''result'', string_text (Result m), JStr (to_valid_utf8 (Result m))),
     (''error_data'', string_text (ErrorData m), JStr (to_valid_utf8 (ErrorData m))),
     (''latency_ms'', format_d (LatencyMS m), JNum f2),
     (''size_bytes'', format_d (SizeBytes m), JNum f3),
     (''token_estimate'', format_d (TokenEstimate m), JNum f4),
     (''error_code'', string_text (ErrorCode m), JStr (to_valid_utf8 (ErrorCode m))),
     (''raw'', string_text (Raw m), JStr (to_valid_utf8 (Raw m)))]"

lemma message_literals_fields:
  "map (\<lambda>f. (fst f, fst (snd f))) (message_literals ts f1 f2 f3 f4 m) = message_fields (quote ts) m"
  by (simp add: message_literals_def message_fields_def)

lemma message_literals_ok:
  assumes "literal (format_d (ID m)) (JNum f1)" "literal (format_d (LatencyMS m)) (JNum f2)"
    and "literal (format_d (SizeBytes m)) (JNum f3)" "literal (format_d (TokenEstimate m)) (JNum f4)"
    and "list_all plain_byte ts"
  shows "list_all field_literal (message_literals ts f1 f2 f3 f4 m)"
  using assms plain_keys
  by (simp only: message_literals_def field_literal_def fst_conv snd_conv list.pred_inject
      literal_string literal_quote simp_thms)

lemma time_field_quote: "time_field put (quote ts) st =
    (case parse_RFC3339 ts of None \<Rightarrow> (fst st, True) | Some t \<Rightarrow> (put t (fst st), snd st))"
  by (simp add: time_field_def quote_def)

lemma message_field_simps:
  "int64_range i \<Longrightarrow> message_field (''id'', JNum f, format_d i) (c, e) = (c\<lparr>ID := i\<rparr>, e)"
  "parse_RFC3339 ts = Some t \<Longrightarrow> message_field (''timestamp'', v, quote ts) (c, e) = (c\<lparr>Timestamp := t\<rparr>, e)"
  "message_field (''transport'', JStr s, lit) (c, e) = (c\<lparr>Transport := s\<rparr>, e)"
  "message_field (''direction'', JStr s, lit) (c, e) = (c\<lparr>Direction := s\<rparr>, e)"
  "message_field (''msg_type'', JStr s, lit) (c, e) = (c\<lparr>MsgType := s\<rparr>, e)"
  "message_field (''method'', JStr s, lit) (c, e) = (c\<lparr>Method := s\<rparr>, e)"
  "message_field (''jsonrpc_id'', JStr s, lit) (c, e) = (c\<lparr>JSONRPCID := s\<rparr>, e)"
  "message_field (''params'', JStr s, lit) (c, e) = (c\<lparr>Params := s\<rparr>, e)"
  "message_field (''result'', JStr s, lit) (c, e) = (c\<lparr>Result := s\<rparr>, e)"
  "message_field (''error_data'', JStr s, lit) (c, e) = (c\<lparr>ErrorData := s\<rparr>, e)"
  "int64_range i \<Longrightarrow> message_field (''latency_ms'', JNum f, format_d i) (c, e) = (c\<lparr>LatencyMS := i\<rparr>, e)"
  "int64_range i \<Longrightarrow> message_field (''size_bytes'', JNum f, format_d i) (c, e) = (c\<lparr>SizeBytes := i\<rparr>, e)"
  "int64_range i \<Longrightarrow> message_field (''token_estimate'', JNum f, format_d i) (c, e) = (c\<lparr>TokenEstimate := i\<rparr>, e)"
  "message_field (''error_code'', JStr s, lit) (c, e) = (c\<lparr>ErrorCode := s\<rparr>, e)"
  "message_field (''raw'', JStr s, lit) (c, e) = (c\<lparr>Raw := s\<rparr>, e)"
  by (simp_all add: message_field_def fold_name_keys int_field_def string_field_def
      time_field_quote parse_int64_format Let_def del: fold_name.simps)

lemma message_rebuilt:
  "zero_message\<lparr>ID := ID m, Timestamp := Timestamp m, Transport := to_valid_utf8 (Transport m), Direction := to_valid_utf8 (Direction m), MsgType := to_valid_utf8 (MsgType m), Method := to_valid_utf8 (Method m), JSONRPCID := to_valid_utf8 (JSONRPCID m), Params := to_valid_utf8 (Params m), Result := to_valid_utf8 (Result m), ErrorData := to_valid_utf8 (ErrorData m), LatencyMS := LatencyMS m, SizeBytes := SizeBytes m, TokenEstimate := TokenEstimate m, ErrorCode := to_valid_utf8 (ErrorCode m), Raw := to_valid_utf8 (Raw m)\<rparr> = message_utf8 m"
  by (cases m) (simp add: message_utf8_def zero_message_def)

lemma fold_message_literals:
  assumes "message_ints_ok m" "parse_RFC3339 ts = Some (Timestamp m)"
  shows "fold message_field (map (\<lambda>f. (fst f, snd (snd f), fst (snd f))) (message_literals ts f1 f2 f3 f4 m))
      (zero_message, False) = (message_utf8 m, False)"
proof -
  have i: "int64_range (ID m)" "int64_range (LatencyMS m)" "int64_range (SizeBytes m)"
    "int64_range (TokenEstimate m)" using assms(1) by (simp_all add: message_ints_ok_def)
  show ?thesis
    unfolding message_literals_def message_rebuilt [symmetric]
    by (simp only: list.map fold_simps fst_conv snd_conv message_field_simps i assms(2))
qed

text \<open>
  The wire format loses nothing but invalid UTF-8: a message with \<open>int64\<close> numbers and a
  time that RFC 3339 can express marshals to a text that unmarshals to the same message with its
  strings made valid UTF-8.
\<close>

theorem message_codec:
  assumes "message_ints_ok m" "printable_time zone (Timestamp m)"
  shows "\<exists>data. message_text zone m = Some data \<and> decode_message data = Some (message_utf8 m)"
proof -
  let ?ts = "RFC3339Nano zone (Timestamp m)"
  obtain f1 f2 f3 f4 where f: "literal (format_d (ID m)) (JNum f1)"
    "literal (format_d (LatencyMS m)) (JNum f2)" "literal (format_d (SizeBytes m)) (JNum f3)"
    "literal (format_d (TokenEstimate m)) (JNum f4)"
    using literal_int by metis
  let ?fs = "message_literals ?ts f1 f2 f3 f4 m"
  have "list_all field_literal ?fs" using f by (intro message_literals_ok) simp_all
  moreover have "?fs \<noteq> []" by (simp add: message_literals_def)
  ultimately have "decode_message (struct_text (message_fields (quote ?ts) m)) = Some (message_utf8 m)"
    using unmarshal_struct_text [of ?fs message_field zero_message]
      fold_message_literals [OF assms(1) RFC3339Nano_roundtrip [OF assms(2)]]
    by (simp add: decode_message_def message_literals_fields)
  moreover have "message_text zone m = Some (struct_text (message_fields (quote ?ts) m))"
    using assms(2)
    by (simp add: message_text_def time_text_def local_year_def printable_time_def Let_def)
  ultimately show ?thesis by blast
qed

section \<open>Lists of messages\<close>

text \<open>
  A reader of the JSON export: the elements of the array as texts, each decoded as a message;
  \<open>null\<close>, which the nil slice is written as, is no message.
\<close>

function element_texts :: "bytes \<Rightarrow> bytes list option" where
  "element_texts s =
     (let v = skip_ws s in
      case pvalue True max_nesting v of
        None \<Rightarrow> None
      | Some (x, r) \<Rightarrow>
          (case skip_ws r of
             [] \<Rightarrow> None
           | c # r' \<Rightarrow>
               if c = CHR '','' \<and> length r' < length s
               then map_option (Cons (take (length v - length r) v)) (element_texts r')
               else if c = rbrack \<and> skip_ws r' = [] then Some [take (length v - length r) v]
               else None))"
  by pat_completeness auto
termination
  by (relation "measure length") auto

declare element_texts.simps [simp del]

definition read_messages :: "bytes \<Rightarrow> message list option" where
  "read_messages s =
     (case skip_ws s of
        [] \<Rightarrow> None
      | c # t \<Rightarrow>
          if c = lbrack then Option.bind (element_texts t) (all_some \<circ> map decode_message)
          else if unmarshal True s = Some JNull then Some [] else None)"

definition message_ok :: "(time \<Rightarrow> int) \<Rightarrow> message \<Rightarrow> bool" where
  "message_ok zone m \<longleftrightarrow> message_ints_ok m \<and> printable_time zone (Timestamp m)"

text \<open>An element: an object, its text, and the message it decodes to.\<close>

lemma message_text_element:
  assumes "message_ok zone m"
  shows "\<exists>data v. message_text zone m = Some (lbrace # data) \<and>
    decode_message (lbrace # data) = Some (message_utf8 m) \<and>
    (\<forall>r. pvalue True max_nesting (lbrace # data @ r) = Some (v, r))"
proof -
  let ?ts = "RFC3339Nano zone (Timestamp m)"
  have ok: "message_ints_ok m" "printable_time zone (Timestamp m)"
    using assms by (simp_all add: message_ok_def)
  obtain f1 f2 f3 f4 where f: "literal (format_d (ID m)) (JNum f1)"
    "literal (format_d (LatencyMS m)) (JNum f2)" "literal (format_d (SizeBytes m)) (JNum f3)"
    "literal (format_d (TokenEstimate m)) (JNum f4)"
    using literal_int by metis
  let ?fs = "message_literals ?ts f1 f2 f3 f4 m"
  have fs: "list_all field_literal ?fs" using f by (intro message_literals_ok) simp_all
  have ne: "?fs \<noteq> []" by (simp add: message_literals_def)
  let ?data = "commas (map member_text ?fs) @ [rbrace]"
  have struct: "struct_text (message_fields (quote ?ts) m) = lbrace # ?data"
    by (simp add: struct_text_def split_def comp_def flip: message_literals_fields [of ?ts f1 f2 f3 f4])
  have "message_text zone m = Some (lbrace # ?data)"
    using ok(2) unfolding struct [symmetric]
    by (simp add: message_text_def time_text_def local_year_def printable_time_def Let_def)
  moreover have "decode_message (lbrace # ?data) = Some (message_utf8 m)"
    using unmarshal_struct_text [OF ne fs, of message_field zero_message]
      fold_message_literals [OF ok(1) RFC3339Nano_roundtrip [OF ok(2)]] struct
    by (simp add: decode_message_def message_literals_fields)
  moreover have "pvalue True max_nesting (lbrace # ?data @ r) =
      Some (JObj (map (\<lambda>f. (fst f, snd (snd f))) ?fs), r)" for r
    using struct_value [OF ne fs, of max_nesting r] by (simp add: max_nesting_def)
  ultimately show ?thesis by blast
qed

lemma element_texts_read:
  assumes "ms \<noteq> []" "list_all (message_ok zone) ms" "skip_ws w = []"
  shows "\<exists>ts. all_some (map (message_text zone) ms) = Some ts \<and> ts \<noteq> [] \<and>
    element_texts (commas ts @ rbrack # w) = Some ts \<and>
    all_some (map decode_message ts) = Some (map message_utf8 ms)"
  using assms(1,2)
proof (induction ms)
  case (Cons m ms)
  obtain data v where m: "message_text zone m = Some (lbrace # data)"
    "decode_message (lbrace # data) = Some (message_utf8 m)"
    "\<And>r. pvalue True max_nesting (lbrace # data @ r) = Some (v, r)"
    using message_text_element Cons.prems(2) by (metis list.pred_inject(2))
  show ?case
  proof (cases "ms = []")
    case True
    have "element_texts ((lbrace # data) @ rbrack # w) = Some [lbrace # data]"
      by (subst element_texts.simps) (simp add: skip_ws_Cons m(3) assms(3))
    then show ?thesis using True m by (intro exI [of _ "[lbrace # data]"]) simp
  next
    case False
    with Cons obtain ts where ts: "all_some (map (message_text zone) ms) = Some ts" "ts \<noteq> []"
      "element_texts (commas ts @ rbrack # w) = Some ts"
      "all_some (map decode_message ts) = Some (map message_utf8 ms)" by auto
    have "element_texts ((lbrace # data) @ CHR '','' # commas ts @ rbrack # w) = Some ((lbrace # data) # ts)"
      by (subst element_texts.simps) (simp add: skip_ws_Cons m(3) ts(3))
    then show ?thesis using ts m by (intro exI [of _ "(lbrace # data) # ts"]) (simp add: commas_Cons)
  qed
qed simp

text \<open>The text of a list of messages is read back, whatever white space follows it.\<close>

lemma read_messages_text:
  assumes "list_all (message_ok zone) ms" "skip_ws w = []"
  shows "\<exists>s. messages_text zone ms = Some s \<and> read_messages (s @ w) = Some (map message_utf8 ms)"
proof (cases "ms = []")
  case True
  have "unmarshal True (''null'' @ w) = Some JNull"
    using assms(2) by (simp add: unmarshal_def pvalue.simps [of True max_nesting] skip_ws_Cons HasPrefix_def)
  then show ?thesis
    using True by (simp add: messages_text_def read_messages_def skip_ws_Cons)
next
  case False
  then obtain ts where ts: "all_some (map (message_text zone) ms) = Some ts" "ts \<noteq> []"
      "element_texts (commas ts @ rbrack # w) = Some ts"
      "all_some (map decode_message ts) = Some (map message_utf8 ms)"
    using element_texts_read [OF _ assms] by blast
  then show ?thesis
    using False by (simp add: messages_text_def read_messages_def skip_ws_Cons)
qed

section \<open>Examples\<close>

lemma message_codec_witness:
  "\<exists>data. message_text (\<lambda>t. 0) (zero_message\<lparr>Timestamp := 1700000000123456789, Raw := [CHR 0xFF]\<rparr>) = Some data \<and>
     decode_message data = Some (message_utf8 (zero_message\<lparr>Timestamp := 1700000000123456789, Raw := [CHR 0xFF]\<rparr>))"
proof -
  let ?m = "zero_message\<lparr>Timestamp := 1700000000123456789, Raw := [CHR 0xFF]\<rparr>"
  have "message_ints_ok ?m" "printable_time (\<lambda>t. 0) (Timestamp ?m)" by code_simp+
  then show ?thesis by (rule message_codec)
qed

end
