(* ===== verification/Storage_Codec.thy ===== *)
theory Storage_Codec
  imports Storage_Badger Engine_Codec
begin

text \<open>
  The bytes behind the values of the store. The model of the store keeps a marshalled value as
  what was marshalled; here the values get their JSON texts, and decoding a text, be it into a
  \<open>Message\<close> or into a \<open>Stats\<close>, is shown to give what the model of the store says.
\<close>

definition stats_text :: "Stats \<Rightarrow> bytes option" where
  "stats_text s =
     map_option (\<lambda>avg. struct_text
       [(''total_messages'', format_d (TotalMessages s)),
        (''total_requests'', format_d (TotalRequests s)),
        (''total_errors'', format_d (TotalErrors s)),
        (''avg_latency_ms'', avg),
        (''total_bytes'', format_d (TotalBytes s)),
        (''total_tokens'', format_d (TotalTokens s))]) (f64_json (AvgLatencyMS s))"

definition stats_field :: "bytes \<times> json \<times> bytes \<Rightarrow> Stats filling \<Rightarrow> Stats filling" where
  "stats_field x =
     (case x of (key, v, lit) \<Rightarrow>
        let k = fold_name key in
        if k = ''total_messages'' then int_field (\<lambda>x s. s\<lparr>TotalMessages := x\<rparr>) v lit
        else if k = ''total_requests'' then int_field (\<lambda>x s. s\<lparr>TotalRequests := x\<rparr>) v lit
        else if k = ''total_errors'' then int_field (\<lambda>x s. s\<lparr>TotalErrors := x\<rparr>) v lit
        else if k = ''avg_latency_ms'' then float_field (\<lambda>x s. s\<lparr>AvgLatencyMS := x\<rparr>) v
        else if k = ''total_bytes'' then int_field (\<lambda>x s. s\<lparr>TotalBytes := x\<rparr>) v lit
        else if k = ''total_tokens'' then int_field (\<lambda>x s. s\<lparr>TotalTokens := x\<rparr>) v lit
        else (\<lambda>st. st))"

definition decode_stats :: "bytes \<Rightarrow> Stats option" where
  "decode_stats data = unmarshal_struct stats_field zero_stats data"

definition encode_stored :: "(time \<Rightarrow> int) \<Rightarrow> stored \<Rightarrow> bytes option" where
  "encode_stored zone v =
     (case v of
        StoredMsg m \<Rightarrow> message_text zone m
      | StoredStats s \<Rightarrow> stats_text s
      | StoredEmpty \<Rightarrow> Some [])"

section \<open>Decoding a statistics value\<close>

definition stats_ok :: "Stats \<Rightarrow> bool" where
  "stats_ok s \<longleftrightarrow> int64_range (TotalMessages s) \<and> int64_range (TotalRequests s) \<and>
     int64_range (TotalErrors s) \<and> int64_range (TotalBytes s) \<and> int64_range (TotalTokens s) \<and>
     (case AvgLatencyMS s of Fin sg m e \<Rightarrow> f64_wf (AvgLatencyMS s) | _ \<Rightarrow> False)"

definition stored_ok :: "(time \<Rightarrow> int) \<Rightarrow> stored \<Rightarrow> bool" where
  "stored_ok zone v =
     (case v of
        StoredMsg m \<Rightarrow> message_ok zone m \<and> message_valid_utf8 m
      | StoredStats s \<Rightarrow> stats_ok s
      | StoredEmpty \<Rightarrow> True)"

lemma literal_float:
  assumes "f64_wf (Fin sg m e)"
  shows "\<exists>t. f64_json (Fin sg m e) = Some t \<and> literal t (JNum (Fin sg m e))"
proof -
  obtain t where t: "f64_json (Fin sg m e) = Some t" using f64_json_some by blast
  obtain d where d: "\<And>r. number_ends r \<Longrightarrow> scan_number (t @ r) = Some (d, r)" "f64_of_dec d = Fin sg m e"
    using f64_json_reads_back [OF assms t] by blast
  have read: "pvalue True n (t @ r) = Some (JNum (Fin sg m e), r)" if "number_ends r" for n r
    using pvalue_raw_number [OF d(1) [OF that], of n] d(2) by simp
  have "t \<noteq> []" "\<not> is_ws (hd t)"
    using scan_number_hd [OF d(1) [OF number_ends_simps(1)]] by (auto simp: is_ws_def is_digit_def)
  with t read show ?thesis unfolding literal_def by blast
qed

lemma stats_keys:
  "fold_name ''total_messages'' = ''total_messages''" "fold_name ''total_requests'' = ''total_requests''"
  "fold_name ''total_errors'' = ''total_errors''" "fold_name ''avg_latency_ms'' = ''avg_latency_ms''"
  "fold_name ''total_bytes'' = ''total_bytes''" "fold_name ''total_tokens'' = ''total_tokens''"
  by code_simp+

lemma stats_keys_plain:
  "list_all plain_byte ''total_messages''" "list_all plain_byte ''total_requests''"
  "list_all plain_byte ''total_errors''" "list_all plain_byte ''avg_latency_ms''"
  "list_all plain_byte ''total_bytes''" "list_all plain_byte ''total_tokens''"
  by code_simp+

lemma stats_field_simps:
  "int64_range i \<Longrightarrow> stats_field (''total_messages'', JNum f, format_d i) (c, e) = (c\<lparr>TotalMessages := i\<rparr>, e)"
  "int64_range i \<Longrightarrow> stats_field (''total_requests'', JNum f, format_d i) (c, e) = (c\<lparr>TotalRequests := i\<rparr>, e)"
  "int64_range i \<Longrightarrow> stats_field (''total_errors'', JNum f, format_d i) (c, e) = (c\<lparr>TotalErrors := i\<rparr>, e)"
  "stats_field (''avg_latency_ms'', JNum (Fin sg m x), lit) (c, e) = (c\<lparr>AvgLatencyMS := Fin sg m x\<rparr>, e)"
  "int64_range i \<Longrightarrow> stats_field (''total_bytes'', JNum f, format_d i) (c, e) = (c\<lparr>TotalBytes := i\<rparr>, e)"
  "int64_range i \<Longrightarrow> stats_field (''total_tokens'', JNum f, format_d i) (c, e) = (c\<lparr>TotalTokens := i\<rparr>, e)"
  by (simp_all add: stats_field_def stats_keys int_field_def float_field_def parse_int64_format Let_def
      del: fold_name.simps)

text \<open>A member of the one struct is no field of the other.\<close>

lemma foreign_fields:
  "x \<in> set (message_literals ts f1 f2 f3 f4 m) \<Longrightarrow> stats_field (fst x, v, lit) st = st"
  "k \<in> {''total_messages'', ''total_requests'', ''total_errors'', ''avg_latency_ms'', ''total_bytes'',
      ''total_tokens''} \<Longrightarrow> message_field (k, v, lit) mt = mt"
proof -
  show "x \<in> set (message_literals ts f1 f2 f3 f4 m) \<Longrightarrow> stats_field (fst x, v, lit) st = st"
    by (simp only: message_literals_def set_simps insert_iff empty_iff, elim disjE)
      (simp_all add: stats_field_def fold_name_keys Let_def del: fold_name.simps)
  show "k \<in> {''total_messages'', ''total_requests'', ''total_errors'', ''avg_latency_ms'', ''total_bytes'',
      ''total_tokens''} \<Longrightarrow> message_field (k, v, lit) mt = mt"
    by (simp only: insert_iff empty_iff, elim disjE)
      (simp_all add: message_field_def stats_keys Let_def del: fold_name.simps)
qed

lemma fold_foreign:
  "(\<And>x. x \<in> set xs \<Longrightarrow> f x st = st) \<Longrightarrow> fold f xs st = st"
  by (induction xs) simp_all

definition stats_literals ::
  "bytes \<Rightarrow> float64 \<Rightarrow> float64 \<Rightarrow> float64 \<Rightarrow> float64 \<Rightarrow> float64 \<Rightarrow> Stats \<Rightarrow> field_text list"
where
  "stats_literals avg f1 f2 f3 f4 f5 s =
    [(''total_messages'', format_d (TotalMessages s), JNum f1),
     (''total_requests'', format_d (TotalRequests s), JNum f2),
     (''total_errors'', format_d (TotalErrors s), JNum f3),
     (''avg_latency_ms'', avg, JNum (AvgLatencyMS s)),
     (''total_bytes'', format_d (TotalBytes s), JNum f4),
     (''total_tokens'', format_d (TotalTokens s), JNum f5)]"

lemma stats_text_literals:
  assumes "stats_ok s"
  shows "\<exists>avg f1 f2 f3 f4 f5.
    stats_text s = Some (struct_text (map (\<lambda>f. (fst f, fst (snd f))) (stats_literals avg f1 f2 f3 f4 f5 s))) \<and>
    list_all field_literal (stats_literals avg f1 f2 f3 f4 f5 s) \<and>
    fold stats_field (map (\<lambda>f. (fst f, snd (snd f), fst (snd f))) (stats_literals avg f1 f2 f3 f4 f5 s))
      (zero_stats, False) = (s, False)"
proof -
  obtain f1 f2 f3 f4 f5 where f: "literal (format_d (TotalMessages s)) (JNum f1)"
    "literal (format_d (TotalRequests s)) (JNum f2)" "literal (format_d (TotalErrors s)) (JNum f3)"
    "literal (format_d (TotalBytes s)) (JNum f4)" "literal (format_d (TotalTokens s)) (JNum f5)"
    using literal_int by metis
  obtain sg m e where av: "AvgLatencyMS s = Fin sg m e" "f64_wf (Fin sg m e)"
    using assms by (auto simp: stats_ok_def split: float64.splits)
  obtain avg where avg: "f64_json (Fin sg m e) = Some avg" "literal avg (JNum (Fin sg m e))"
    using literal_float [OF av(2)] by blast
  have i: "int64_range (TotalMessages s)" "int64_range (TotalRequests s)" "int64_range (TotalErrors s)"
    "int64_range (TotalBytes s)" "int64_range (TotalTokens s)"
    using assms by (simp_all add: stats_ok_def)
  let ?fs = "stats_literals avg f1 f2 f3 f4 f5 s"
  have "stats_text s = Some (struct_text (map (\<lambda>f. (fst f, fst (snd f))) ?fs))"
    using av avg by (simp add: stats_text_def stats_literals_def)
  moreover have "list_all field_literal ?fs"
    using f avg stats_keys_plain unfolding stats_literals_def av(1)
    by (simp only: field_literal_def fst_conv snd_conv list.pred_inject simp_thms)
  moreover have "fold stats_field (map (\<lambda>f. (fst f, snd (snd f), fst (snd f))) ?fs) (zero_stats, False) = (s, False)"
    unfolding stats_literals_def av(1)
    by (simp only: list.map fold_simps fst_conv snd_conv stats_field_simps i)
      (use av(1) in \<open>cases s; simp add: zero_stats_def\<close>)
  ultimately show ?thesis by blast
qed

text \<open>
  C17. The bytes in the database are what the model of the store says they are: for every value
  the store writes, its JSON text decodes into a \<open>Message\<close> and into a \<open>Stats\<close> exactly as the
  model decodes the value, the value of the other kind included, which decodes to the zero value.
\<close>

theorem stored_bytes_refine:
  assumes "stored_ok zone v"
  shows "\<exists>data. encode_stored zone v = Some data \<and>
    decode_message data = unmarshal_message v \<and> decode_stats data = unmarshal_stats v"
proof (cases v)
  case (StoredMsg m)
  let ?ts = "RFC3339Nano zone (Timestamp m)"
  have m: "message_ints_ok m" "printable_time zone (Timestamp m)" "message_utf8 m = m"
    using assms by (simp_all add: stored_ok_def StoredMsg message_ok_def message_utf8_id)
  obtain f1 f2 f3 f4 where f: "literal (format_d (ID m)) (JNum f1)"
    "literal (format_d (LatencyMS m)) (JNum f2)" "literal (format_d (SizeBytes m)) (JNum f3)"
    "literal (format_d (TokenEstimate m)) (JNum f4)"
    using literal_int by metis
  let ?fs = "message_literals ?ts f1 f2 f3 f4 m"
  have fs: "list_all field_literal ?fs" using f by (intro message_literals_ok) simp_all
  have ne: "?fs \<noteq> []" by (simp add: message_literals_def)
  let ?data = "struct_text (message_fields (quote ?ts) m)"
  have "fold stats_field (map (\<lambda>f. (fst f, snd (snd f), fst (snd f))) ?fs) (zero_stats, False) =
      (zero_stats, False)"
    by (rule fold_foreign) (clarsimp, drule foreign_fields(1), simp)
  then have "decode_stats ?data = Some zero_stats"
    using unmarshal_struct_text [OF ne fs, of stats_field zero_stats]
    by (simp add: decode_stats_def message_literals_fields)
  moreover have "decode_message ?data = Some m"
    using unmarshal_struct_text [OF ne fs, of message_field zero_message] m(3)
      fold_message_literals [OF m(1) RFC3339Nano_roundtrip [OF m(2)]]
    by (simp add: decode_message_def message_literals_fields)
  moreover have "message_text zone m = Some ?data"
    using m(2) by (simp add: message_text_def time_text_def local_year_def printable_time_def Let_def)
  ultimately show ?thesis
    by (simp add: StoredMsg encode_stored_def unmarshal_message_def unmarshal_stats_def)
next
  case (StoredStats s)
  then have "stats_ok s" using assms by (simp add: stored_ok_def)
  from stats_text_literals [OF this] obtain avg f1 f2 f3 f4 f5 where
    t: "stats_text s = Some (struct_text (map (\<lambda>f. (fst f, fst (snd f))) (stats_literals avg f1 f2 f3 f4 f5 s)))"
    and fs: "list_all field_literal (stats_literals avg f1 f2 f3 f4 f5 s)"
    and r: "fold stats_field (map (\<lambda>f. (fst f, snd (snd f), fst (snd f))) (stats_literals avg f1 f2 f3 f4 f5 s))
      (zero_stats, False) = (s, False)" by blast
  let ?fs = "stats_literals avg f1 f2 f3 f4 f5 s"
  have ne: "?fs \<noteq> []" by (simp add: stats_literals_def)
  have "fold message_field (map (\<lambda>f. (fst f, snd (snd f), fst (snd f))) ?fs) (zero_message, False) =
      (zero_message, False)"
    by (rule fold_foreign) (auto simp: stats_literals_def foreign_fields(2))
  then show ?thesis
    using t r unmarshal_struct_text [OF ne fs, of stats_field zero_stats]
      unmarshal_struct_text [OF ne fs, of message_field zero_message]
    by (simp add: StoredStats encode_stored_def unmarshal_message_def unmarshal_stats_def
        decode_message_def decode_stats_def)
next
  case StoredEmpty
  have "unmarshal True [] = None" by (simp add: unmarshal_def pvalue.simps skip_ws_def)
  then show ?thesis
    by (simp add: StoredEmpty encode_stored_def unmarshal_message_def unmarshal_stats_def
        decode_message_def decode_stats_def unmarshal_struct_def)
qed

section \<open>Examples\<close>

definition example_stats :: Stats where
  "example_stats = zero_stats\<lparr>TotalMessages := 3, AvgLatencyMS := f64_of_int 12\<rparr>"

lemma stored_bytes_refine_witness:
  "\<exists>data. stats_text example_stats = Some data \<and> decode_stats data = Some example_stats \<and>
     decode_message data = Some zero_message"
proof -
  have "stored_ok (\<lambda>t. 0) (StoredStats example_stats)" by code_simp
  from stored_bytes_refine [OF this] show ?thesis
    by (auto simp: encode_stored_def unmarshal_message_def unmarshal_stats_def)
qed

end
