(* ===== verification/Server_HTTP.thy ===== *)
theory Server_HTTP
  imports Go_HTTP Go_CSV Storage_Codec Storage_Properties
begin

text \<open>
  \<open>internal/server/server.go\<close>: the dashboard server. A request is what its handlers look at:
  method, escaped path and \<open>Authorization\<close> header. What lies outside the repository is an
  environment: the embedded file server, the Prometheus handler, the WebSocket handshake, the
  redirect to a clean path, the texts of database errors, the clock and the local time zone,
  and the number of goroutines.
\<close>

section \<open>Requests and responses\<close>

record request =
  rq_method :: bytes
  rq_path :: bytes
  rq_authorization :: bytes

record response =
  rs_status :: nat
  rs_header :: "(bytes \<times> bytes) list"
  rs_body :: bytes

record environment =
  env_now :: time
  env_zone :: "time \<Rightarrow> int"
  env_goroutines :: int
  env_files :: "request \<Rightarrow> response"
  env_metrics :: response
  env_accepts :: "request \<Rightarrow> bool"
  env_refusal :: response
  env_redirect :: "request \<Rightarrow> bytes \<Rightarrow> response"
  env_error :: bytes

record Server =
  authUsername :: bytes
  authPassword :: bytes

definition NewServer :: Server where
  "NewServer = \<lparr>authUsername = [], authPassword = []\<rparr>"

definition SetAuth :: "bytes \<Rightarrow> bytes \<Rightarrow> Server \<Rightarrow> Server" where
  "SetAuth username password s = s\<lparr>authUsername := username, authPassword := password\<rparr>"

text \<open>
  A handler answers, may change the store, and may hand the connection over to the hub as a
  WebSocket.
\<close>

type_synonym 'db outcome = "response \<times> 'db store \<times> bool"

type_synonym 'db http_handler = "request \<Rightarrow> 'db store \<Rightarrow> 'db outcome"

definition json_response :: "bytes option \<Rightarrow> response" where
  "json_response body =
     \<lparr>rs_status = 200, rs_header = [(''Content-Type'', ''application/json'')],
      rs_body = (case body of None \<Rightarrow> [] | Some b \<Rightarrow> b @ [nl])\<rparr>"

text \<open>\<open>http.Error\<close>.\<close>

definition http_error :: "bytes \<Rightarrow> nat \<Rightarrow> response" where
  "http_error msg code =
     \<lparr>rs_status = code,
      rs_header = [(''Content-Type'', ''text/plain; charset=utf-8''),
                   (''X-Content-Type-Options'', ''nosniff'')],
      rs_body = msg @ [nl]\<rparr>"

section \<open>Authentication\<close>

definition unauthorized :: response where
  "unauthorized =
     \<lparr>rs_status = 401,
      rs_header = [(''WWW-Authenticate'', ''Basic realm='' @ quote ''MCPWatch Dashboard'')],
      rs_body = ''Unauthorized'' @ [nl]\<rparr>"

definition authorized :: "Server \<Rightarrow> request \<Rightarrow> bool" where
  "authorized s r =
     (if authUsername s = [] \<or> authPassword s = [] then True
      else (case BasicAuth (rq_authorization r) of
              None \<Rightarrow> False
            | Some (user, pass) \<Rightarrow> user = authUsername s \<and> pass = authPassword s))"

definition basicAuth :: "Server \<Rightarrow> 'db http_handler \<Rightarrow> 'db http_handler" where
  "basicAuth s handle r st =
     (if authorized s r then handle r st else (unauthorized, st, False))"

text \<open>The same for an \<open>http.Handler\<close>.\<close>

definition basicAuthHandler :: "Server \<Rightarrow> 'db http_handler \<Rightarrow> 'db http_handler" where
  "basicAuthHandler s handle r st =
     (if authUsername s = [] \<or> authPassword s = [] then handle r st
      else (case BasicAuth (rq_authorization r) of
              None \<Rightarrow> (unauthorized, st, False)
            | Some (user, pass) \<Rightarrow>
                if user \<noteq> authUsername s \<or> pass \<noteq> authPassword s then (unauthorized, st, False)
                else handle r st))"

lemma basicAuthHandler_eq: "basicAuthHandler s = basicAuth s"
  by (intro ext) (auto simp: basicAuthHandler_def basicAuth_def authorized_def split: option.split)

section \<open>Handlers\<close>

definition handleHealth :: "environment \<Rightarrow> 'db http_handler" where
  "handleHealth env r st =
     (json_response (Some (struct_text
        [(''active_goroutines'', format_d (env_goroutines env)),
         (''status'', string_text ''ok''),
         (''timestamp'', string_text (RFC3339 (env_zone env) (env_now env)))])), st, False)"

text \<open>A request that the handshake accepts becomes a WebSocket of the hub.\<close>

definition handleWebSocket :: "environment \<Rightarrow> 'db http_handler" where
  "handleWebSocket env r st =
     (if env_accepts env r then (\<lparr>rs_status = 101, rs_header = [], rs_body = []\<rparr>, st, True)
      else (env_refusal env, st, False))"

definition handleInteractions :: "environment \<Rightarrow> 'db badger \<Rightarrow> 'db http_handler" where
  "handleInteractions env B r st =
     (json_response (messages_text (env_zone env) (QueryRecent B (env_now env) 100 st)), st, False)"

definition handleStats :: "environment \<Rightarrow> 'db badger \<Rightarrow> 'db http_handler" where
  "handleStats env B r st =
     (let (stats, failed) = GetStats B (env_now env) st in
      (if failed then http_error (env_error env) 500 else json_response (stats_text stats), st, False))"

definition attachment :: "bytes \<Rightarrow> bytes" where
  "attachment name = ''attachment; filename='' @ quote name"

definition handleExportJSON :: "environment \<Rightarrow> 'db badger \<Rightarrow> 'db http_handler" where
  "handleExportJSON env B r st =
     ((json_response (messages_text (env_zone env) (QueryAll B (env_now env) st)))
        \<lparr>rs_header := [(''Content-Type'', ''application/json''),
                       (''Content-Disposition'', attachment ''mcpwatch_export.json'')]\<rparr>, st, False)"

definition csv_header :: "bytes list" where
  "csv_header = [''id'', ''timestamp'', ''transport'', ''direction'', ''msg_type'', ''method'',
     ''jsonrpc_id'', ''latency_ms'', ''size_bytes'', ''token_estimate'', ''error_code'', ''params'',
     ''result'', ''error_data'']"

definition csv_row :: "(time \<Rightarrow> int) \<Rightarrow> message \<Rightarrow> bytes list" where
  "csv_row zone msg =
     [format_d (ID msg), RFC3339Nano zone (Timestamp msg), Transport msg, Direction msg,
      MsgType msg, Method msg, JSONRPCID msg, format_d (LatencyMS msg), format_d (SizeBytes msg),
      format_d (TokenEstimate msg), ErrorCode msg, Params msg, Result msg, ErrorData msg]"

definition handleExportCSV :: "environment \<Rightarrow> 'db badger \<Rightarrow> 'db http_handler" where
  "handleExportCSV env B r st =
     (\<lparr>rs_status = 200,
       rs_header = [(''Content-Type'', ''text/csv''),
                    (''Content-Disposition'', attachment ''mcpwatch_export.csv'')],
       rs_body = csv_record csv_header @
         concat (map (csv_record \<circ> csv_row (env_zone env)) (QueryAll B (env_now env) st))\<rparr>, st, False)"

definition handleClear :: "environment \<Rightarrow> 'db badger \<Rightarrow> 'db http_handler" where
  "handleClear env B r st =
     (if rq_method r \<noteq> ''POST'' then (http_error ''Method not allowed'' 405, st, False)
      else (let (ok, st') = Clear B (env_now env) st in
        if ok
        then (\<lparr>rs_status = 200, rs_header = [],
               rs_body = [lbrace] @ quote ''status'' @ '':'' @ quote ''ok'' @ [rbrace]\<rparr>, st', False)
        else (http_error (env_error env) 500, st', False)))"

section \<open>The multiplexer\<close>

definition mux_patterns :: "bytes list" where
  "mux_patterns = [''/health'', ''/ws'', ''/api/interactions'', ''/api/stats'', ''/api/export/json'',
     ''/api/export/csv'', ''/api/clear'', ''/metrics'', ''/'']"

definition mux_handler ::
  "environment \<Rightarrow> 'db badger \<Rightarrow> Server \<Rightarrow> bytes \<Rightarrow> 'db http_handler"
where
  "mux_handler env B s pat =
     (if pat = ''/health'' then handleHealth env
      else if pat = ''/ws'' then basicAuth s (handleWebSocket env)
      else if pat = ''/api/interactions'' then basicAuth s (handleInteractions env B)
      else if pat = ''/api/stats'' then basicAuth s (handleStats env B)
      else if pat = ''/api/export/json'' then basicAuth s (handleExportJSON env B)
      else if pat = ''/api/export/csv'' then basicAuth s (handleExportCSV env B)
      else if pat = ''/api/clear'' then basicAuth s (handleClear env B)
      else if pat = ''/metrics'' then (\<lambda>r st. (env_metrics env, st, False))
      else basicAuthHandler s (\<lambda>r st. (env_files env r, st, False)))"

text \<open>The server on one request: the multiplexer of \<open>setupMux\<close>, then the chosen handler.\<close>

definition serve ::
  "environment \<Rightarrow> 'db badger \<Rightarrow> Server \<Rightarrow> 'db http_handler"
where
  "serve env B s r st =
     (case mux_route mux_patterns (rq_method r) (rq_path r) of
        Redirect path \<Rightarrow> (env_redirect env r path, st, False)
      | Pattern pat \<Rightarrow> mux_handler env B s pat r st)"

section \<open>Properties\<close>

lemmas handler_defs = handleHealth_def handleWebSocket_def handleInteractions_def handleStats_def
  handleExportJSON_def handleExportCSV_def handleClear_def

text \<open>Every handler but \<open>handleClear\<close> leaves the store alone.\<close>

lemma handlers_read_only [frame_simps]:
  "fst (snd (handleHealth env r st)) = st" "fst (snd (handleWebSocket env r st)) = st"
  "fst (snd (handleInteractions env B r st)) = st" "fst (snd (handleStats env B r st)) = st"
  "fst (snd (handleExportJSON env B r st)) = st" "fst (snd (handleExportCSV env B r st)) = st"
  by (simp_all add: handler_defs split_def Let_def)

lemma basicAuth_cases:
  "basicAuth s h r st = (if authorized s r then h r st else (unauthorized, st, False))"
  "basicAuthHandler s h r st = (if authorized s r then h r st else (unauthorized, st, False))"
  by (simp_all add: basicAuthHandler_eq basicAuth_def)

text \<open>The multiplexer for a request without credentials.\<close>

lemma mux_handler_unauthorized:
  assumes "\<not> authorized s r"
  shows "mux_handler env B s pat r st =
    (if pat = ''/health'' then handleHealth env r st
     else if pat = ''/metrics'' then (env_metrics env, st, False)
     else (unauthorized, st, False))"
  using assms by (simp add: mux_handler_def basicAuth_cases)

lemma serve_unauthorized:
  assumes "\<not> authorized s r"
  shows "\<exists>resp. (\<forall>B st. serve env B s r st = (resp, st, False)) \<and>
    (resp = unauthorized \<or> resp = env_metrics env \<or> (\<exists>path. resp = env_redirect env r path) \<or>
     (\<exists>b. resp = json_response (Some b)))"
proof (cases "mux_route mux_patterns (rq_method r) (rq_path r)")
  case (Redirect path)
  then show ?thesis by (auto simp: serve_def)
next
  case (Pattern pat)
  then show ?thesis
    using assms by (auto simp: serve_def mux_handler_unauthorized handleHealth_def)
qed

text \<open>A request leaves the store as it is or clears it.\<close>

lemma serve_store:
  "fst (snd (serve env B s r st)) = st \<or> fst (snd (serve env B s r st)) = snd (Clear B (env_now env) st)"
  by (auto simp: serve_def mux_handler_def basicAuth_cases handlers_read_only handleClear_def split_def Let_def
      split: route.split)

text \<open>The requests that do clear the store, and that no other touches it.\<close>

definition clears :: "Server \<Rightarrow> request \<Rightarrow> bool" where
  "clears s r \<longleftrightarrow> authorized s r \<and> rq_method r = ''POST'' \<and>
     mux_route mux_patterns (rq_method r) (rq_path r) = Pattern ''/api/clear''"

lemma serve_keeps: "\<not> clears s r \<Longrightarrow> fst (snd (serve env B s r st)) = st"
  by (auto simp: clears_def serve_def mux_handler_def basicAuth_cases handlers_read_only handleClear_def
      split_def Let_def split: route.split)

lemma serve_clears: "clears s r \<Longrightarrow> fst (snd (serve env B s r st)) = snd (Clear B (env_now env) st)"
  by (auto simp: clears_def serve_def mux_handler_def basicAuth_cases handleClear_def split_def Let_def)

text \<open>
  C8. Without the credentials a request learns and changes nothing: its answer depends neither
  on the store nor on the database, the store stays as it is, and no WebSocket is opened. The
  answer is that of \<open>/health\<close> or \<open>/metrics\<close>, a redirect to a clean path, or 401.
\<close>

theorem unauthenticated_learns_nothing:
  assumes "\<not> authorized s r"
  shows "\<exists>resp. (\<forall>B st. serve env B s r st = (resp, st, False)) \<and>
    (resp = unauthorized \<or> resp = env_metrics env \<or> (\<exists>path. resp = env_redirect env r path) \<or>
     (\<exists>b. resp = json_response (Some b)))"
  using assms by (rule serve_unauthorized)

text \<open>
  C22. Only an authenticated POST to \<open>/api/clear\<close> changes the store, and what it does to it is
  \<open>Clear\<close>.
\<close>

theorem only_clear_changes_store:
  assumes "fst (snd (serve env B s r st)) \<noteq> st"
  shows "authorized s r \<and> rq_method r = ''POST'' \<and>
    mux_route mux_patterns (rq_method r) (rq_path r) = Pattern ''/api/clear'' \<and>
    fst (snd (serve env B s r st)) = snd (Clear B (env_now env) st)"
proof -
  have "clears s r" using assms serve_keeps by blast
  from this serve_clears [OF this] show ?thesis unfolding clears_def by blast
qed

text \<open>
  The configured credentials open the dashboard: when both are set and the user name has no
  colon, the header a client computes for a user name and a password is accepted exactly if
  they are the configured ones.
\<close>

theorem credentials_accepted:
  assumes "s = SetAuth user pass NewServer" "user \<noteq> []" "pass \<noteq> []"
    and "CHR '':'' \<notin> set u"
  shows "authorized s (r\<lparr>rq_authorization := basic_header u p\<rparr>) \<longleftrightarrow> u = user \<and> p = pass"
  using assms by (simp add: authorized_def SetAuth_def NewServer_def BasicAuth_header)

text \<open>
  A user name with a colon locks everybody out: no header whatever is accepted, since a
  decoded user name ends at the first colon.
\<close>

theorem colon_locks_out:
  assumes "s = SetAuth user pass NewServer" "CHR '':'' \<in> set user" "pass \<noteq> []"
  shows "\<not> authorized s r"
proof -
  have "u \<noteq> user" if "BasicAuth auth = Some (u, p)" for auth u p
    using that assms(2) by (auto simp: BasicAuth_def bind_eq_Some_conv split: if_splits dest: cut_at_no_sep)
  moreover have "user \<noteq> []" using assms(2) by auto
  ultimately show ?thesis
    using assms by (auto simp: authorized_def SetAuth_def NewServer_def split: option.splits)
qed

text \<open>What the multiplexer makes of the paths of the dashboard.\<close>

lemma routes:
  "mux_route mux_patterns m ''/api/export/csv'' = Pattern ''/api/export/csv''"
  "mux_route mux_patterns m ''/api/clear'' = Pattern ''/api/clear''"
  "mux_route mux_patterns m ''/api/interactions'' = Pattern ''/api/interactions''"
  "mux_route mux_patterns m ''/api/export/json'' = Pattern ''/api/export/json''"
proof -
  have "list_all (\<lambda>p. cleanPath p = p \<and> mux_match mux_patterns p = p)
      [''/api/export/csv'', ''/api/clear'', ''/api/interactions'', ''/api/export/json'']"
    by code_simp
  then show "mux_route mux_patterns m ''/api/export/csv'' = Pattern ''/api/export/csv''"
    "mux_route mux_patterns m ''/api/clear'' = Pattern ''/api/clear''"
    "mux_route mux_patterns m ''/api/interactions'' = Pattern ''/api/interactions''"
    "mux_route mux_patterns m ''/api/export/json'' = Pattern ''/api/export/json''"
    by (simp_all add: mux_route_def)
qed

text \<open>
  C29. The CSV export reads back: whatever bytes the messages hold, commas, quotes and line
  breaks included, reading the exported text gives the header and one row per stored message
  with its fields unchanged.
\<close>

theorem csv_export_roundtrip:
  assumes "authorized s r" "rq_path r = ''/api/export/csv''"
  shows "read_csv (rs_body (fst (serve env B s r st))) =
    Some (csv_header # map (csv_row (env_zone env)) (QueryAll B (env_now env) st))"
proof -
  let ?rows = "csv_header # map (csv_row (env_zone env)) (QueryAll B (env_now env) st)"
  have "rs_body (fst (serve env B s r st)) = concat (map csv_record ?rows)"
    using assms by (simp add: serve_def routes mux_handler_def basicAuth_cases handleExportCSV_def)
  moreover have "\<forall>fs\<in>set ?rows. fs \<noteq> []"
    by (simp add: csv_header_def csv_row_def)
  ultimately show ?thesis by (simp only: read_csv_text)
qed

lemma json_export_reads:
  assumes "authorized s r" "ms = QueryAll B (env_now env) st \<and> rq_path r = ''/api/export/json'' \<or>
      ms = QueryRecent B (env_now env) 100 st \<and> rq_path r = ''/api/interactions''"
    and "list_all (message_ok (env_zone env)) ms"
  shows "read_messages (rs_body (fst (serve env B s r st))) = Some (map message_utf8 ms)"
proof -
  have "skip_ws [nl] = []" by (simp add: skip_ws_def is_ws_def)
  from read_messages_text [OF assms(3) this] obtain t where
    t: "messages_text (env_zone env) ms = Some t" "read_messages (t @ [nl]) = Some (map message_utf8 ms)"
    by blast
  have "rs_body (fst (serve env B s r st)) = t @ [nl]"
    using assms(1,2) t(1)
    by (auto simp: serve_def routes mux_handler_def basicAuth_cases handleExportJSON_def
        handleInteractions_def json_response_def)
  with t(2) show ?thesis by simp
qed

text \<open>
  C30. The JSON export and the interactions read back: when the messages of the store have
  numbers and times that JSON can express, decoding the answer gives exactly the messages of
  the query, with their strings made valid UTF-8; no message is lost, added or reordered.
\<close>

theorem json_export_roundtrip:
  assumes "authorized s r" "ms = QueryAll B (env_now env) st \<and> rq_path r = ''/api/export/json'' \<or>
      ms = QueryRecent B (env_now env) 100 st \<and> rq_path r = ''/api/interactions''"
    and "list_all (message_ok (env_zone env)) ms"
  shows "read_messages (rs_body (fst (serve env B s r st))) = Some (map message_utf8 ms)"
  using assms by (rule json_export_reads)

text \<open>
  The dashboard shows the newest: \<open>/api/interactions\<close> answers with the JSON text of the
  last 100 messages of the store, newest first, and with \<open>null\<close> when there are none.
\<close>

theorem interactions_show_latest:
  assumes "badger_db B" "db_inv B (st_db st)" "authorized s r" "rq_path r = ''/api/interactions''"
  shows "fst (serve env B s r st) =
    json_response (messages_text (env_zone env) (take 100 (rev (QueryAll B (env_now env) st))))"
  using assms badger_db.QueryRecent_take [OF assms(1,2), of "env_now env" 100]
  by (simp add: serve_def routes mux_handler_def basicAuth_cases handleInteractions_def)

text \<open>
  Clearing clears what the dashboard shows: after a POST to \<open>/api/clear\<close> that was answered
  with 200, the interactions and the JSON export are \<open>null\<close> and the CSV export is its header.
\<close>

theorem cleared_dashboard_empty:
  assumes "badger_db B" "authorized s r" "rq_path r = ''/api/clear''"
    and "serve env B s r st = (resp, st', ws)" "rs_status resp = 200"
  shows "QueryAll B t st' = [] \<and>
    (\<forall>r env'. authorized s r \<and> rq_path r = ''/api/export/csv'' \<longrightarrow>
       rs_body (fst (serve env' B s r st')) = csv_record csv_header) \<and>
    (\<forall>r env'. authorized s r \<and> rq_path r = ''/api/export/json'' \<longrightarrow>
       rs_body (fst (serve env' B s r st')) = ''null'' @ [nl])"
proof -
  have "Clear B (env_now env) st = (True, st')"
    using assms(2-5)
    by (auto simp: serve_def routes mux_handler_def basicAuth_cases handleClear_def http_error_def
        split: if_splits prod.splits)
  then have empty: "QueryAll B t st' = []" for t using Clear_effect [OF assms(1)] by blast
  then show ?thesis
    by (auto simp: serve_def routes mux_handler_def basicAuth_cases handleExportCSV_def
        handleExportJSON_def json_response_def messages_text_def)
qed

section \<open>Examples\<close>

definition example_env :: environment where
  "example_env = \<lparr>env_now = 1700000000000000000, env_zone = (\<lambda>t. 0), env_goroutines = 12,
     env_files = (\<lambda>r. json_response None), env_metrics = json_response None,
     env_accepts = (\<lambda>r. True), env_refusal = json_response None,
     env_redirect = (\<lambda>r p. json_response None), env_error = ''closed''\<rparr>"

definition example_server :: Server where
  "example_server = SetAuth ''admin'' ''pw'' NewServer"

definition signed_in :: "bytes \<Rightarrow> bytes \<Rightarrow> request" where
  "signed_in meth path = \<lparr>rq_method = meth, rq_path = path, rq_authorization = basic_header ''admin'' ''pw''\<rparr>"

definition anonymous :: request where
  "anonymous = \<lparr>rq_method = ''POST'', rq_path = ''/api/clear'', rq_authorization = []\<rparr>"

definition small_store :: "memory store" where
  "small_store = make_store [] 5"

lemma signed_in_simps [simp]:
  "authorized example_server (signed_in m p)" "rq_path (signed_in m p) = p" "rq_method (signed_in m p) = m"
  by (simp_all add: authorized_def example_server_def SetAuth_def NewServer_def signed_in_def
      BasicAuth_header)

lemma unauthenticated_learns_nothing_witness:
  "\<exists>resp. \<forall>st. serve example_env memory_badger example_server anonymous st = (resp, st, False)"
proof -
  have "\<not> authorized example_server anonymous"
    by (simp add: authorized_def example_server_def SetAuth_def NewServer_def anonymous_def BasicAuth_def)
  from unauthenticated_learns_nothing [OF this] show ?thesis by blast
qed

lemma example_clear:
  "fst (snd (serve example_env memory_badger example_server (signed_in ''POST'' ''/api/clear'') small_store)) =
     snd (Clear memory_badger (env_now example_env) small_store)"
  "rs_status (fst (serve example_env memory_badger example_server (signed_in ''POST'' ''/api/clear'') small_store)) = 200"
  by (simp_all add: serve_def routes mux_handler_def basicAuth_cases handleClear_def Clear_def Let_def)

lemma only_clear_changes_store_witness:
  "mux_route mux_patterns ''POST'' ''/api/clear'' = Pattern ''/api/clear'' \<and>
   fst (snd (serve example_env memory_badger example_server (signed_in ''POST'' ''/api/clear'') small_store)) =
     snd (Clear memory_badger (env_now example_env) small_store)"
proof -
  have "st_idCounter (snd (Clear memory_badger (env_now example_env) small_store)) = 0"
    "st_idCounter small_store = 5"
    by (simp_all add: Clear_def Let_def small_store_def make_store_def)
  then have "snd (Clear memory_badger (env_now example_env) small_store) \<noteq> small_store" by auto
  then have "fst (snd (serve example_env memory_badger example_server
      (signed_in ''POST'' ''/api/clear'') small_store)) \<noteq> small_store"
    by (simp only: example_clear not_False_eq_True)
  from only_clear_changes_store [OF this] example_clear(1) show ?thesis
    by (simp only: signed_in_simps simp_thms)
qed

lemma credentials_accepted_witness:
  "authorized example_server (anonymous\<lparr>rq_authorization := basic_header ''admin'' ''pw''\<rparr>)"
  using credentials_accepted [OF example_server_def, where u = "''admin''" and p = "''pw''"] by simp

lemma colon_locks_out_witness:
  "\<not> authorized (SetAuth ''a:b'' ''pw'' NewServer) (signed_in ''GET'' ''/'')"
  using colon_locks_out [OF refl, of "''a:b''" "''pw''"] by simp

lemma csv_export_roundtrip_witness:
  "read_csv (rs_body (fst (serve example_env memory_badger example_server
     (signed_in ''GET'' ''/api/export/csv'') small_store))) = Some [csv_header]"
proof -
  have "QueryAll memory_badger (env_now example_env) small_store = []"
    by (simp add: QueryAll_def memory_scan_def memory_index_def small_store_def make_store_def)
  then show ?thesis
    using csv_export_roundtrip [of example_server "signed_in ''GET'' ''/api/export/csv''" example_env
        memory_badger small_store] by simp
qed

definition stored_example :: message where
  "stored_example = zero_message\<lparr>Timestamp := 1700000000123456789, Transport := ''stdio'',
     Direction := ''IN'', MsgType := MsgTypeRequest, JSONRPCID := ''7'', Raw := ''{}''\<rparr>"

definition filled_store :: "memory store" where
  "filled_store = snd (flush memory_badger 1699999999000000000 [stored_example] small_store)"

lemma filled_store_query: "QueryAll memory_badger 1700000000000000000 filled_store = [stored_example\<lparr>ID := 6\<rparr>]"
  by code_simp

lemma json_export_roundtrip_witness:
  "read_messages (rs_body (fst (serve example_env memory_badger example_server
     (signed_in ''GET'' ''/api/export/json'') filled_store))) = Some [message_utf8 (stored_example\<lparr>ID := 6\<rparr>)]"
proof -
  have "list_all (message_ok (env_zone example_env)) [stored_example\<lparr>ID := 6\<rparr>]"
    by code_simp
  then show ?thesis
    using json_export_roundtrip [of example_server "signed_in ''GET'' ''/api/export/json''"
        "[stored_example\<lparr>ID := 6\<rparr>]" memory_badger example_env filled_store] filled_store_query
    by (simp add: example_env_def)
qed

lemma interactions_show_latest_witness:
  "\<exists>b. fst (serve example_env memory_badger example_server
     (signed_in ''GET'' ''/api/interactions'') small_store) = json_response b"
proof -
  have "db_inv memory_badger (st_db small_store)"
    by (simp add: db_inv_def memory_get_def small_store_def make_store_def)
  then show ?thesis
    using interactions_show_latest [OF memory.badger_db_axioms, of small_store example_server
        "signed_in ''GET'' ''/api/interactions''" example_env] by auto
qed

lemma cleared_dashboard_empty_witness:
  "QueryAll memory_badger 7
     (fst (snd (serve example_env memory_badger example_server (signed_in ''POST'' ''/api/clear'') small_store))) = []"
proof -
  obtain resp st' ws where s: "serve example_env memory_badger example_server
      (signed_in ''POST'' ''/api/clear'') small_store = (resp, st', ws)" by (metis prod_cases3)
  with example_clear(2) have "rs_status resp = 200" by simp
  from cleared_dashboard_empty [OF memory.badger_db_axioms _ _ s this, of 7] s show ?thesis by simp
qed

end
