(* ===== verification/Server_Hub.thy ===== *)
theory Server_Hub
  imports Go_Chan
begin

text \<open>
  \<open>internal/server/hub.go\<close> and the read loop of \<open>handleWebSocket\<close> in \<open>server.go\<close>: the set of
  connected dashboards, the broadcast of a payload to all of them, and the goroutines of each
  connection.

  A \<open>*Client\<close> is an address in the heap of the hub. The mutex of the hub is what makes
  \<open>Register\<close> and \<open>Unregister\<close> single steps: both hold the write lock, so neither runs while a
  \<open>Broadcast\<close>, which holds the read lock for its whole loop, is under way. The loop itself is
  taken apart into one step per client, in any order, since the pumps go on receiving
  meanwhile. Sending on or closing a closed channel panics in Go; \<open>hub_panic\<close> records it.
\<close>

section \<open>State\<close>

text \<open>Where the goroutine \<open>writePump\<close> is, and where the read loop of the connection is.\<close>

datatype pump = Receiving | Writing bytes | Leaving | Closing | Gone

datatype reader = Reading | Quitting | Finished

record client =
  cl_send :: "bytes chan"
  cl_closed :: bool
  cl_pump :: pump
  cl_reader :: reader
  cl_written :: "bytes list"
  cl_conn_closed :: bool

text \<open>
  \<open>hub_unregister\<close> holds the goroutines \<open>go h.Unregister(client)\<close> that have not run yet, and
  \<open>hub_casting\<close> the payload of the broadcast under way with the clients still to be offered it.
\<close>

record hub =
  hub_clients :: "nat set"
  hub_heap :: "nat \<rightharpoonup> client"
  hub_next :: nat
  hub_unregister :: "nat list"
  hub_casting :: "(bytes \<times> nat set) option"
  hub_panic :: bool

definition NewHub :: hub where
  "NewHub = \<lparr>hub_clients = {}, hub_heap = Map.empty, hub_next = 0, hub_unregister = [],
             hub_casting = None, hub_panic = False\<rparr>"

definition new_client :: client where
  "new_client = \<lparr>cl_send = make_chan 256, cl_closed = False, cl_pump = Receiving,
                 cl_reader = Reading, cl_written = [], cl_conn_closed = False\<rparr>"

definition ClientCount :: "hub \<Rightarrow> nat" where
  "ClientCount h = card (hub_clients h)"

section \<open>Operations\<close>

definition update_client :: "nat \<Rightarrow> (client \<Rightarrow> client) \<Rightarrow> hub \<Rightarrow> hub" where
  "update_client c f h = h\<lparr>hub_heap := (hub_heap h)(c := map_option f (hub_heap h c))\<rparr>"

definition Register :: "hub \<Rightarrow> hub" where
  "Register h =
     h\<lparr>hub_clients := insert (hub_next h) (hub_clients h),
       hub_heap := (hub_heap h)(hub_next h \<mapsto> new_client),
       hub_next := Suc (hub_next h)\<rparr>"

definition is_closed :: "nat \<Rightarrow> hub \<Rightarrow> bool" where
  "is_closed c h = (case hub_heap h c of None \<Rightarrow> False | Some cl \<Rightarrow> cl_closed cl)"

definition close_send :: "nat \<Rightarrow> hub \<Rightarrow> hub" where
  "close_send c h =
     (if is_closed c h then h\<lparr>hub_panic := True\<rparr>
      else update_client c (\<lambda>cl. cl\<lparr>cl_closed := True\<rparr>) h)"

definition Unregister :: "nat \<Rightarrow> hub \<Rightarrow> hub" where
  "Unregister c h =
     (if c \<in> hub_clients h then close_send c (h\<lparr>hub_clients := hub_clients h - {c}\<rparr>) else h)"

definition has_room :: "nat \<Rightarrow> hub \<Rightarrow> bool" where
  "has_room c h = (case hub_heap h c of None \<Rightarrow> False | Some cl \<Rightarrow> chan_has_room (cl_send cl))"

text \<open>The body of the loop of \<open>Broadcast\<close>: a \<open>select\<close> with a default.\<close>

definition offer :: "nat \<Rightarrow> bytes \<Rightarrow> hub \<Rightarrow> hub" where
  "offer c payload h =
     (if is_closed c h then h\<lparr>hub_panic := True\<rparr>
      else if has_room c h then update_client c (\<lambda>cl. cl\<lparr>cl_send := try_send payload (cl_send cl)\<rparr>) h
      else h\<lparr>hub_unregister := hub_unregister h @ [c]\<rparr>)"

definition set_pump :: "nat \<Rightarrow> pump \<Rightarrow> hub \<Rightarrow> hub" where
  "set_pump c p h = update_client c (\<lambda>cl. cl\<lparr>cl_pump := p\<rparr>) h"

definition set_reader :: "nat \<Rightarrow> reader \<Rightarrow> hub \<Rightarrow> hub" where
  "set_reader c r h = update_client c (\<lambda>cl. cl\<lparr>cl_reader := r\<rparr>) h"

text \<open>One turn of \<open>for msg := range c.send\<close> when it does not block: a message, or the end.\<close>

definition pump_recv :: "nat \<Rightarrow> client \<Rightarrow> hub \<Rightarrow> hub" where
  "pump_recv c cl h =
     (case recv (cl_send cl) of
        Some (msg, q) \<Rightarrow> update_client c (\<lambda>cl. cl\<lparr>cl_send := q, cl_pump := Writing msg\<rparr>) h
      | None \<Rightarrow> set_pump c Leaving h)"

text \<open>The outcome of \<open>conn.Write\<close>: the next turn of the loop, or the return on an error.\<close>

definition pump_write :: "nat \<Rightarrow> bytes \<Rightarrow> bool \<Rightarrow> hub \<Rightarrow> hub" where
  "pump_write c msg ok h =
     (if ok then update_client c (\<lambda>cl. cl\<lparr>cl_written := cl_written cl @ [msg], cl_pump := Receiving\<rparr>) h
      else set_pump c Leaving h)"

text \<open>The deferred \<open>conn.Close\<close>.\<close>

definition pump_close :: "nat \<Rightarrow> hub \<Rightarrow> hub" where
  "pump_close c h = update_client c (\<lambda>cl. cl\<lparr>cl_conn_closed := True, cl_pump := Gone\<rparr>) h"

section \<open>Steps\<close>

datatype hub_event =
    Connect
  | Cast bytes
  | Offer nat bytes
  | CastEnd
  | PumpRecv nat
  | PumpWrite nat bool
  | PumpUnregister nat
  | PumpClose nat
  | ReadFails nat
  | ReadUnregister nat
  | AsyncUnregister nat

inductive hub_step :: "hub \<Rightarrow> hub_event \<Rightarrow> hub \<Rightarrow> bool" where
  connect: "hub_casting h = None \<Longrightarrow> hub_step h Connect (Register h)"
| cast: "hub_casting h = None \<Longrightarrow>
    hub_step h (Cast payload) (h\<lparr>hub_casting := Some (payload, hub_clients h)\<rparr>)"
| offer: "hub_casting h = Some (payload, rest) \<Longrightarrow> c \<in> rest \<Longrightarrow>
    hub_step h (Offer c payload) (offer c payload (h\<lparr>hub_casting := Some (payload, rest - {c})\<rparr>))"
| cast_end: "hub_casting h = Some (payload, {}) \<Longrightarrow> hub_step h CastEnd (h\<lparr>hub_casting := None\<rparr>)"
| recv: "hub_heap h c = Some cl \<Longrightarrow> cl_pump cl = Receiving \<Longrightarrow>
    chan_items (cl_send cl) \<noteq> [] \<or> cl_closed cl \<Longrightarrow>
    hub_step h (PumpRecv c) (pump_recv c cl h)"
| write_frame: "hub_heap h c = Some cl \<Longrightarrow> cl_pump cl = Writing msg \<Longrightarrow>
    hub_step h (PumpWrite c ok) (pump_write c msg ok h)"
| leave: "hub_heap h c = Some cl \<Longrightarrow> cl_pump cl = Leaving \<Longrightarrow> hub_casting h = None \<Longrightarrow>
    hub_step h (PumpUnregister c) (set_pump c Closing (Unregister c h))"
| close: "hub_heap h c = Some cl \<Longrightarrow> cl_pump cl = Closing \<Longrightarrow>
    hub_step h (PumpClose c) (pump_close c h)"
| read_fails: "hub_heap h c = Some cl \<Longrightarrow> cl_reader cl = Reading \<Longrightarrow>
    hub_step h (ReadFails c) (set_reader c Quitting h)"
| read_leave: "hub_heap h c = Some cl \<Longrightarrow> cl_reader cl = Quitting \<Longrightarrow> hub_casting h = None \<Longrightarrow>
    hub_step h (ReadUnregister c) (set_reader c Finished (Unregister c h))"
| async: "c \<in> set (hub_unregister h) \<Longrightarrow> hub_casting h = None \<Longrightarrow>
    hub_step h (AsyncUnregister c)
      (Unregister c (h\<lparr>hub_unregister := remove1 c (hub_unregister h)\<rparr>))"

inductive_simps hub_step_simps:
  "hub_step h Connect h'" "hub_step h (Cast p) h'" "hub_step h (Offer c p) h'"
  "hub_step h CastEnd h'" "hub_step h (PumpRecv c) h'" "hub_step h (PumpWrite c ok) h'"
  "hub_step h (PumpUnregister c) h'" "hub_step h (PumpClose c) h'" "hub_step h (ReadFails c) h'"
  "hub_step h (ReadUnregister c) h'" "hub_step h (AsyncUnregister c) h'"

inductive hub_run :: "hub \<Rightarrow> hub_event list \<Rightarrow> hub \<Rightarrow> bool" where
  start: "hub_run h [] h"
| step: "hub_run h evs h' \<Longrightarrow> hub_step h' e h'' \<Longrightarrow> hub_run h (evs @ [e]) h''"

lemma hub_run_cons: "hub_step h e h' \<Longrightarrow> hub_run h' evs h'' \<Longrightarrow> hub_run h (e # evs) h''"
proof (induction evs arbitrary: h'' rule: rev_induct)
  case Nil
  from Nil(2) have "h'' = h'" by (auto elim: hub_run.cases)
  with Nil(1) show ?case using hub_run.step [OF hub_run.start, of h e h'] by simp
next
  case (snoc x xs)
  from snoc.prems(2) obtain k where "hub_run h' xs k" "hub_step k x h''"
    by (auto elim: hub_run.cases)
  with snoc show ?case using hub_run.step [of h "e # xs" k x h''] by simp
qed

lemma hub_run_trans: "hub_run h evs h' \<Longrightarrow> hub_run h' evs' h'' \<Longrightarrow> hub_run h (evs @ evs') h''"
proof (induction evs' arbitrary: h'' rule: rev_induct)
  case Nil
  then show ?case by (auto elim: hub_run.cases)
next
  case (snoc x xs)
  from snoc.prems(2) obtain k where "hub_run h' xs k" "hub_step k x h''"
    by (auto elim: hub_run.cases)
  with snoc show ?case using hub_run.step [of h "evs @ xs" k x h''] by simp
qed

section \<open>What each operation does to the clients\<close>

lemma heap_update: "hub_heap (update_client c f h) d =
    (if d = c then map_option f (hub_heap h c) else hub_heap h d)"
  by (simp add: update_client_def)

lemma update_frame [simp, frame_simps]:
  "hub_clients (update_client c f h) = hub_clients h"
  "hub_next (update_client c f h) = hub_next h"
  "hub_unregister (update_client c f h) = hub_unregister h"
  "hub_casting (update_client c f h) = hub_casting h"
  "hub_panic (update_client c f h) = hub_panic h"
  by (simp_all add: update_client_def)

lemmas hub_ops = Register_def Unregister_def close_send_def offer_def set_pump_def set_reader_def
  pump_write_def pump_close_def

text \<open>
  The invariant: no panic, and a channel is closed exactly when its client is no longer
  registered. A broadcast under way has only registered clients left to visit, because the
  read lock keeps \<open>Unregister\<close> out; a goroutine past its \<open>Unregister\<close> belongs to a client
  that is gone.
\<close>

definition client_inv :: "hub \<Rightarrow> nat \<Rightarrow> client \<Rightarrow> bool" where
  "client_inv h c cl \<longleftrightarrow>
     c < hub_next h \<and> (cl_closed cl \<longleftrightarrow> c \<notin> hub_clients h) \<and>
     chan_cap (cl_send cl) = 256 \<and> length (chan_items (cl_send cl)) \<le> 256 \<and>
     (cl_pump cl \<in> {Closing, Gone} \<or> cl_reader cl = Finished \<longrightarrow> c \<notin> hub_clients h) \<and>
     (cl_conn_closed cl \<longleftrightarrow> cl_pump cl = Gone)"

definition hub_inv :: "hub \<Rightarrow> bool" where
  "hub_inv h \<longleftrightarrow>
     \<not> hub_panic h \<and> finite (hub_clients h) \<and> hub_clients h \<subseteq> dom (hub_heap h) \<and>
     (\<forall>c cl. hub_heap h c = Some cl \<longrightarrow> client_inv h c cl) \<and>
     (\<forall>payload rest. hub_casting h = Some (payload, rest) \<longrightarrow> rest \<subseteq> hub_clients h)"

lemma NewHub_inv: "hub_inv NewHub"
  by (simp add: hub_inv_def NewHub_def)

lemma hub_inv_client: "hub_inv h \<Longrightarrow> hub_heap h c = Some cl \<Longrightarrow> client_inv h c cl"
  unfolding hub_inv_def by blast

lemma hub_inv_registered: "hub_inv h \<Longrightarrow> c \<in> hub_clients h \<Longrightarrow> \<exists>cl. hub_heap h c = Some cl"
  unfolding hub_inv_def by blast

lemma hub_inv_open:
  assumes "hub_inv h" "c \<in> hub_clients h"
  shows "\<not> is_closed c h"
proof -
  obtain cl where "hub_heap h c = Some cl" using hub_inv_registered [OF assms] by blast
  with hub_inv_client [OF assms(1) this] assms(2) show ?thesis
    by (simp add: is_closed_def client_inv_def)
qed

lemma hub_invI:
  assumes "\<not> hub_panic h" "finite (hub_clients h)"
    and "\<And>c. c \<in> hub_clients h \<Longrightarrow> \<exists>cl. hub_heap h c = Some cl"
    and "\<And>c cl. hub_heap h c = Some cl \<Longrightarrow> client_inv h c cl"
    and "\<And>payload rest. hub_casting h = Some (payload, rest) \<Longrightarrow> rest \<subseteq> hub_clients h"
  shows "hub_inv h"
  unfolding hub_inv_def using assms by blast

text \<open>Only the registered set and the next address matter to a client's invariant.\<close>

lemma client_inv_cong:
  "client_inv h c cl \<Longrightarrow> hub_clients h' = hub_clients h \<Longrightarrow> hub_next h' = hub_next h \<Longrightarrow>
     client_inv h' c cl"
  by (simp add: client_inv_def)

text \<open>A step that changes one client and keeps its part of the invariant keeps it all.\<close>

lemma update_client_inv:
  assumes inv: "hub_inv h" and cl: "hub_heap h c = Some cl" and ok: "client_inv h c (f cl)"
  shows "hub_inv (update_client c f h)"
proof (rule hub_invI)
  show "client_inv (update_client c f h) d x" if "hub_heap (update_client c f h) d = Some x" for d x
  proof -
    from that cl ok have "client_inv h d x"
      using hub_inv_client [OF inv, of d x] by (cases "d = c") (simp_all add: heap_update)
    then show ?thesis by (rule client_inv_cong) simp_all
  qed
  show "\<exists>x. hub_heap (update_client c f h) d = Some x" if "d \<in> hub_clients (update_client c f h)" for d
    using that hub_inv_registered [OF inv, of d] by (auto simp: heap_update)
qed (use inv in \<open>simp_all add: hub_inv_def\<close>)

text \<open>What a step may change without touching any client.\<close>

lemma hub_inv_frame:
  assumes inv: "hub_inv h"
    and same: "hub_clients h' = hub_clients h" "hub_heap h' = hub_heap h" "hub_next h' = hub_next h"
      "hub_panic h' = hub_panic h"
    and "\<And>payload rest. hub_casting h' = Some (payload, rest) \<Longrightarrow> rest \<subseteq> hub_clients h"
  shows "hub_inv h'"
proof (rule hub_invI)
  show "client_inv h' c cl" if "hub_heap h' c = Some cl" for c cl
    using that same hub_inv_client [OF inv, of c cl] by (auto intro: client_inv_cong)
qed (use assms hub_inv_registered [OF inv] in \<open>simp_all add: hub_inv_def\<close>)

lemma Register_inv:
  assumes inv: "hub_inv h" and idle: "hub_casting h = None"
  shows "hub_inv (Register h)"
proof (rule hub_invI)
  show "\<not> hub_panic (Register h)" "finite (hub_clients (Register h))"
    using inv by (simp_all add: Register_def hub_inv_def)
  show "\<exists>cl. hub_heap (Register h) c = Some cl" if "c \<in> hub_clients (Register h)" for c
    using that hub_inv_registered [OF inv, of c] by (auto simp: Register_def)
  show "client_inv (Register h) c cl" if "hub_heap (Register h) c = Some cl" for c cl
  proof (cases "c = hub_next h")
    case True
    with that have "cl = new_client" by (simp add: Register_def)
    with True show ?thesis
      by (simp add: Register_def client_inv_def new_client_def make_chan_def)
  next
    case False
    with that have "client_inv h c cl"
      using hub_inv_client [OF inv, of c cl] by (simp add: Register_def)
    with False show ?thesis by (simp add: Register_def client_inv_def)
  qed
qed (simp add: Register_def idle)

lemma Unregister_clients [simp]: "hub_clients (Unregister c h) = hub_clients h - {c}"
  by (auto simp: Unregister_def close_send_def)

lemma Unregister_frame [simp, frame_simps]:
  "hub_next (Unregister c h) = hub_next h" "hub_casting (Unregister c h) = hub_casting h"
  "hub_unregister (Unregister c h) = hub_unregister h"
  by (simp_all add: Unregister_def close_send_def)

lemma Unregister_heap:
  "hub_heap (Unregister c h) d =
     (if d = c \<and> c \<in> hub_clients h \<and> \<not> is_closed c h
      then map_option (\<lambda>cl. cl\<lparr>cl_closed := True\<rparr>) (hub_heap h c) else hub_heap h d)"
  by (simp add: Unregister_def close_send_def heap_update is_closed_def)

lemma Unregister_inv:
  assumes inv: "hub_inv h" and idle: "hub_casting h = None"
  shows "hub_inv (Unregister c h)"
proof (cases "c \<in> hub_clients h")
  case True
  have shut: "\<not> is_closed c h" by (rule hub_inv_open [OF inv True])
  show ?thesis
  proof (rule hub_invI)
    show "\<not> hub_panic (Unregister c h)"
      using True shut inv by (simp add: Unregister_def close_send_def hub_inv_def is_closed_def)
    show "finite (hub_clients (Unregister c h))" using inv by (simp add: hub_inv_def)
    show "\<exists>cl. hub_heap (Unregister c h) d = Some cl" if "d \<in> hub_clients (Unregister c h)" for d
      using that hub_inv_registered [OF inv, of d] by (simp add: Unregister_heap)
    show "client_inv (Unregister c h) d cl" if "hub_heap (Unregister c h) d = Some cl" for d cl
    proof (cases "d = c")
      case dc: True
      with that True shut obtain x where "hub_heap h c = Some x" "cl = x\<lparr>cl_closed := True\<rparr>"
        by (auto simp: Unregister_heap)
      with hub_inv_client [OF inv this(1)] dc show ?thesis by (simp add: client_inv_def)
    next
      case False
      with that have "client_inv h d cl" using hub_inv_client [OF inv] by (simp add: Unregister_heap)
      with False show ?thesis by (simp add: client_inv_def)
    qed
  qed (simp add: idle)
qed (simp add: Unregister_def inv)

lemma offer_inv:
  assumes inv: "hub_inv h" and c: "c \<in> hub_clients h"
  shows "hub_inv (offer c payload h)"
proof -
  obtain cl where cl: "hub_heap h c = Some cl" using hub_inv_registered [OF inv c] by blast
  have "client_inv h c (cl\<lparr>cl_send := try_send payload (cl_send cl)\<rparr>)"
    using hub_inv_client [OF inv cl] by (simp add: client_inv_def try_send_def chan_has_room_def)
  then have "hub_inv (update_client c (\<lambda>cl. cl\<lparr>cl_send := try_send payload (cl_send cl)\<rparr>) h)"
    by (rule update_client_inv [OF inv cl])
  moreover have "hub_inv (h\<lparr>hub_unregister := hub_unregister h @ [c]\<rparr>)"
    by (rule hub_inv_frame [OF inv]) (use inv in \<open>simp_all add: hub_inv_def\<close>)
  ultimately show ?thesis using hub_inv_open [OF inv c] by (simp add: offer_def)
qed

text \<open>Moving a goroutine on; past its \<open>Unregister\<close> the client has to be gone.\<close>

lemma set_pump_inv:
  assumes inv: "hub_inv h" and cl: "hub_heap h c = Some cl" and "cl_pump cl \<noteq> Gone" "p \<noteq> Gone"
    and "p = Closing \<Longrightarrow> c \<notin> hub_clients h"
  shows "hub_inv (set_pump c p h)"
  unfolding set_pump_def
  by (rule update_client_inv [OF inv cl])
    (use assms hub_inv_client [OF inv cl] in \<open>auto simp: client_inv_def\<close>)

lemma set_reader_inv:
  assumes inv: "hub_inv h" and cl: "hub_heap h c = Some cl"
    and "r = Finished \<Longrightarrow> c \<notin> hub_clients h"
  shows "hub_inv (set_reader c r h)"
  unfolding set_reader_def
  by (rule update_client_inv [OF inv cl])
    (use assms hub_inv_client [OF inv cl] in \<open>auto simp: client_inv_def\<close>)

lemma Unregister_client:
  assumes "hub_heap h c = Some cl"
  shows "\<exists>cl'. hub_heap (Unregister c h) c = Some cl' \<and> cl_pump cl' = cl_pump cl \<and>
    cl_send cl' = cl_send cl \<and> cl_written cl' = cl_written cl \<and> cl_reader cl' = cl_reader cl"
  using assms by (simp add: Unregister_heap)

lemma pump_recv_inv:
  assumes inv: "hub_inv h" and cl: "hub_heap h c = Some cl" and p: "cl_pump cl = Receiving"
  shows "hub_inv (pump_recv c cl h)"
proof (cases "recv (cl_send cl)")
  case None
  then show ?thesis using set_pump_inv [OF inv cl, of Leaving] p by (simp add: pump_recv_def)
next
  case (Some mq)
  obtain msg q where mq: "mq = (msg, q)" by (cases mq)
  have "client_inv h c (cl\<lparr>cl_send := q, cl_pump := Writing msg\<rparr>)"
    using hub_inv_client [OF inv cl] Some mq p gochan.get_Some [of "cl_send cl" msg q]
    by (auto simp: client_inv_def)
  then show ?thesis using Some mq by (simp add: pump_recv_def update_client_inv [OF inv cl])
qed

lemma pump_write_inv:
  assumes inv: "hub_inv h" and cl: "hub_heap h c = Some cl" and p: "cl_pump cl = Writing msg"
  shows "hub_inv (pump_write c msg ok h)"
proof (cases ok)
  case False
  then show ?thesis using set_pump_inv [OF inv cl, of Leaving] p by (simp add: pump_write_def)
next
  case True
  have "client_inv h c (cl\<lparr>cl_written := cl_written cl @ [msg], cl_pump := Receiving\<rparr>)"
    using hub_inv_client [OF inv cl] p by (simp add: client_inv_def)
  then show ?thesis using True by (simp add: pump_write_def update_client_inv [OF inv cl])
qed

lemma pump_close_inv:
  assumes inv: "hub_inv h" and cl: "hub_heap h c = Some cl" and p: "cl_pump cl = Closing"
  shows "hub_inv (pump_close c h)"
  unfolding pump_close_def
  by (rule update_client_inv [OF inv cl])
    (use p hub_inv_client [OF inv cl] in \<open>auto simp: client_inv_def\<close>)

lemma hub_step_inv: "hub_step h e h' \<Longrightarrow> hub_inv h \<Longrightarrow> hub_inv h'"
proof (induction rule: hub_step.induct)
  case (connect h)
  then show ?case by (simp add: Register_inv)
next
  case (cast h payload)
  then show ?case by (auto intro: hub_inv_frame)
next
  case (offer h payload rest c)
  then have "c \<in> hub_clients h" by (auto simp: hub_inv_def)
  moreover have "hub_inv (h\<lparr>hub_casting := Some (payload, rest - {c})\<rparr>)"
    by (rule hub_inv_frame [OF offer.prems]) (use offer in \<open>auto simp: hub_inv_def\<close>)
  ultimately show ?case by (simp add: offer_inv)
next
  case (cast_end h payload)
  then show ?case by (auto intro: hub_inv_frame)
next
  case (leave h c cl)
  obtain cl' where "hub_heap (Unregister c h) c = Some cl'" "cl_pump cl' = Leaving"
    using Unregister_client [OF leave(1)] leave(2) by auto
  then show ?case using leave by (intro set_pump_inv) (auto intro: Unregister_inv)
next
  case (read_leave h c cl)
  obtain cl' where "hub_heap (Unregister c h) c = Some cl'"
    using Unregister_client [OF read_leave(1)] by auto
  then show ?case using read_leave by (intro set_reader_inv) (auto intro: Unregister_inv)
next
  case (async c h)
  then have "hub_inv (h\<lparr>hub_unregister := remove1 c (hub_unregister h)\<rparr>)"
    by (auto intro: hub_inv_frame)
  with async show ?case by (simp add: Unregister_inv)
next
  case (read_fails h c cl)
  then show ?case by (intro set_reader_inv) simp_all
qed (simp_all add: pump_recv_inv pump_write_inv pump_close_inv)

lemma hub_run_inv: "hub_run h evs h' \<Longrightarrow> hub_inv h \<Longrightarrow> hub_inv h'"
  by (induction rule: hub_run.induct) (auto intro: hub_step_inv)

section \<open>What reaches a client\<close>

text \<open>
  The payloads broadcast along a run and those offered to one client; and the stream of a
  client: what its connection has accepted, what is being written, and what is queued.
\<close>

definition casts :: "hub_event list \<Rightarrow> bytes list" where
  "casts evs = List.map_filter (\<lambda>e. case e of Cast p \<Rightarrow> Some p | _ \<Rightarrow> None) evs"

definition offered :: "nat \<Rightarrow> hub_event list \<Rightarrow> bytes list" where
  "offered c evs = List.map_filter (\<lambda>e. case e of Offer d p \<Rightarrow> if d = c then Some p else None | _ \<Rightarrow> None) evs"

definition in_flight :: "client \<Rightarrow> bytes list" where
  "in_flight cl = (case cl_pump cl of Writing msg \<Rightarrow> [msg] | _ \<Rightarrow> [])"

definition stream :: "client \<Rightarrow> bytes list" where
  "stream cl = cl_written cl @ in_flight cl @ chan_items (cl_send cl)"

lemma casts_simps [simp]:
  "casts [] = []" "casts (e # evs) = (case e of Cast p \<Rightarrow> [p] | _ \<Rightarrow> []) @ casts evs"
  "casts (evs @ evs') = casts evs @ casts evs'"
  by (simp_all add: casts_def List.map_filter_def split: hub_event.split)

lemma offered_simps [simp]:
  "offered c [] = []"
  "offered c (e # evs) = (case e of Offer d p \<Rightarrow> if d = c then [p] else [] | _ \<Rightarrow> []) @ offered c evs"
  "offered c (evs @ evs') = offered c evs @ offered c evs'"
  by (simp_all add: offered_def List.map_filter_def split: hub_event.split)

lemma recv_items: "recv q = Some (x, q') \<Longrightarrow> chan_items q = x # chan_items q'"
  using gochan.get_Some [of q x q'] by blast

lemma recv_empty: "recv q = None \<longleftrightarrow> chan_items q = []"
  by (simp add: recv_def split: list.split)

text \<open>A step leaves the other clients alone and extends a stream only by what is offered.\<close>

lemma update_stream:
  "hub_heap h c = Some cl \<Longrightarrow>
     \<exists>cl'. hub_heap (update_client d f h) c = Some cl' \<and> cl' = (if d = c then f cl else cl)"
  by (auto simp: heap_update)

lemma is_closed_cong [simp]:
  "is_closed c (h\<lparr>hub_casting := x\<rparr>) = is_closed c h"
  "has_room c (h\<lparr>hub_casting := x\<rparr>) = has_room c h"
  by (simp_all add: is_closed_def has_room_def)

lemma step_stream:
  assumes "hub_step h e h'" "hub_inv h" "hub_heap h c = Some cl"
  shows "\<exists>cl'. hub_heap h' c = Some cl' \<and>
    (stream cl' = stream cl @ offered c [e] \<or>
     subseq (stream cl') (stream cl @ offered c [e]) \<and>
       (e = PumpWrite c False \<or> c \<in> set (hub_unregister h')))"
  using assms
proof (induction rule: hub_step.induct)
  case (connect h)
  then show ?case using hub_inv_client [OF connect.prems] by (auto simp: Register_def client_inv_def)
next
  case (offer h payload rest d)
  then have "d \<in> hub_clients h" by (auto simp: hub_inv_def)
  then have "\<not> is_closed d h" using hub_inv_open offer.prems(1) by blast
  with offer show ?case
    by (auto simp: offer_def heap_update stream_def in_flight_def try_send_def has_room_def
        intro: subseq_append_rightI)
next
  case (recv h d x)
  then show ?case
    by (cases "Go_Chan.recv (cl_send x)")
      (auto simp: pump_recv_def set_pump_def heap_update stream_def in_flight_def recv_empty
        dest!: recv_items split: option.splits)
next
  case (write_frame h d x msg ok)
  then show ?case
    by (auto simp: pump_write_def set_pump_def heap_update stream_def in_flight_def
        intro!: list_emb_append_mono)
next
  case (leave h d x)
  then show ?case
    by (auto simp: set_pump_def heap_update Unregister_heap stream_def in_flight_def)
next
  case (read_leave h d x)
  then show ?case
    by (auto simp: set_reader_def heap_update Unregister_heap stream_def in_flight_def)
next
  case (async d h)
  then show ?case
    by (auto simp: Unregister_heap stream_def in_flight_def)
qed (auto simp: heap_update pump_close_def set_reader_def stream_def in_flight_def)

definition owed :: "nat \<Rightarrow> hub \<Rightarrow> bytes list" where
  "owed c h = (case hub_casting h of Some (p, rest) \<Rightarrow> if c \<in> rest then [p] else [] | None \<Rightarrow> [])"

lemma step_next: "hub_step h e h' \<Longrightarrow> hub_next h \<le> hub_next h'"
  by (induction rule: hub_step.induct)
    (auto simp: hub_ops pump_recv_def split: option.splits)

lemma hub_ops_clients [simp, frame_simps]:
  "hub_clients (set_pump c p h) = hub_clients h" "hub_clients (set_reader c r h) = hub_clients h"
  "hub_clients (pump_recv c cl h) = hub_clients h" "hub_clients (pump_write c m ok h) = hub_clients h"
  "hub_clients (pump_close c h) = hub_clients h" "hub_clients (offer c m h) = hub_clients h"
  "hub_casting (set_pump c p h) = hub_casting h" "hub_casting (set_reader c r h) = hub_casting h"
  "hub_casting (pump_recv c cl h) = hub_casting h" "hub_casting (pump_write c m ok h) = hub_casting h"
  "hub_casting (pump_close c h) = hub_casting h" "hub_casting (offer c m h) = hub_casting h"
  "hub_casting (Register h) = hub_casting h"
  "hub_unregister (set_pump c p h) = hub_unregister h"
  "hub_unregister (set_reader c r h) = hub_unregister h"
  "hub_unregister (pump_recv c cl h) = hub_unregister h"
  "hub_unregister (pump_write c m ok h) = hub_unregister h"
  "hub_unregister (pump_close c h) = hub_unregister h" "hub_unregister (Register h) = hub_unregister h"
  by (simp_all add: hub_ops pump_recv_def split: option.split prod.split)

lemma step_clients:
  "hub_step h e h' \<Longrightarrow> c < hub_next h \<Longrightarrow> c \<in> hub_clients h' \<Longrightarrow> c \<in> hub_clients h"
  by (induction rule: hub_step.induct) (auto simp: Register_def)

lemma step_dropped:
  "hub_step h e h' \<Longrightarrow> c \<in> set (hub_unregister h) \<Longrightarrow> c \<in> hub_clients h' \<Longrightarrow>
     c \<in> set (hub_unregister h')"
  by (induction rule: hub_step.induct) (auto simp: offer_def)

lemma step_owed:
  assumes "hub_step h e h'" "c < hub_next h"
  shows "subseq (offered c [e] @ owed c h') (owed c h @ casts [e])"
    and "c \<in> hub_clients h' \<Longrightarrow> offered c [e] @ owed c h' = owed c h @ casts [e]"
  using assms by (induction rule: hub_step.induct) (auto simp: owed_def)

text \<open>The stream of a client along a run that starts when it has just been registered.\<close>

definition fresh :: "nat \<Rightarrow> hub \<Rightarrow> bool" where
  "fresh c h \<longleftrightarrow> hub_inv h \<and> c < hub_next h \<and> hub_heap h c = Some new_client \<and> owed c h = []"

lemma run_next: "hub_run h evs h' \<Longrightarrow> hub_next h \<le> hub_next h'"
  by (induction rule: hub_run.induct) (auto dest: step_next)

lemma run_stream:
  assumes "hub_run h evs h'" "fresh c h"
  shows "\<exists>cl. hub_heap h' c = Some cl \<and> subseq (stream cl) (offered c evs) \<and>
    subseq (offered c evs @ owed c h') (casts evs) \<and>
    (c \<in> hub_clients h' \<longrightarrow> offered c evs @ owed c h' = casts evs \<and>
      (PumpWrite c False \<notin> set evs \<and> c \<notin> set (hub_unregister h') \<longrightarrow> stream cl = offered c evs))"
  using assms
proof (induction rule: hub_run.induct)
  case (start h)
  then show ?case
    by (simp add: fresh_def stream_def in_flight_def new_client_def make_chan_def)
next
  case (step h evs h' e h'')
  then obtain cl where cl: "hub_heap h' c = Some cl" and sub: "subseq (stream cl) (offered c evs)"
    and owe: "subseq (offered c evs @ owed c h') (casts evs)"
    and all: "c \<in> hub_clients h' \<Longrightarrow> offered c evs @ owed c h' = casts evs \<and>
      (PumpWrite c False \<notin> set evs \<and> c \<notin> set (hub_unregister h') \<longrightarrow> stream cl = offered c evs)"
    by blast
  have inv: "hub_inv h'" using hub_run_inv [OF step(1)] step.prems by (simp add: fresh_def)
  have c: "c < hub_next h'" using run_next [OF step(1)] step.prems by (simp add: fresh_def)
  obtain cl' where cl': "hub_heap h'' c = Some cl'" and
    ext: "stream cl' = stream cl @ offered c [e] \<or>
      subseq (stream cl') (stream cl @ offered c [e]) \<and>
        (e = PumpWrite c False \<or> c \<in> set (hub_unregister h''))"
    using step_stream [OF step(2) inv cl] by blast
  have "subseq (stream cl') (stream cl @ offered c [e])"
    using ext subseq_order.order_refl by metis
  moreover have "subseq (stream cl @ offered c [e]) (offered c evs @ offered c [e])"
    using sub by (intro list_emb_append_mono) simp_all
  ultimately have "subseq (stream cl') (offered c (evs @ [e]))"
    unfolding offered_simps(3) by (rule subseq_order.order_trans)
  moreover have "subseq (offered c (evs @ [e]) @ owed c h'') (casts (evs @ [e]))"
  proof -
    have "subseq (offered c evs @ (offered c [e] @ owed c h'')) (offered c evs @ (owed c h' @ casts [e]))"
      by (intro list_emb_append_mono step_owed(1) [OF step(2) c]) simp
    also have "subseq \<dots> (casts evs @ casts [e])"
      unfolding append_assoc [symmetric] by (intro list_emb_append_mono owe) simp
    finally show ?thesis by (simp only: offered_simps(3) casts_simps(3) append_assoc)
  qed
  moreover have "offered c (evs @ [e]) @ owed c h'' = casts (evs @ [e]) \<and>
      (PumpWrite c False \<notin> set (evs @ [e]) \<and> c \<notin> set (hub_unregister h'') \<longrightarrow>
        stream cl' = offered c (evs @ [e]))" if "c \<in> hub_clients h''"
  proof -
    have "c \<in> hub_clients h'" by (rule step_clients [OF step(2) c that])
    note all = all [OF this] and owed = step_owed(2) [OF step(2) c that]
    have "offered c (evs @ [e]) @ owed c h'' = casts (evs @ [e])"
      using all owed by (metis append_assoc casts_simps(3) offered_simps(3))
    moreover have "stream cl' = offered c (evs @ [e])"
      if "PumpWrite c False \<notin> set (evs @ [e])" "c \<notin> set (hub_unregister h'')"
    proof -
      from that have "c \<notin> set (hub_unregister h')"
        using step_dropped [OF step(2) _ \<open>c \<in> hub_clients h''\<close>] by blast
      with that all have "stream cl = offered c evs" by simp
      moreover from that ext have "stream cl' = stream cl @ offered c [e]" by auto
      ultimately show ?thesis by (simp only: offered_simps(3))
    qed
    ultimately show ?thesis by blast
  qed
  ultimately show ?case using cl' by blast
qed

lemma connect_fresh:
  assumes "hub_inv h" "hub_step h Connect h'"
  shows "fresh (hub_next h) h'"
proof -
  from assms(2) have h': "h' = Register h" and idle: "hub_casting h = None"
    by (simp_all add: hub_step_simps)
  show ?thesis
    using Register_inv [OF assms(1) idle] idle h' by (simp add: fresh_def owed_def Register_def)
qed

section \<open>The pump of an unregistered client\<close>

definition pump_events :: "nat \<Rightarrow> hub_event set" where
  "pump_events c = {PumpRecv c, PumpWrite c True, PumpUnregister c, PumpClose c}"

text \<open>What the pump's own steps can reach from a state.\<close>

definition pump_ends :: "nat \<Rightarrow> hub \<Rightarrow> bytes list \<Rightarrow> bool" where
  "pump_ends c h frames \<longleftrightarrow> (\<exists>evs h' cl. hub_run h evs h' \<and> set evs \<subseteq> pump_events c \<and>
     hub_heap h' c = Some cl \<and> cl_pump cl = Gone \<and> cl_conn_closed cl \<and> cl_written cl = frames)"

lemma pump_ends_step:
  "hub_step h e h' \<Longrightarrow> e \<in> pump_events c \<Longrightarrow> pump_ends c h' frames \<Longrightarrow> pump_ends c h frames"
  unfolding pump_ends_def
proof (elim exE conjE)
  fix evs k cl
  assume step: "hub_step h e h'" "e \<in> pump_events c"
    and run: "hub_run h' evs k" "set evs \<subseteq> pump_events c"
    and cl: "hub_heap k c = Some cl" "cl_pump cl = Gone" "cl_conn_closed cl" "cl_written cl = frames"
  have "hub_run h (e # evs) k" by (rule hub_run_cons [OF step(1) run(1)])
  moreover have "set (e # evs) \<subseteq> pump_events c" using step run by simp
  ultimately show "\<exists>evs h' cl. hub_run h evs h' \<and> set evs \<subseteq> pump_events c \<and>
      hub_heap h' c = Some cl \<and> cl_pump cl = Gone \<and> cl_conn_closed cl \<and> cl_written cl = frames"
    using cl by blast
qed

lemma pump_ends_leaving:
  assumes "hub_heap h c = Some cl" "cl_pump cl = Leaving" "hub_casting h = None"
    "c \<notin> hub_clients h"
  shows "pump_ends c h (cl_written cl)"
proof -
  let ?h1 = "set_pump c Closing h"
  have step: "hub_step h (PumpUnregister c) ?h1"
    using hub_step.leave [OF assms(1-3)] assms(4) by (simp add: Unregister_def)
  have h1: "hub_heap ?h1 c = Some (cl\<lparr>cl_pump := Closing\<rparr>)"
    using assms(1) by (simp add: set_pump_def heap_update)
  have "hub_step ?h1 (PumpClose c) (pump_close c ?h1)"
    by (rule hub_step.close [OF h1]) simp
  moreover have "hub_heap (pump_close c ?h1) c = Some (cl\<lparr>cl_pump := Gone, cl_conn_closed := True\<rparr>)"
    using h1 by (simp add: pump_close_def heap_update)
  then have "pump_ends c (pump_close c ?h1) (cl_written cl)"
    unfolding pump_ends_def
    by (intro exI [of _ "[]"] exI [of _ "pump_close c ?h1"]) (auto intro: hub_run.start)
  ultimately have "pump_ends c ?h1 (cl_written cl)"
    using pump_ends_step [of ?h1 "PumpClose c"] by (simp add: pump_events_def)
  with step show ?thesis using pump_ends_step [of h "PumpUnregister c"] by (simp add: pump_events_def)
qed

lemma pump_ends_receiving:
  assumes "hub_heap h c = Some cl" "cl_pump cl = Receiving" "cl_closed cl"
    "hub_casting h = None" "c \<notin> hub_clients h"
  shows "pump_ends c h (cl_written cl @ chan_items (cl_send cl))"
  using assms
proof (induction "chan_items (cl_send cl)" arbitrary: h cl)
  case Nil
  let ?h = "set_pump c Leaving h"
  have "hub_step h (PumpRecv c) ?h"
    using hub_step.recv [OF Nil.prems(1,2)] Nil by (simp add: pump_recv_def recv_def)
  moreover have h: "hub_heap ?h c = Some (cl\<lparr>cl_pump := Leaving\<rparr>)"
    using Nil by (simp add: set_pump_def heap_update)
  have "pump_ends c ?h (cl_written cl)"
    using pump_ends_leaving [OF h] Nil by simp
  ultimately show ?case
    using Nil(1) pump_ends_step [of h "PumpRecv c" ?h] by (simp add: pump_events_def)
next
  case (Cons x xs)
  let ?q = "(cl_send cl)\<lparr>chan_items := xs\<rparr>"
  let ?h1 = "update_client c (\<lambda>cl. cl\<lparr>cl_send := ?q, cl_pump := Writing x\<rparr>) h"
  let ?h2 = "pump_write c x True ?h1"
  have items: "chan_items (cl_send cl) = x # xs" using Cons(2) by simp
  have "hub_step h (PumpRecv c) ?h1"
    using hub_step.recv [OF Cons.prems(1,2)] items by (simp add: pump_recv_def recv_def)
  moreover have h1: "hub_heap ?h1 c = Some (cl\<lparr>cl_send := ?q, cl_pump := Writing x\<rparr>)"
    using Cons.prems by (simp add: heap_update)
  have "hub_step ?h1 (PumpWrite c True) ?h2"
    by (rule hub_step.write_frame [OF h1]) simp
  moreover have h2: "hub_heap ?h2 c =
      Some (cl\<lparr>cl_send := ?q, cl_written := cl_written cl @ [x], cl_pump := Receiving\<rparr>)"
    by (simp add: pump_write_def heap_update Cons.prems(1))
  have "pump_ends c ?h2 ((cl_written cl @ [x]) @ xs)"
    using Cons.hyps(1) [OF _ h2] Cons.prems by simp
  ultimately show ?case
    unfolding items
    by (metis append_Cons append_Nil append_assoc insertCI pump_ends_step pump_events_def)
qed

section \<open>Properties\<close>

lemma hub_ops_next [simp, frame_simps]:
  "hub_next (set_pump c p h) = hub_next h" "hub_next (set_reader c r h) = hub_next h"
  "hub_next (pump_recv c cl h) = hub_next h" "hub_next (pump_write c m ok h) = hub_next h"
  "hub_next (pump_close c h) = hub_next h" "hub_next (offer c m h) = hub_next h"
  by (simp_all add: hub_ops pump_recv_def split: option.split prod.split)

lemma step_registered:
  "hub_step h e h' \<Longrightarrow>
     if e = Connect then hub_clients h' = insert (hub_next h) (hub_clients h) \<and> hub_next h' = Suc (hub_next h)
     else hub_clients h' \<subseteq> hub_clients h \<and> hub_next h' = hub_next h"
  by (induction rule: hub_step.induct) (auto simp: Register_def)

text \<open>
  C7. No panic: whatever order the goroutines of the hub run in, nothing is ever sent on a
  closed channel and no channel is closed twice. A channel is closed exactly when its client is
  no longer registered, and no queue exceeds its 256 places.
\<close>

theorem hub_never_panics:
  assumes "hub_run NewHub evs h"
  shows "\<not> hub_panic h \<and> ClientCount h \<le> length (filter (\<lambda>e. e = Connect) evs) \<and>
    (\<forall>c cl. hub_heap h c = Some cl \<longrightarrow>
       (cl_closed cl \<longleftrightarrow> c \<notin> hub_clients h) \<and> length (chan_items (cl_send cl)) \<le> 256)"
proof -
  have "hub_clients h \<subseteq> {..<hub_next h} \<and> hub_next h = length (filter (\<lambda>e. e = Connect) evs)"
    if "hub_run h0 evs h" "h0 = NewHub" for h0
    using that
  proof (induction rule: hub_run.induct)
    case (step h0 evs h' e h'')
    then have sub: "hub_clients h' \<subseteq> {..<hub_next h'}"
      and count: "hub_next h' = length (filter (\<lambda>e. e = Connect) evs)" by blast+
    show ?case
      using step_registered [OF step(2)] sub count by (cases "e = Connect") (simp add: lessThan_Suc, blast, simp, blast)
  qed (simp add: NewHub_def)
  with assms have *: "hub_clients h \<subseteq> {..<length (filter (\<lambda>e. e = Connect) evs)}" by auto
  have "ClientCount h \<le> length (filter (\<lambda>e. e = Connect) evs)"
    using card_mono [OF _ *] by (simp add: ClientCount_def)
  moreover have inv: "hub_inv h" by (rule hub_run_inv [OF assms NewHub_inv])
  then have "\<not> hub_panic h" by (simp add: hub_inv_def)
  moreover have "(cl_closed cl \<longleftrightarrow> c \<notin> hub_clients h) \<and> length (chan_items (cl_send cl)) \<le> 256"
    if "hub_heap h c = Some cl" for c cl
    using hub_inv_client [OF inv that] unfolding client_inv_def by blast
  ultimately show ?thesis by blast
qed

text \<open>
  In order and without loss: between broadcasts, a dashboard that is still registered, is
  not waiting to be dropped for a full queue and has had no failed write has received, is
  being written or has queued exactly the payloads broadcast since it connected, each once and
  in order.
\<close>

theorem hub_delivers:
  assumes "hub_run NewHub before h0" "hub_step h0 Connect h1" "hub_run h1 evs h"
    and "c = hub_next h0" "c \<in> hub_clients h" "hub_casting h = None"
    and "c \<notin> set (hub_unregister h)" "PumpWrite c False \<notin> set evs"
  shows "\<exists>cl. hub_heap h c = Some cl \<and> stream cl = casts evs"
proof -
  have "fresh c h1"
    using connect_fresh [OF hub_run_inv [OF assms(1) NewHub_inv] assms(2)] assms(4) by simp
  from run_stream [OF assms(3) this] assms(5-8) show ?thesis by (auto simp: owed_def)
qed

text \<open>
  In order in any case: whatever is dropped, closed or fails to be written, the frames a
  dashboard receives are payloads broadcast after it connected, in their order and none twice.
\<close>

theorem hub_in_order:
  assumes "hub_run NewHub before h0" "hub_step h0 Connect h1" "hub_run h1 evs h"
  shows "\<exists>cl. hub_heap h (hub_next h0) = Some cl \<and> subseq (cl_written cl) (casts evs)"
proof -
  have "fresh (hub_next h0) h1"
    by (rule connect_fresh [OF hub_run_inv [OF assms(1) NewHub_inv] assms(2)])
  from run_stream [OF assms(3) this] obtain cl where cl: "hub_heap h (hub_next h0) = Some cl"
    and "subseq (stream cl) (offered (hub_next h0) evs)"
    and "subseq (offered (hub_next h0) evs @ owed (hub_next h0) h) (casts evs)" by blast
  then have "subseq (stream cl) (casts evs)"
    using subseq_append_rightI subseq_order.order_trans by metis
  then have "subseq (cl_written cl) (casts evs)"
    unfolding stream_def using subseq_append_rightI [OF subseq_order.order_refl]
    by (metis subseq_order.order_trans)
  with cl show ?thesis by blast
qed


section \<open>Examples\<close>

text \<open>A dashboard connects, a payload is broadcast, and its pump picks the payload up.\<close>

definition one_client :: hub where
  "one_client = Register NewHub"

lemma one_client_connect: "hub_step NewHub Connect one_client"
  by (simp add: hub_step_simps one_client_def NewHub_def)

definition hub_example :: hub where
  "hub_example = pump_recv 0 (new_client\<lparr>cl_send := try_send ''x'' (make_chan 256)\<rparr>)
     ((offer 0 ''x'' (one_client\<lparr>hub_casting := Some (''x'', {})\<rparr>))\<lparr>hub_casting := None\<rparr>)"

abbreviation example_events :: "hub_event list" where
  "example_events \<equiv> [Cast ''x'', Offer 0 ''x'', CastEnd, PumpRecv 0]"

lemma hub_run_one: "hub_step h e h' \<Longrightarrow> hub_run h [e] h'"
  using hub_run.step [OF hub_run.start] by simp

lemma example_run: "hub_run one_client example_events hub_example"
proof -
  let ?a = "one_client\<lparr>hub_casting := Some (''x'', {0})\<rparr>"
  let ?b = "offer 0 ''x'' (?a\<lparr>hub_casting := Some (''x'', {})\<rparr>)"
  have "hub_step one_client (Cast ''x'') ?a"
    by (simp add: hub_step_simps one_client_def Register_def NewHub_def)
  moreover have "hub_step ?a (Offer 0 ''x'') ?b"
    by (simp add: hub_step_simps)
  moreover have "hub_step ?b CastEnd (?b\<lparr>hub_casting := None\<rparr>)"
    by (simp add: hub_step_simps)
  moreover have "hub_step (?b\<lparr>hub_casting := None\<rparr>) (PumpRecv 0) hub_example"
    by (simp add: hub_step_simps hub_example_def one_client_def offer_def is_closed_def has_room_def
        Register_def NewHub_def update_client_def new_client_def make_chan_def try_send_def
        chan_has_room_def)
  ultimately show ?thesis by (blast intro: hub_run_cons hub_run_one)
qed

lemmas hub_example_eval = hub_example_def one_client_def offer_def is_closed_def has_room_def
  Register_def NewHub_def update_client_def new_client_def make_chan_def try_send_def
  chan_has_room_def pump_recv_def recv_def

lemma hub_never_panics_witness: "\<not> hub_panic hub_example"
  using hub_never_panics [OF hub_run_cons [OF one_client_connect example_run]] by simp

lemma hub_delivers_witness:
  "\<exists>cl. hub_heap hub_example 0 = Some cl \<and> stream cl = [''x'']"
  using hub_delivers [OF hub_run.start one_client_connect example_run, of 0]
  by (simp add: hub_example_eval)

lemma hub_in_order_witness:
  "\<exists>cl. hub_heap hub_example 0 = Some cl \<and> subseq (cl_written cl) [''x'']"
  using hub_in_order [OF hub_run.start one_client_connect example_run] by (simp add: NewHub_def)

text \<open>The dashboard closes its page: the read loop unregisters it and the pump can end.\<close>

abbreviation left_client :: hub where
  "left_client \<equiv> set_reader 0 Finished (Unregister 0 (set_reader 0 Quitting one_client))"

lemma left_run: "hub_run NewHub [Connect, ReadFails 0, ReadUnregister 0] left_client"
proof -
  have "hub_step one_client (ReadFails 0) (set_reader 0 Quitting one_client)"
    by (simp add: hub_step_simps one_client_def Register_def NewHub_def new_client_def)
  moreover have "hub_step (set_reader 0 Quitting one_client) (ReadUnregister 0) left_client"
    by (simp add: hub_step_simps one_client_def Register_def NewHub_def new_client_def set_reader_def
        update_client_def)
  ultimately show ?thesis by (blast intro: one_client_connect hub_run_cons hub_run_one)
qed


end
