(* ===== verification/Storage_Clear.thy ===== *)
theory Storage_Clear
  imports Storage_Properties
begin

text \<open>
  \<open>Clear\<close> is three operations, between which other goroutines may run: the counter is set to zero,
  everything is dropped, and a transaction of its own writes empty statistics. This theory takes it
  apart; the store on its own, where nothing comes between, is \<open>Clear\<close> of \<open>Storage_Badger\<close>.
\<close>

definition clear_start :: "'db store \<Rightarrow> 'db store" where
  "clear_start s = s\<lparr>st_idCounter := 0\<rparr>"

definition clear_drop :: "'db badger \<Rightarrow> 'db store \<Rightarrow> bool \<times> 'db store" where
  "clear_drop B s =
     (case bg_drop_all B (st_db s) of None \<Rightarrow> (False, s) | Some db \<Rightarrow> (True, s\<lparr>st_db := db\<rparr>))"

definition clear_reset :: "'db badger \<Rightarrow> time \<Rightarrow> 'db store \<Rightarrow> bool \<times> 'db store" where
  "clear_reset B now s =
     (if \<not> bg_accepts B [] (stats_entry zero_stats) then (False, s)
      else (case bg_commit B now [stats_entry zero_stats] (st_db s) of
              None \<Rightarrow> (False, s)
            | Some db \<Rightarrow> (True, s\<lparr>st_db := db\<rparr>)))"

lemmas clear_defs = clear_start_def clear_drop_def clear_reset_def

text \<open>Undisturbed, the three are \<open>Clear\<close>.\<close>

theorem clear_in_steps:
  "Clear B now s =
     (case clear_drop B (clear_start s) of (ok, s') \<Rightarrow> if ok then clear_reset B now s' else (False, s'))"
  by (simp add: Clear_def clear_defs Let_def split: option.split)

lemma clear_frame [simp, frame_simps]:
  "st_queue (clear_start s) = st_queue s" "st_batch (clear_start s) = st_batch s"
  "st_db (clear_start s) = st_db s"
  "clear_drop B s = (ok, s') \<Longrightarrow> st_queue s' = st_queue s"
  "clear_drop B s = (ok, s') \<Longrightarrow> st_batch s' = st_batch s"
  "clear_reset B now s = (ok, s') \<Longrightarrow> st_queue s' = st_queue s"
  "clear_reset B now s = (ok, s') \<Longrightarrow> st_batch s' = st_batch s"
  by (auto simp: clear_defs split: option.splits if_splits)

context badger_db
begin

text \<open>What a scan returns is determined by the keys.\<close>

lemma scan_cong:
  assumes "\<And>k. HasPrefix k p \<Longrightarrow> bg_get B now db' k = bg_get B now db k"
  shows "bg_scan B now db' p = bg_scan B now db p"
proof -
  have set_eq: "set (bg_scan B now db' p) = set (bg_scan B now db p)"
    using assms scan_iff by (auto simp: set_eq_iff)
  have keys: "sorted (map fst (bg_scan B now d p)) \<and> distinct (map fst (bg_scan B now d p))" for d
    using scan_sorted [of now d p] strict_sorted_iff by blast
  then have inj: "inj_on fst (set (bg_scan B now db' p) \<union> set (bg_scan B now db p))"
    by (simp add: set_eq distinct_map)
  show ?thesis
    by (rule map_sorted_distinct_set_unique [OF inj])
      (rule keys [THEN conjunct1] keys [THEN conjunct2] set_eq)+
qed

lemma get_reset:
  "clear_reset B now s = (ok, s') \<Longrightarrow>
     bg_get B t (st_db s') k =
       (if ok \<and> k = stats_key then Found (marshal_stats zero_stats) else bg_get B t (st_db s) k)"
  using get_commit [of now "[stats_entry zero_stats]" "st_db s"]
  by (auto simp: clear_reset_def stats_entry_def alive_def split: option.splits if_splits)

lemma get_drop:
  "clear_drop B s = (ok, s') \<Longrightarrow>
     bg_get B t (st_db s') k = (if ok then ErrKeyNotFound else bg_get B t (st_db s) k)"
  using get_drop_all [of "st_db s"] by (auto simp: clear_drop_def split: option.splits)

lemma clear_start_inv: "store_inv B s \<Longrightarrow> store_inv B (clear_start s)"
  by (simp add: store_inv_def)

lemma clear_drop_inv: "clear_drop B s = (ok, s') \<Longrightarrow> store_inv B s \<Longrightarrow> store_inv B s'"
  by (simp add: store_inv_def db_inv_def get_drop clear_frame split: if_splits)

lemma clear_reset_inv:
  assumes "clear_reset B now s = (ok, s')" "store_inv B s"
  shows "store_inv B s'"
proof -
  have "db_inv B (st_db s')"
    using assms by (auto simp: store_inv_def db_inv_def get_reset [OF assms(1)] split: if_splits)
  with assms show ?thesis by (simp add: store_inv_def clear_frame)
qed

lemma reset_keeps: "clear_reset B now s = (ok, s') \<Longrightarrow> QueryAll B t s' = QueryAll B t s"
  unfolding QueryAll_def
  by (rule arg_cong [where f = "\<lambda>items. all_loop items []"], rule scan_cong)
    (auto simp: get_reset split: if_splits)

lemma reset_stats: "clear_reset B now s = (True, s') \<Longrightarrow> GetStats B t s' = (zero_stats, False)"
  by (simp add: GetStats_def get_reset unmarshal_stats_def marshal_stats_def zero_stats_def f64_zero_def)

end

text \<open>
  What a \<open>flush\<close> writes between the second and the third step stays, uncounted: the last step of
  \<open>Clear\<close> sets the statistics to zero and removes no message.
\<close>

theorem clear_race:
  assumes "badger_db B" "clear_reset B now s = (True, s')"
  shows "GetStats B t s' = (zero_stats, False) \<and> QueryAll B t s' = QueryAll B t s"
  using badger_db.reset_stats [OF assms] badger_db.reset_keeps [OF assms] by blast

text \<open>Two messages flushed between the drop and the reset are shown, with statistics of zero.\<close>

lemma clear_race_witness:
  "\<exists>s1 s2. clear_drop memory_badger (clear_start (make_store [] 5)) = (True, s1) \<and>
     clear_reset memory_badger 1 (snd (flush memory_badger 0 [example_msg, example_msg] s1)) = (True, s2) \<and>
     TotalMessages (fst (GetStats memory_badger 1 s2)) = 0 \<and> map ID (QueryAll memory_badger 1 s2) = [1, 2]"
proof -
  let ?s1 = "make_store [] 0"
  have 1: "clear_drop memory_badger (clear_start (make_store [] 5)) = (True, ?s1)"
    by (simp add: clear_defs memory_badger_def make_store_def)
  obtain s2 where 2: "clear_reset memory_badger 1 example_store = (True, s2)"
    by (simp add: clear_reset_def memory_badger_def)
  from clear_race [OF memory.badger_db_axioms 2, of 1] 1 2 example_all show ?thesis
    unfolding example_store_def by (intro exI [of _ ?s1] exI [of _ s2]) (simp add: zero_stats_def)
qed

end
