(* ===== verification/System_Run.thy ===== *)
theory System_Run
  imports Main_Loop Server_HTTP Server_Hub Storage_Clear
begin

text \<open>
  The goroutines together. The loop of \<open>main\<close>, the transport that reports to it, the drain
  goroutine of the store, the pumps and read loops of the dashboards and the HTTP handlers run
  concurrently over the store and the hub; a step of the system is a step of one of them.

  The loop is inside \<open>hub.Broadcast\<close> from the moment it has handled a message until the broadcast
  has been offered to every client: it takes no other case of its \<open>select\<close> meanwhile.
  \<open>sy_pending\<close> is the payload it has not yet started to broadcast. A WebSocket that the handshake
  accepts is registered in the same step, which needs the write lock of the hub. The transactions
  of Badger are atomic; a request that clears the store is three steps, and any number of such
  requests may be between them: \<open>sy_dropping\<close> have set the counter to zero, \<open>sy_resetting\<close> have
  dropped everything and have yet to write the statistics.
\<close>

section \<open>State and steps\<close>

record 'db system =
  sy_monitor :: "'db monitor"
  sy_pending :: "bytes list"
  sy_hub :: hub
  sy_dropping :: nat
  sy_resetting :: nat

definition start_system :: "bool \<Rightarrow> 'db store \<Rightarrow> 'db system" where
  "start_system tracing store =
     \<lparr>sy_monitor = start_monitor tracing store, sy_pending = [], sy_hub = NewHub,
      sy_dropping = 0, sy_resetting = 0\<rparr>"

datatype system_event =
    LoopEvent loop_event
  | HubEvent hub_event
  | DrainMsg time
  | DrainTick time
  | HttpRequest environment request
  | ClearStarts request
  | ClearDrops
  | ClearResets time

definition sy_store :: "'db system \<Rightarrow> 'db store" where
  "sy_store s = mn_store (sy_monitor s)"

definition set_store :: "'db store \<Rightarrow> 'db system \<Rightarrow> 'db system" where
  "set_store st s = s\<lparr>sy_monitor := (sy_monitor s)\<lparr>mn_store := st\<rparr>\<rparr>"

text \<open>The loop is at its \<open>select\<close>; the transport and the signals do not need it to be.\<close>

definition at_select :: "'db system \<Rightarrow> bool" where
  "at_select s \<longleftrightarrow> sy_pending s = [] \<and> hub_casting (sy_hub s) = None"

definition in_background :: "loop_event \<Rightarrow> bool" where
  "in_background e = (case e of Report m \<Rightarrow> True | Interrupted \<Rightarrow> True | _ \<Rightarrow> False)"

definition own_hub_event :: "hub_event \<Rightarrow> bool" where
  "own_hub_event e = (case e of Connect \<Rightarrow> False | Cast p \<Rightarrow> False | _ \<Rightarrow> True)"

inductive system_step ::
  "(time \<Rightarrow> int) \<Rightarrow> 'db badger \<Rightarrow> Server \<Rightarrow> 'db system \<Rightarrow> system_event \<Rightarrow> 'db system \<Rightarrow> bool"
  for zone B srv
where
  loop: "loop_step zone (sy_monitor s) e m \<Longrightarrow> at_select s \<or> in_background e \<Longrightarrow>
    system_step zone B srv s (LoopEvent e)
      (s\<lparr>sy_monitor := m, sy_pending := sy_pending s @ drop (length (mn_frames (sy_monitor s))) (mn_frames m)\<rparr>)"
| cast: "sy_pending s = p # ps \<Longrightarrow> hub_step (sy_hub s) (Cast p) h \<Longrightarrow>
    system_step zone B srv s (HubEvent (Cast p)) (s\<lparr>sy_pending := ps, sy_hub := h\<rparr>)"
| hub: "hub_step (sy_hub s) e h \<Longrightarrow> own_hub_event e \<Longrightarrow>
    system_step zone B srv s (HubEvent e) (s\<lparr>sy_hub := h\<rparr>)"
| drain_msg: "system_step zone B srv s (DrainMsg now) (set_store (drain_msg B now (sy_store s)) s)"
| drain_tick: "system_step zone B srv s (DrainTick now) (set_store (drain_tick B now (sy_store s)) s)"
| request: "\<not> clears srv r \<Longrightarrow> serve env B srv r (sy_store s) = (resp, st, ws) \<Longrightarrow> ws \<longrightarrow> hub_casting (sy_hub s) = None \<Longrightarrow>
    system_step zone B srv s (HttpRequest env r)
      ((set_store st s)\<lparr>sy_hub := (if ws then Register (sy_hub s) else sy_hub s)\<rparr>)"
| clear_starts: "clears srv r \<Longrightarrow>
    system_step zone B srv s (ClearStarts r)
      ((set_store (clear_start (sy_store s)) s)\<lparr>sy_dropping := Suc (sy_dropping s)\<rparr>)"
| clear_drops: "sy_dropping s = Suc n \<Longrightarrow> clear_drop B (sy_store s) = (ok, st) \<Longrightarrow>
    system_step zone B srv s ClearDrops
      ((set_store st s)\<lparr>sy_dropping := n, sy_resetting := sy_resetting s + (if ok then 1 else 0)\<rparr>)"
| clear_resets: "sy_resetting s = Suc n \<Longrightarrow> clear_reset B now (sy_store s) = (ok, st) \<Longrightarrow>
    system_step zone B srv s (ClearResets now) ((set_store st s)\<lparr>sy_resetting := n\<rparr>)"

inductive system_run ::
  "(time \<Rightarrow> int) \<Rightarrow> 'db badger \<Rightarrow> Server \<Rightarrow> 'db system \<Rightarrow> system_event list \<Rightarrow> 'db system \<Rightarrow> bool"
  for zone B srv
where
  start: "system_run zone B srv s [] s"
| step: "system_run zone B srv s evs s' \<Longrightarrow> system_step zone B srv s' e s'' \<Longrightarrow>
    system_run zone B srv s (evs @ [e]) s''"

inductive_cases system_stepE: "system_step zone B srv s e s'"

lemma sy_store_simps [simp, frame_simps]:
  "sy_store (set_store st s) = st" "sy_hub (set_store st s) = sy_hub s"
  "sy_pending (set_store st s) = sy_pending s"
  "mn_frames (sy_monitor (set_store st s)) = mn_frames (sy_monitor s)"
  "mn_metrics (sy_monitor (set_store st s)) = mn_metrics (sy_monitor s)"
  "mn_messages (sy_monitor (set_store st s)) = mn_messages (sy_monitor s)"
  "sy_store (s\<lparr>sy_hub := h\<rparr>) = sy_store s" "sy_store (s\<lparr>sy_pending := ps\<rparr>) = sy_store s"
  "sy_store (s\<lparr>sy_monitor := m\<rparr>) = mn_store m"
  "sy_store (s\<lparr>sy_dropping := n\<rparr>) = sy_store s" "sy_store (s\<lparr>sy_resetting := n\<rparr>) = sy_store s"
  by (simp_all add: sy_store_def set_store_def)

lemma set_store_same [simp]: "set_store (sy_store s) s = s"
  by (simp add: sy_store_def set_store_def)

section \<open>What a step of the loop does\<close>

lemma loop_step_effect:
  assumes "loop_step zone m e m'"
  shows "(\<exists>now msg p corr. e = MessageReady now \<and> Some msg \<in> set (chan_items (mn_messages m)) \<and>
        Process now msg (mn_correlator m) = (p, corr) \<and>
        mn_frames m' = mn_frames m @ frames_of zone p \<and> mn_metrics m' = mn_metrics m @ RecordMetrics (Some p) \<and>
        mn_store m' = Insert p (mn_store m)) \<or>
    mn_frames m' = mn_frames m \<and> mn_metrics m' = mn_metrics m \<and> mn_store m' = mn_store m"
  using assms
proof (cases rule: loop_step.cases)
  case (message msg q now)
  then have "msg \<in> set (chan_items (mn_messages m))" using gochan.get_Some by force
  with message show ?thesis by (cases msg) (auto simp: handle_message_def split: prod.splits)
qed auto

lemma loop_step_queue:
  assumes "loop_step zone m e m'"
  shows "chan_cap (mn_messages m') = chan_cap (mn_messages m)"
    and "length (chan_items (mn_messages m)) \<le> chan_cap (mn_messages m) \<Longrightarrow>
      length (chan_items (mn_messages m')) \<le> chan_cap (mn_messages m)"
    and "set (chan_items (mn_messages m')) \<subseteq> set (chan_items (mn_messages m)) \<union> {x. e = Report x}"
  using assms
  by (induction rule: loop_step.induct)
    (auto simp: try_send_def chan_has_room_def recv_def split: list.splits)

lemma frames_of_short: "length (frames_of zone p) \<le> 1"
  by (simp add: frames_of_def split: option.split)

section \<open>The invariant of the system\<close>

definition system_inv :: "'db badger \<Rightarrow> 'db system \<Rightarrow> bool" where
  "system_inv B s \<longleftrightarrow>
     store_inv B (sy_store s) \<and> hub_inv (sy_hub s) \<and> length (sy_pending s) \<le> 1 \<and>
     chan_cap (mn_messages (sy_monitor s)) = 1000 \<and> length (chan_items (mn_messages (sy_monitor s))) \<le> 1000"

lemma loop_step_store_inv:
  "badger_db B \<Longrightarrow> loop_step zone m e m' \<Longrightarrow> store_inv B (mn_store m) \<Longrightarrow> store_inv B (mn_store m')"
  using loop_step_effect [of zone m e m'] badger_db.Insert_inv by metis

lemma pending_short:
  assumes "loop_step zone m e m'" "at_select s \<or> in_background e" "length (sy_pending s) \<le> 1"
  shows "length (sy_pending s @ drop (length (mn_frames m)) (mn_frames m')) \<le> 1"
  using loop_step_effect [OF assms(1)] assms(2,3)
proof (elim disjE exE conjE)
  fix now msg p corr
  assume "e = MessageReady now" "mn_frames m' = mn_frames m @ frames_of zone p" "at_select s"
  then show ?thesis using frames_of_short [of zone p] by (simp add: at_select_def)
qed (simp_all add: in_background_def)

lemma system_step_inv:
  assumes "badger_db B" "system_step zone B srv s e s'" "system_inv B s"
  shows "system_inv B s'"
  using assms(2)
proof (cases rule: system_step.cases)
  case (loop e m)
  have inv: "store_inv B (mn_store (sy_monitor s))" "length (sy_pending s) \<le> 1"
    "chan_cap (mn_messages (sy_monitor s)) = 1000" "length (chan_items (mn_messages (sy_monitor s))) \<le> 1000"
    "hub_inv (sy_hub s)"
    using assms(3) by (simp_all add: system_inv_def sy_store_def)
  show ?thesis
    using loop_step_store_inv [OF assms(1) loop(3) inv(1)] pending_short [OF loop(3,4) inv(2)]
      loop_step_queue(1,2) [OF loop(3)] inv
    by (simp add: loop(2) system_inv_def sy_store_def)
next
  case (cast p ps h)
  then show ?thesis using assms(3) hub_step_inv by (auto simp: system_inv_def sy_store_def)
next
  case (hub e h)
  then show ?thesis using assms(3) hub_step_inv by (auto simp: system_inv_def sy_store_def)
next
  case (drain_msg now)
  then show ?thesis using assms(1,3) by (simp add: system_inv_def badger_db.drain_msg_inv)
next
  case (drain_tick now)
  then show ?thesis using assms(1,3) by (simp add: system_inv_def badger_db.drain_tick_inv)
next
  case (request r env resp st ws)
  then have "st = sy_store s" using serve_keeps [of srv r env B "sy_store s"] by simp
  with request assms(3) show ?thesis by (simp add: system_inv_def Register_inv)
next
  case (clear_starts r)
  then show ?thesis using assms(1,3) by (simp add: system_inv_def badger_db.clear_start_inv)
next
  case (clear_drops n ok st)
  then show ?thesis using assms(3) badger_db.clear_drop_inv [OF assms(1)] by (simp add: system_inv_def)
next
  case (clear_resets n now ok st)
  then show ?thesis using assms(3) badger_db.clear_reset_inv [OF assms(1)] by (simp add: system_inv_def)
qed

lemma system_run_inv:
  "system_run zone B srv s evs s' \<Longrightarrow> badger_db B \<Longrightarrow> system_inv B s \<Longrightarrow> system_inv B s'"
  by (induction rule: system_run.induct) (auto intro: system_step_inv)

lemma start_system_inv: "store_inv B store \<Longrightarrow> system_inv B (start_system tracing store)"
  by (simp add: system_inv_def start_system_def sy_store_def start_monitor_def make_chan_def NewHub_inv)

section \<open>One account of what happened\<close>

text \<open>
  A database whose messages are all in \<open>Q\<close>, and the forms in which the store may hold the messages
  the loop has handled.
\<close>

definition db_from :: "'db badger \<Rightarrow> message set \<Rightarrow> 'db \<Rightarrow> bool" where
  "db_from B Q db \<longleftrightarrow>
     (\<forall>now k v. HasPrefix k msg_prefix \<longrightarrow> bg_get B now db k = Found v \<longrightarrow> (\<exists>m\<in>Q. v = StoredMsg m))"

definition stored_forms :: "message list \<Rightarrow> message set" where
  "stored_forms ps = {message_utf8 (p\<lparr>ID := i\<rparr>) | p i. p \<in> set ps}"

lemma stored_forms_mono: "set ps \<subseteq> set qs \<Longrightarrow> stored_forms ps \<subseteq> stored_forms qs"
  by (auto simp: stored_forms_def)

lemma db_from_mono: "db_from B Q db \<Longrightarrow> Q \<subseteq> Q' \<Longrightarrow> db_from B Q' db"
  unfolding db_from_def by blast

lemma numbered_form: "(i, m) \<in> set (numbered c ms) \<Longrightarrow> \<exists>p\<in>set ms. m = p\<lparr>ID := wrap64 i\<rparr>"
  by (induction ms arbitrary: c) (auto simp: Let_def)

lemma flush_db_from:
  assumes "badger_db B" "db_from B Q (st_db s)" "stored_forms batch \<subseteq> Q"
  shows "db_from B Q (st_db (snd (flush B now batch s)))"
proof -
  obtain ok s' where f: "flush B now batch s = (ok, s')" by fastforce
  show ?thesis
  proof (cases ok)
    case False
    with f flush_failed [of B now batch s s'] assms(2) show ?thesis by simp
  next
    case True
    from f True have fl: "flush B now batch s = (True, s')" by simp
    have "\<exists>m\<in>Q. v = StoredMsg m" if "HasPrefix k msg_prefix" "bg_get B t (st_db s') k = Found v" for t k v
      using badger_db.flush_only [OF assms(1) fl that]
    proof (elim disjE bexE conjE)
      assume "bg_get B t (st_db s) k = Found v"
      then show ?thesis using assms(2) that(1) unfolding db_from_def by blast
    next
      fix x assume x: "x \<in> set (storable (st_idCounter s) batch)" "v = StoredMsg (message_utf8 (snd x))"
      then obtain p where "p \<in> set batch" "snd x = p\<lparr>ID := wrap64 (fst x)\<rparr>"
        using numbered_form [of "fst x" "snd x"] by (auto simp: storable_def)
      then have "message_utf8 (snd x) \<in> stored_forms batch" by (auto simp: stored_forms_def)
      with x(2) assms(3) show ?thesis by blast
    qed
    with f show ?thesis by (simp add: db_from_def)
  qed
qed

lemma clear_drop_db_from:
  "badger_db B \<Longrightarrow> clear_drop B s = (ok, s') \<Longrightarrow> db_from B Q (st_db s) \<Longrightarrow> db_from B Q (st_db s')"
  by (simp add: db_from_def badger_db.get_drop split: if_splits)

lemma clear_reset_db_from:
  assumes "badger_db B" "clear_reset B now s = (ok, s')" "db_from B Q (st_db s)"
  shows "db_from B Q (st_db s')"
  using assms(3) badger_db.get_reset [OF assms(1,2)] by (auto simp: db_from_def)

text \<open>
  The messages \<open>ps\<close> the loop has handled account for a state: they are in the metrics and the
  frames, in order, and the store holds nothing else; each is a message \<open>R\<close> as the correlator left it.
\<close>

definition store_accounts :: "'db badger \<Rightarrow> message set \<Rightarrow> message list \<Rightarrow> 'db store \<Rightarrow> bool" where
  "store_accounts B Q ps st \<longleftrightarrow>
     set (chan_items (st_queue st)) \<union> set (st_batch st) \<subseteq> set ps \<and> db_from B (Q \<union> stored_forms ps) (st_db st)"

definition correlated :: "message \<Rightarrow> message \<Rightarrow> bool" where
  "correlated m p \<longleftrightarrow> (\<exists>now st. p = fst (Process now m st))"

definition accounts ::
  "(time \<Rightarrow> int) \<Rightarrow> 'db badger \<Rightarrow> message set \<Rightarrow> message set \<Rightarrow> message list \<Rightarrow> 'db system \<Rightarrow> bool"
where
  "accounts zone B Q R ps s \<longleftrightarrow>
     mn_metrics (sy_monitor s) = record_all ps \<and>
     mn_frames (sy_monitor s) = concat (map (frames_of zone) ps) \<and>
     store_accounts B Q ps (sy_store s) \<and> (\<forall>p\<in>set ps. \<exists>m\<in>R. correlated m p) \<and>
     (\<forall>m. Some m \<in> set (chan_items (mn_messages (sy_monitor s))) \<longrightarrow> m \<in> R)"

lemma store_accounts_drain_tick:
  assumes "badger_db B" "store_accounts B Q ps st"
  shows "store_accounts B Q ps (drain_tick B now st)"
proof -
  have "stored_forms (st_batch st) \<subseteq> Q \<union> stored_forms ps"
    using assms(2) stored_forms_mono [of "st_batch st" ps] by (auto simp: store_accounts_def)
  then have "db_from B (Q \<union> stored_forms ps) (st_db (snd (flush B now (st_batch st) st)))"
    using assms(2) by (intro flush_db_from [OF assms(1)]) (simp_all add: store_accounts_def)
  with assms(2) show ?thesis by (simp add: store_accounts_def drain_tick_def)
qed

lemma store_accounts_drain_msg:
  assumes "badger_db B" "store_accounts B Q ps st"
  shows "store_accounts B Q ps (drain_msg B now st)"
proof (cases "recv (st_queue st)")
  case (Some x)
  obtain msg q where x: "x = (msg, q)" by fastforce
  let ?st = "st\<lparr>st_queue := q, st_batch := st_batch st @ [msg]\<rparr>"
  have st: "store_accounts B Q ps ?st"
    using assms(2) gochan.get_Some [OF Some [unfolded x]] by (auto simp: store_accounts_def)
  then have "stored_forms (st_batch ?st) \<subseteq> Q \<union> stored_forms ps"
    using stored_forms_mono [of "st_batch ?st" ps] by (auto simp: store_accounts_def)
  then have "db_from B (Q \<union> stored_forms ps) (st_db (snd (flush B now (st_batch ?st) ?st)))"
    using st by (intro flush_db_from [OF assms(1)]) (simp_all add: store_accounts_def)
  with st show ?thesis by (simp add: drain_msg_def Some x Let_def store_accounts_def)
qed (use assms(2) in \<open>simp add: drain_msg_def\<close>)

lemma store_accounts_more:
  "store_accounts B Q ps st \<Longrightarrow> store_accounts B Q (ps @ [p]) (Insert p st)"
proof -
  assume st: "store_accounts B Q ps st"
  have "stored_forms ps \<subseteq> stored_forms (ps @ [p])" by (rule stored_forms_mono) auto
  then have "Q \<union> stored_forms ps \<subseteq> Q \<union> stored_forms (ps @ [p])" by blast
  moreover have "db_from B (Q \<union> stored_forms ps) (st_db st)" using st by (simp add: store_accounts_def)
  ultimately have "db_from B (Q \<union> stored_forms (ps @ [p])) (st_db st)" using db_from_mono by metis
  moreover have "set (chan_items (try_send p (st_queue st))) \<subseteq> set (chan_items (st_queue st)) \<union> {p}"
    by (auto simp: try_send_def)
  ultimately show ?thesis using st unfolding store_accounts_def Insert_def by auto
qed

lemma store_accounts_clear:
  "store_accounts B Q ps st \<Longrightarrow> store_accounts B Q ps (clear_start st)"
  "badger_db B \<Longrightarrow> clear_drop B st = (ok, st') \<Longrightarrow> store_accounts B Q ps st \<Longrightarrow> store_accounts B Q ps st'"
  "badger_db B \<Longrightarrow> clear_reset B now st = (ok, st') \<Longrightarrow> store_accounts B Q ps st \<Longrightarrow> store_accounts B Q ps st'"
  using clear_drop_db_from [of B st ok st'] clear_reset_db_from [of B now st ok st']
  by (simp_all add: store_accounts_def clear_frame)

lemma accounts_start:
  assumes "db_from B Q (st_db store)" "chan_items (st_queue store) = []" "st_batch store = []"
  shows "accounts zone B Q {} [] (start_system tracing store)"
  using assms
  by (simp add: accounts_def start_system_def start_monitor_def sy_store_def store_accounts_def
      stored_forms_def make_chan_def)

text \<open>The messages reported by the transports in a sequence of events.\<close>

definition reports :: "system_event list \<Rightarrow> message set" where
  "reports evs = {m. LoopEvent (Report (Some m)) \<in> set evs}"

lemma reports_snoc: "reports (evs @ [e]) = reports evs \<union> {m. e = LoopEvent (Report (Some m))}"
  by (auto simp: reports_def)

lemma accounts_mono: "accounts zone B Q R ps s \<Longrightarrow> R \<subseteq> R' \<Longrightarrow> accounts zone B Q R' ps s"
  unfolding accounts_def by blast

lemma accounts_loop:
  assumes acc: "accounts zone B Q R ps s" and step: "loop_step zone (sy_monitor s) e m"
  shows "\<exists>ps'. accounts zone B Q (R \<union> {x. e = Report (Some x)}) ps'
    (s\<lparr>sy_monitor := m, sy_pending := todo\<rparr>)"
proof -
  let ?R = "R \<union> {x. e = Report (Some x)}"
  have queue: "\<forall>x. Some x \<in> set (chan_items (mn_messages m)) \<longrightarrow> x \<in> ?R"
    using loop_step_queue(3) [OF step] acc by (auto simp: accounts_def)
  from loop_step_effect [OF step] show ?thesis
  proof (elim disjE exE conjE)
    fix now msg p corr
    assume h: "Some msg \<in> set (chan_items (mn_messages (sy_monitor s)))"
      "Process now msg (mn_correlator (sy_monitor s)) = (p, corr)"
      "mn_frames m = mn_frames (sy_monitor s) @ frames_of zone p"
      "mn_metrics m = mn_metrics (sy_monitor s) @ RecordMetrics (Some p)"
      "mn_store m = Insert p (mn_store (sy_monitor s))"
    have "correlated msg p" using h(2) unfolding correlated_def by (metis fst_conv)
    moreover have "msg \<in> R" using acc h(1) by (simp add: accounts_def)
    ultimately have "accounts zone B Q ?R (ps @ [p]) (s\<lparr>sy_monitor := m, sy_pending := todo\<rparr>)"
      using acc h queue store_accounts_more [of B Q ps "mn_store (sy_monitor s)" p]
      by (auto simp: accounts_def sy_store_def record_all_def)
    then show ?thesis by blast
  next
    assume "mn_frames m = mn_frames (sy_monitor s)" "mn_metrics m = mn_metrics (sy_monitor s)"
      "mn_store m = mn_store (sy_monitor s)"
    then have "accounts zone B Q ?R ps (s\<lparr>sy_monitor := m, sy_pending := todo\<rparr>)"
      using acc queue by (auto simp: accounts_def sy_store_def)
    then show ?thesis by blast
  qed
qed

lemma accounts_frame:
  "accounts zone B Q R ps s \<Longrightarrow> store_accounts B Q ps (sy_store s') \<Longrightarrow>
     mn_metrics (sy_monitor s') = mn_metrics (sy_monitor s) \<Longrightarrow>
     mn_frames (sy_monitor s') = mn_frames (sy_monitor s) \<Longrightarrow>
     mn_messages (sy_monitor s') = mn_messages (sy_monitor s) \<Longrightarrow> accounts zone B Q R ps s'"
  by (simp add: accounts_def)

lemma system_step_accounts:
  assumes "badger_db B" "system_step zone B srv s e s'" "accounts zone B Q R ps s"
  shows "\<exists>ps'. accounts zone B Q (R \<union> {m. e = LoopEvent (Report (Some m))}) ps' s'"
proof -
  have st: "store_accounts B Q ps (sy_store s)" using assms(3) by (simp add: accounts_def)
  have keep: ?thesis if "accounts zone B Q R ps s'" using accounts_mono [OF that] by blast
  from assms(2) show ?thesis
  proof (cases rule: system_step.cases)
    case (loop le m)
    show ?thesis
      using accounts_loop [OF assms(3) loop(3)] by (simp add: loop(1,2))
  next
    case (cast p ps' h)
    show ?thesis by (rule keep, rule accounts_frame [OF assms(3)]) (use cast st in \<open>simp_all\<close>)
  next
    case (hub he h)
    show ?thesis by (rule keep, rule accounts_frame [OF assms(3)]) (use hub st in \<open>simp_all\<close>)
  next
    case (drain_msg now)
    show ?thesis
      by (rule keep, rule accounts_frame [OF assms(3)])
        (use drain_msg store_accounts_drain_msg [OF assms(1) st] in \<open>simp_all\<close>)
  next
    case (drain_tick now)
    show ?thesis
      by (rule keep, rule accounts_frame [OF assms(3)])
        (use drain_tick store_accounts_drain_tick [OF assms(1) st] in \<open>simp_all\<close>)
  next
    case (request r env resp st' ws)
    then have "st' = sy_store s" using serve_keeps [of srv r env B "sy_store s"] by simp
    with st show ?thesis by (intro keep accounts_frame [OF assms(3)]) (use request in \<open>simp_all\<close>)
  next
    case (clear_starts r)
    show ?thesis
      by (rule keep, rule accounts_frame [OF assms(3)])
        (use clear_starts store_accounts_clear(1) [OF st] in \<open>simp_all\<close>)
  next
    case (clear_drops n ok st')
    show ?thesis
      by (rule keep, rule accounts_frame [OF assms(3)])
        (use clear_drops store_accounts_clear(2) [OF assms(1) _ st] in \<open>simp_all\<close>)
  next
    case (clear_resets n now ok st')
    show ?thesis
      by (rule keep, rule accounts_frame [OF assms(3)])
        (use clear_resets store_accounts_clear(3) [OF assms(1) _ st] in \<open>simp_all\<close>)
  qed
qed

lemma system_run_accounts:
  "system_run zone B srv s evs s' \<Longrightarrow> badger_db B \<Longrightarrow> accounts zone B Q {} [] s \<Longrightarrow>
     \<exists>ps. accounts zone B Q (reports evs) ps s'"
proof (induction rule: system_run.induct)
  case (start s)
  then show ?case by (auto simp: reports_def)
next
  case (step s evs s' e s'')
  then obtain ps where "accounts zone B Q (reports evs) ps s'" by blast
  from system_step_accounts [OF step.prems(1) step.hyps(2) this] show ?case by (simp add: reports_snoc)
qed

section \<open>What the hub sees\<close>

lemma loop_step_frames: "loop_step zone m e m' \<Longrightarrow> \<exists>fs. mn_frames m' = mn_frames m @ fs"
  using loop_step_effect [of zone m e m'] by auto

lemma serve_denied: "\<not> authorized srv r \<Longrightarrow> snd (serve env B srv r st) = (st, False)"
  using serve_unauthorized [of srv r env] by (metis snd_conv)

lemma serve_opens: "snd (snd (serve env B srv r st)) \<Longrightarrow> authorized srv r"
  using serve_denied [of srv r env B st] by (cases "authorized srv r") simp_all

text \<open>The payloads a state still has to broadcast, compared with an earlier state.\<close>

lemma system_step_hub:
  assumes "system_step zone B srv s e s'"
  shows "\<exists>hevs fs. hub_run (sy_hub s) hevs (sy_hub s') \<and> set hevs \<subseteq> insert Connect {x. e = HubEvent x} \<and>
    mn_frames (sy_monitor s') = mn_frames (sy_monitor s) @ fs \<and> casts hevs @ sy_pending s' = sy_pending s @ fs"
proof -
  have one: "hub_run h [x] h'" if "hub_step h x h'" for h x h'
    using hub_run_cons [OF that hub_run.start] .
  show ?thesis
    using assms
  proof (cases rule: system_step.cases)
    case (loop le m)
    then obtain fs where fs: "mn_frames m = mn_frames (sy_monitor s) @ fs" using loop_step_frames by blast
    show ?thesis
      by (intro exI [of _ "[]"] exI [of _ fs]) (simp add: loop(2) fs hub_run.start)
  next
    case (cast p ps h)
    show ?thesis
      by (intro exI [of _ "[Cast p]"] exI [of _ "[]"]) (simp add: cast one)
  next
    case (hub x h)
    show ?thesis
      by (intro exI [of _ "[x]"] exI [of _ "[]"])
        (use hub in \<open>simp add: one own_hub_event_def split: hub_event.splits\<close>)
  next
    case (request r env resp st ws)
    show ?thesis
    proof (cases ws)
      case True
      then have "hub_step (sy_hub s) Connect (Register (sy_hub s))"
        using request(5) by (simp add: hub_step.connect)
      with True request(2) show ?thesis
        by (intro exI [of _ "[Connect]"] exI [of _ "[]"]) (simp add: one)
    next
      case False
      with request(2) show ?thesis
        by (intro exI [of _ "[]"]) (simp add: hub_run.start)
    qed
  qed (auto intro!: exI [of _ "[]"] simp: hub_run.start)
qed

lemma system_run_hub:
  "system_run zone B srv s evs s' \<Longrightarrow>
     \<exists>hevs fs. hub_run (sy_hub s) hevs (sy_hub s') \<and> set hevs \<subseteq> insert Connect {x. HubEvent x \<in> set evs} \<and>
       mn_frames (sy_monitor s') = mn_frames (sy_monitor s) @ fs \<and> casts hevs @ sy_pending s' = sy_pending s @ fs"
proof (induction rule: system_run.induct)
  case (start s)
  show ?case by (intro exI [of _ "[]"]) (simp add: hub_run.start)
next
  case (step s evs s' e s'')
  then obtain hevs fs where 1: "hub_run (sy_hub s) hevs (sy_hub s')"
    "set hevs \<subseteq> insert Connect {x. HubEvent x \<in> set evs}"
    "mn_frames (sy_monitor s') = mn_frames (sy_monitor s) @ fs" "casts hevs @ sy_pending s' = sy_pending s @ fs"
    by blast
  obtain hevs' fs' where 2: "hub_run (sy_hub s') hevs' (sy_hub s'')"
    "set hevs' \<subseteq> insert Connect {x. e = HubEvent x}"
    "mn_frames (sy_monitor s'') = mn_frames (sy_monitor s') @ fs'" "casts hevs' @ sy_pending s'' = sy_pending s' @ fs'"
    using system_step_hub [OF step.hyps(2)] by blast
  show ?case
  proof (intro exI [of _ "hevs @ hevs'"] exI [of _ "fs @ fs'"] conjI)
    show "casts (hevs @ hevs') @ sy_pending s'' = sy_pending s @ fs @ fs'"
    proof -
      have "casts (hevs @ hevs') @ sy_pending s'' = casts hevs @ (casts hevs' @ sy_pending s'')" by simp
      also have "\<dots> = (casts hevs @ sy_pending s') @ fs'" by (simp only: 2(4) append_assoc)
      finally show ?thesis by (simp only: 1(4) append_assoc)
    qed
    show "set (hevs @ hevs') \<subseteq> insert Connect {x. HubEvent x \<in> set (evs @ [e])}"
      using 1(2) 2(2) by auto
  qed (use hub_run_trans [OF 1(1) 2(1)] 1(3) 2(3) in simp_all)
qed

section \<open>Properties\<close>


text \<open>
  C3. All outputs tell the same story: in every state the running program can reach, there is one
  sequence of messages such that the metrics have recorded exactly these, the frames for the
  dashboards are exactly their texts, in order, and whatever a query returns was in the database
  at the start or is one of them under some number. Each of them is a message that a transport
  reported, as the correlator left it. No interleaving with the drain goroutine, the dashboards or
  a request to clear the store changes this.
\<close>

theorem system_agreement:
  assumes "badger_db B" "store_inv B store" "db_from B Q (st_db store)" "chan_items (st_queue store) = []"
    and "st_batch store = []" "system_run zone B srv (start_system tracing store) evs s"
  shows "\<exists>ps. mn_metrics (sy_monitor s) = record_all ps \<and>
    mn_frames (sy_monitor s) = concat (map (frames_of zone) ps) \<and>
    (\<forall>t m. m \<in> set (QueryAll B t (sy_store s)) \<longrightarrow>
       m \<in> Q \<or> (\<exists>p\<in>set ps. \<exists>i. m = message_utf8 (p\<lparr>ID := i\<rparr>))) \<and>
    (\<forall>p\<in>set ps. \<exists>m. LoopEvent (Report (Some m)) \<in> set evs \<and> correlated m p)"
proof -
  obtain ps where acc: "accounts zone B Q (reports evs) ps s"
    using system_run_accounts [OF assms(6,1) accounts_start [OF assms(3-5)]] by blast
  have inv: "db_inv B (st_db (sy_store s))"
    using system_run_inv [OF assms(6,1) start_system_inv [OF assms(2)]]
    by (simp add: system_inv_def store_inv_def)
  have "m \<in> Q \<union> stored_forms ps" if "m \<in> set (QueryAll B t (sy_store s))" for t m
  proof -
    from that obtain k where "HasPrefix k msg_prefix" "bg_get B t (st_db (sy_store s)) k = Found (StoredMsg m)"
      using badger_db.QueryAll_iff [OF assms(1) inv] by blast
    then show ?thesis using acc by (fastforce simp: accounts_def store_accounts_def db_from_def)
  qed
  then show ?thesis
    using acc by (intro exI [of _ ps]) (auto simp: accounts_def reports_def stored_forms_def)
qed

text \<open>
  C6. A dashboard gets what happens while it is connected: its request carried the credentials, and
  from then on what has been written to its connection, is being written, is queued for it or is
  still to be offered to it are exactly the frames of the messages handled since, each once and
  in order, as long as it stays registered and can be written to. In any case it gets nothing else.
\<close>

theorem system_delivers:
  assumes "system_run zone B srv (start_system tracing store) before s1"
    and "system_step zone B srv s1 (HttpRequest env r) s2" "c = hub_next (sy_hub s1)"
    and "hub_next (sy_hub s2) = Suc c" "system_run zone B srv s2 after s"
  shows "authorized srv r \<and>
    (let live = sy_pending s1 @ drop (length (mn_frames (sy_monitor s1))) (mn_frames (sy_monitor s)) in
     \<exists>cl. hub_heap (sy_hub s) c = Some cl \<and> subseq (stream cl) live \<and>
       (c \<in> hub_clients (sy_hub s) \<and> c \<notin> set (hub_unregister (sy_hub s)) \<and>
          HubEvent (PumpWrite c False) \<notin> set after \<longrightarrow>
        stream cl @ owed c (sy_hub s) @ sy_pending s = live))"
proof -
  from assms(2) have opened: "authorized srv r \<and> hub_step (sy_hub s1) Connect (sy_hub s2) \<and>
      sy_pending s2 = sy_pending s1 \<and> mn_frames (sy_monitor s2) = mn_frames (sy_monitor s1)"
  proof (cases rule: system_step.cases)
    case (request resp st ws)
    with assms(3,4) have ws by (cases ws) simp_all
    with request show ?thesis
      using serve_opens [of env B srv r "sy_store s1"] by (simp add: hub_step.connect)
  qed
  have "hub_inv (sy_hub s1)"
    using system_run_hub [OF assms(1)] hub_run_inv NewHub_inv by (auto simp: start_system_def)
  then have fresh: "fresh c (sy_hub s2)" using connect_fresh opened assms(3) by blast
  obtain hevs fs where h: "hub_run (sy_hub s2) hevs (sy_hub s)"
    "set hevs \<subseteq> insert Connect {x. HubEvent x \<in> set after}"
    "mn_frames (sy_monitor s) = mn_frames (sy_monitor s2) @ fs" "casts hevs @ sy_pending s = sy_pending s2 @ fs"
    using system_run_hub [OF assms(5)] by blast
  let ?live = "sy_pending s1 @ drop (length (mn_frames (sy_monitor s1))) (mn_frames (sy_monitor s))"
  have live: "?live = casts hevs @ sy_pending s" using h(3,4) opened by simp
  obtain cl where cl: "hub_heap (sy_hub s) c = Some cl" "subseq (stream cl) (offered c hevs)"
    "subseq (offered c hevs @ owed c (sy_hub s)) (casts hevs)"
    "c \<in> hub_clients (sy_hub s) \<longrightarrow> offered c hevs @ owed c (sy_hub s) = casts hevs \<and>
      (PumpWrite c False \<notin> set hevs \<and> c \<notin> set (hub_unregister (sy_hub s)) \<longrightarrow> stream cl = offered c hevs)"
    using run_stream [OF h(1) fresh] by blast
  have "subseq (offered c hevs) (casts hevs)"
    by (rule subseq_order.order_trans [OF list_emb_prefix [OF subseq_order.order_refl] cl(3)])
  from list_emb_prefix [OF subseq_order.order_trans [OF cl(2) this]]
  have "subseq (stream cl) (casts hevs @ sy_pending s)" .
  moreover have "stream cl @ owed c (sy_hub s) @ sy_pending s = casts hevs @ sy_pending s"
    if "c \<in> hub_clients (sy_hub s)" "c \<notin> set (hub_unregister (sy_hub s))" "HubEvent (PumpWrite c False) \<notin> set after"
  proof -
    have "PumpWrite c False \<notin> set hevs" using h(2) that(3) by auto
    with cl(4) that(1,2) show ?thesis by (metis append_assoc)
  qed
  ultimately show ?thesis using opened cl(1) unfolding live Let_def by blast
qed

definition is_request :: "system_event \<Rightarrow> bool" where
  "is_request e = (case e of HttpRequest env r \<Rightarrow> True | ClearStarts r \<Rightarrow> True | _ \<Rightarrow> False)"

text \<open>
  C11. Without the credentials nobody influences the program: a run in which no request is
  authorized ends in the same state as the run without these requests.
\<close>

theorem system_guarded:
  assumes "system_run zone B srv s evs s'"
    and "\<forall>r. (\<exists>env. HttpRequest env r \<in> set evs) \<or> ClearStarts r \<in> set evs \<longrightarrow> \<not> authorized srv r"
  shows "system_run zone B srv s (filter (\<lambda>e. \<not> is_request e) evs) s'"
  using assms
proof (induction rule: system_run.induct)
  case (start s)
  show ?case by (simp add: system_run.start)
next
  case (step s evs s' e s'')
  then have run: "system_run zone B srv s (filter (\<lambda>e. \<not> is_request e) evs) s'" by auto
  show ?case
  proof (cases "is_request e")
    case False
    then show ?thesis using system_run.step [OF run step.hyps(2)] by simp
  next
    case True
    from step.hyps(2) have "s'' = s'"
    proof (cases rule: system_step.cases)
      case (request r env resp st ws)
      then have "\<not> authorized srv r" using step.prems by auto
      from serve_denied [OF this, of env B "sy_store s'"] request(4) have "st = sy_store s'" "\<not> ws" by simp_all
      with request(2) show ?thesis by simp
    next
      case (clear_starts r)
      then show ?thesis using step.prems by (auto simp: clears_def)
    qed (use True in \<open>simp_all add: is_request_def\<close>)
    with run True show ?thesis by simp
  qed
qed

section \<open>Examples\<close>

text \<open>A dashboard signs in, a request is reported and handled, and the drain goroutine writes it.\<close>

definition example_system :: "memory system" where
  "example_system = start_system False (make_store [] 0)"

definition watched_system :: "memory system" where
  "watched_system = example_system\<lparr>sy_hub := Register NewHub\<rparr>"

definition example_turn :: "system_event list" where
  "example_turn = [LoopEvent (Report (Some example_request)), LoopEvent (MessageReady 5)]"

lemma example_signs_in:
  "system_step (\<lambda>t. 0) memory_badger example_server example_system
     (HttpRequest example_env (signed_in ''GET'' ''/ws'')) watched_system"
proof -
  have "mux_route mux_patterns ''GET'' ''/ws'' = Pattern ''/ws''" by code_simp
  then have ws: "serve example_env memory_badger example_server (signed_in ''GET'' ''/ws'') (sy_store example_system) =
      (\<lparr>rs_status = 101, rs_header = [], rs_body = []\<rparr>, sy_store example_system, True)"
    by (simp add: serve_def mux_handler_def basicAuth_cases handleWebSocket_def example_env_def)
  have "\<not> clears example_server (signed_in ''GET'' ''/ws'')" by (simp add: clears_def)
  from system_step.request [OF this ws] show ?thesis
    by (simp add: watched_system_def) (simp add: example_system_def start_system_def NewHub_def)
qed

lemma example_handles:
  assumes "mn_messages (sy_monitor s) = make_chan 1000" "\<not> mn_returned (sy_monitor s)" "at_select s"
  shows "\<exists>s'. system_run zone B srv s example_turn s'"
proof -
  let ?m = "(sy_monitor s)\<lparr>mn_messages := \<lparr>chan_cap = 1000, chan_items = [Some example_request]\<rparr>\<rparr>"
  let ?s = "s\<lparr>sy_monitor := ?m\<rparr>"
  have "loop_step zone (sy_monitor s) (Report (Some example_request)) ?m"
    using assms(1) by (simp add: loop_step_simps try_send_def chan_has_room_def make_chan_def)
  from system_step.loop [where s = s, OF this] have 1:
    "system_step zone B srv s (LoopEvent (Report (Some example_request))) ?s"
    by (simp add: in_background_def)
  have "recv (mn_messages ?m) = Some (Some example_request, \<lparr>chan_cap = 1000, chan_items = []\<rparr>)"
    by (simp add: recv_def)
  from loop_step.message [OF _ this, of zone 5] assms(2) obtain m where
    "loop_step zone (sy_monitor ?s) (MessageReady 5) m" by auto
  moreover have "at_select ?s" using assms(3) by (simp add: at_select_def)
  ultimately obtain s' where 2: "system_step zone B srv ?s (LoopEvent (MessageReady 5)) s'"
    using system_step.loop by blast
  from system_run.step [OF system_run.step [OF system_run.start 1] 2] show ?thesis
    unfolding example_turn_def by auto
qed

lemma example_system_simps [simp]:
  "mn_messages (sy_monitor example_system) = make_chan 1000" "\<not> mn_returned (sy_monitor example_system)"
  "at_select example_system" "store_inv memory_badger (make_store [] 0)"
  by (simp_all add: example_system_def start_system_def start_monitor_def at_select_def NewHub_def store_inv_def
      make_store_def make_chan_def db_inv_def memory_get_def)

lemma example_system_run: "\<exists>s. system_run (\<lambda>t. 0) memory_badger example_server example_system (example_turn @ [DrainMsg 6, DrainTick 7]) s"
proof -
  obtain s where "system_run (\<lambda>t. 0) memory_badger example_server example_system example_turn s"
    using example_handles by (metis example_system_simps(1-3))
  from system_run.step [OF system_run.step [OF this system_step.drain_msg] system_step.drain_tick]
  show ?thesis by auto
qed


lemma system_agreement_witness:
  "\<exists>s ps. system_run (\<lambda>t. 0) memory_badger example_server (start_system False (make_store [] 0))
       (example_turn @ [DrainMsg 6, DrainTick 7]) s \<and> mn_metrics (sy_monitor s) = record_all ps \<and>
     mn_frames (sy_monitor s) = concat (map (frames_of (\<lambda>t. 0)) ps)"
proof -
  have "db_from memory_badger {} (st_db (make_store ([] :: memory) 0))"
    by (simp add: db_from_def make_store_def memory_badger_def memory_get_def)
  moreover have "chan_items (st_queue (make_store ([] :: memory) 0)) = []" "st_batch (make_store ([] :: memory) 0) = []"
    by (simp_all add: make_store_def make_chan_def)
  ultimately show ?thesis
    using example_system_run system_agreement [OF memory.badger_db_axioms example_system_simps(4)]
    unfolding example_system_def by blast
qed

lemma system_delivers_witness:
  "\<exists>s cl. system_run (\<lambda>t. 0) memory_badger example_server watched_system example_turn s \<and>
     hub_heap (sy_hub s) 0 = Some cl \<and> subseq (stream cl) (mn_frames (sy_monitor s))"
proof -
  have "mn_messages (sy_monitor watched_system) = make_chan 1000" "\<not> mn_returned (sy_monitor watched_system)"
    "at_select watched_system"
    using example_system_simps by (simp_all add: watched_system_def at_select_def Register_def NewHub_def)
  from example_handles [OF this] obtain s where s:
    "system_run (\<lambda>t. 0) memory_badger example_server watched_system example_turn s" by blast
  have start: "sy_pending example_system = []" "mn_frames (sy_monitor example_system) = []"
    "hub_next (sy_hub example_system) = 0" "hub_next (sy_hub watched_system) = Suc 0"
    by (simp_all add: example_system_def watched_system_def start_system_def start_monitor_def NewHub_def Register_def)
  show ?thesis
    using system_delivers [OF system_run.start example_signs_in [unfolded example_system_def], where c = 0 and s = s, OF _ _ s]
      start s unfolding example_system_def [symmetric] by (auto simp: Let_def)
qed

lemma system_guarded_witness:
  "\<exists>s. system_run (\<lambda>t. 0) memory_badger example_server example_system
       [HttpRequest example_env anonymous, LoopEvent Interrupted] s \<and>
     system_run (\<lambda>t. 0) memory_badger example_server example_system [LoopEvent Interrupted] s"
proof -
  have no: "\<not> authorized example_server anonymous"
    by (simp add: authorized_def example_server_def SetAuth_def NewServer_def anonymous_def BasicAuth_def)
  then obtain resp where resp: "serve example_env memory_badger example_server anonymous (sy_store example_system) =
      (resp, sy_store example_system, False)" using serve_unauthorized by metis
  have "\<not> clears example_server anonymous" using no by (simp add: clears_def)
  from system_step.request [OF this resp] have 1: "\<exists>s'. system_step (\<lambda>t. 0) memory_badger example_server example_system
      (HttpRequest example_env anonymous) s'" by blast
  have "in_background Interrupted" by (simp add: in_background_def)
  with system_step.loop [OF loop_step.interrupted] have 2:
    "\<exists>s''. system_step (\<lambda>t. 0) memory_badger example_server s' (LoopEvent Interrupted) s''" for s' by blast
  from 1 2 obtain s where "system_run (\<lambda>t. 0) memory_badger example_server example_system
      ([] @ [HttpRequest example_env anonymous] @ [LoopEvent Interrupted]) s"
    by (metis append_Nil append_Cons system_run.start system_run.step)
  then have run: "system_run (\<lambda>t. 0) memory_badger example_server example_system
      [HttpRequest example_env anonymous, LoopEvent Interrupted] s" by simp
  from system_guarded [OF run] run no show ?thesis by (auto simp: is_request_def)
qed

end
