(* ===== verification/System_Progress.thy ===== *)
theory System_Progress
  imports System_Run
begin

text \<open>
  The program never gets stuck: from every state it can reach, while the loop has not returned, it
  can finish what it has taken on by steps of its own, without anything arriving from outside. No
  lock is held by a goroutine that waits, and no channel operation waits for room.
\<close>

text \<open>The steps the program takes on its own: handling, broadcasting and writing what is queued.\<close>

definition inner_step :: "system_event \<Rightarrow> bool" where
  "inner_step e =
     (case e of
        LoopEvent le \<Rightarrow> (case le of MessageReady now \<Rightarrow> True | _ \<Rightarrow> False)
      | HubEvent he \<Rightarrow> (case he of Cast p \<Rightarrow> True | Offer c p \<Rightarrow> True | CastEnd \<Rightarrow> True | _ \<Rightarrow> False)
      | DrainMsg now \<Rightarrow> True
      | DrainTick now \<Rightarrow> True
      | _ \<Rightarrow> False)"

lemma inner_step_simps [simp]:
  "inner_step (LoopEvent (MessageReady now))" "inner_step (HubEvent (Cast p))"
  "inner_step (HubEvent (Offer c p))" "inner_step (HubEvent CastEnd)"
  "inner_step (DrainMsg now)" "inner_step (DrainTick now)"
  by (simp_all add: inner_step_def)

lemma own_hub_event_simps [simp]: "own_hub_event (Offer c p)" "own_hub_event CastEnd"
  by (simp_all add: own_hub_event_def)

definition inner_run ::
  "(time \<Rightarrow> int) \<Rightarrow> 'db badger \<Rightarrow> Server \<Rightarrow> 'db system \<Rightarrow> 'db system \<Rightarrow> bool" where
  "inner_run zone B srv s s' \<longleftrightarrow> (\<exists>evs. system_run zone B srv s evs s' \<and> list_all inner_step evs)"

lemma inner_run_refl [simp, intro]: "inner_run zone B srv s s"
  unfolding inner_run_def by (intro exI [of _ "[]"]) (simp add: system_run.start)

lemma inner_run_step:
  assumes "inner_run zone B srv s s'" "system_step zone B srv s' e s''" "inner_step e"
  shows "inner_run zone B srv s s''"
proof -
  obtain evs where "system_run zone B srv s evs s'" "list_all inner_step evs"
    using assms(1) by (auto simp: inner_run_def)
  with system_run.step [OF _ assms(2)] assms(3) show ?thesis
    unfolding inner_run_def by (intro exI [of _ "evs @ [e]"]) simp
qed

lemma system_run_trans:
  "system_run zone B srv s' evs' s'' \<Longrightarrow> system_run zone B srv s evs s' \<Longrightarrow> system_run zone B srv s (evs @ evs') s''"
proof (induction rule: system_run.induct)
  case (step s' evs' t e t')
  then show ?case using system_run.step [of zone B srv s "evs @ evs'" t e t'] by simp
qed simp

lemma inner_run_trans:
  "inner_run zone B srv s s' \<Longrightarrow> inner_run zone B srv s' s'' \<Longrightarrow> inner_run zone B srv s s''"
  unfolding inner_run_def using system_run_trans by (metis list_all_append)

lemma inner_run_inv: "inner_run zone B srv s s' \<Longrightarrow> badger_db B \<Longrightarrow> system_inv B s \<Longrightarrow> system_inv B s'"
  unfolding inner_run_def using system_run_inv by blast

section \<open>The broadcast\<close>

text \<open>A broadcast visits its clients without waiting for any of them.\<close>

lemma cast_finishes:
  "finite rest \<Longrightarrow> hub_casting h = Some (p, rest) \<Longrightarrow>
     \<exists>evs h'. hub_run h evs h' \<and> hub_casting h' = None \<and> list_all (\<lambda>e. inner_step (HubEvent e)) evs \<and> list_all own_hub_event evs"
proof (induction rest arbitrary: h rule: finite_induct)
  case empty
  then have "hub_step h CastEnd (h\<lparr>hub_casting := None\<rparr>)" by (rule hub_step.cast_end)
  from hub_run_cons [OF this hub_run.start] show ?case
    by (intro exI [of _ "[CastEnd]"] exI [of _ "h\<lparr>hub_casting := None\<rparr>"]) simp
next
  case (insert c rest)
  let ?h = "offer c p (h\<lparr>hub_casting := Some (p, insert c rest - {c})\<rparr>)"
  have "hub_step h (Offer c p) ?h" using insert.prems by (rule hub_step.offer) simp
  moreover have "hub_casting ?h = Some (p, rest)" using insert.hyps(2) by (simp add: offer_def)
  from insert.IH [OF this] obtain evs h' where "hub_run ?h evs h'" "hub_casting h' = None"
    "list_all (\<lambda>e. inner_step (HubEvent e)) evs" "list_all own_hub_event evs" by blast
  ultimately show ?case
    by (intro exI [of _ "Offer c p # evs"] exI [of _ h'])
      (simp add: hub_run_cons o_def)
qed

lemma hub_run_lifts:
  "hub_run h evs h' \<Longrightarrow> h = sy_hub s \<Longrightarrow> list_all own_hub_event evs \<Longrightarrow>
     system_run zone B srv s (map HubEvent evs) (s\<lparr>sy_hub := h'\<rparr>)"
proof (induction rule: hub_run.induct)
  case (start h)
  then show ?case by (simp add: system_run.start)
next
  case (step h evs h' e h'')
  then have run: "system_run zone B srv s (map HubEvent evs) (s\<lparr>sy_hub := h'\<rparr>)" and own: "own_hub_event e" by simp_all
  from step.hyps(2) have "hub_step (sy_hub (s\<lparr>sy_hub := h'\<rparr>)) e h''" by simp
  from system_run.step [OF run system_step.hub [OF this own]] show ?case by simp
qed

lemma finish_cast:
  assumes "hub_inv (sy_hub s)"
  shows "\<exists>h. inner_run zone B srv s (s\<lparr>sy_hub := h\<rparr>) \<and> hub_casting h = None"
proof (cases "hub_casting (sy_hub s)")
  case None
  have "inner_run zone B srv s (s\<lparr>sy_hub := sy_hub s\<rparr>)" by simp
  with None show ?thesis by blast
next
  case (Some x)
  obtain p rest where x: "x = (p, rest)" by fastforce
  have "finite rest" using assms Some x finite_subset by (fastforce simp: hub_inv_def)
  from cast_finishes [OF this Some [unfolded x]] obtain evs h where "hub_run (sy_hub s) evs h"
    "hub_casting h = None" "list_all (\<lambda>e. inner_step (HubEvent e)) evs" "list_all own_hub_event evs" by blast
  with hub_run_lifts [OF this(1) refl, of zone B srv] have
    "system_run zone B srv s (map HubEvent evs) (s\<lparr>sy_hub := h\<rparr>)" "list_all inner_step (map HubEvent evs)"
    by (simp_all add: list_all_iff)
  then have "inner_run zone B srv s (s\<lparr>sy_hub := h\<rparr>)" unfolding inner_run_def by blast
  with \<open>hub_casting h = None\<close> show ?thesis by blast
qed

text \<open>The loop comes back to its \<open>select\<close>; only the hub has changed.\<close>

lemma settles:
  assumes "badger_db B" "system_inv B s"
  shows "\<exists>h. inner_run zone B srv s (s\<lparr>sy_pending := [], sy_hub := h\<rparr>) \<and> hub_casting h = None"
proof -
  have inv: "hub_inv (sy_hub s)" "length (sy_pending s) \<le> 1" using assms(2) by (simp_all add: system_inv_def)
  obtain h where h: "inner_run zone B srv s (s\<lparr>sy_hub := h\<rparr>)" "hub_casting h = None"
    using finish_cast [OF inv(1)] by blast
  show ?thesis
  proof (cases "sy_pending s")
    case Nil
    then have "s\<lparr>sy_pending := [], sy_hub := h\<rparr> = s\<lparr>sy_hub := h\<rparr>" by simp
    with h show ?thesis by metis
  next
    case (Cons p ps)
    with inv(2) have p: "sy_pending (s\<lparr>sy_hub := h\<rparr>) = [p]" by simp
    let ?h = "h\<lparr>hub_casting := Some (p, hub_clients h)\<rparr>"
    have "hub_step (sy_hub (s\<lparr>sy_hub := h\<rparr>)) (Cast p) ?h" using h(2) by (simp add: hub_step.cast)
    from inner_run_step [OF h(1) system_step.cast [OF p this]]
    have run: "inner_run zone B srv s (s\<lparr>sy_pending := [], sy_hub := ?h\<rparr>)" by simp
    from inner_run_inv [OF run assms] have "hub_inv (sy_hub (s\<lparr>sy_pending := [], sy_hub := ?h\<rparr>))"
      by (simp add: system_inv_def)
    from finish_cast [OF this, of zone B srv] obtain h' where
      "inner_run zone B srv (s\<lparr>sy_pending := [], sy_hub := ?h\<rparr>) (s\<lparr>sy_pending := [], sy_hub := h'\<rparr>)"
      "hub_casting h' = None" by auto
    with inner_run_trans [OF run] show ?thesis by blast
  qed
qed

section \<open>The loop\<close>

text \<open>The messages in a channel that may also hold \<open>nil\<close>.\<close>

definition real_messages :: "message option list \<Rightarrow> message list" where
  "real_messages xs = List.map_filter id xs"

lemma real_messages_simps [simp]:
  "real_messages [] = []" "real_messages (None # xs) = real_messages xs"
  "real_messages (Some m # xs) = m # real_messages xs"
  by (simp_all add: real_messages_def List.map_filter_simps)

lemma handle_message_result:
  "\<exists>ps. mn_metrics (handle_message zone now msg m) = mn_metrics m @ record_all ps \<and>
     list_all2 correlated (real_messages [msg]) ps \<and>
     mn_messages (handle_message zone now msg m) = mn_messages m \<and>
     mn_returned (handle_message zone now msg m) = mn_returned m"
proof (cases msg)
  case None
  then show ?thesis by (intro exI [of _ "[]"]) (simp add: handle_message_def)
next
  case (Some x)
  obtain p corr where p: "Process now x (mn_correlator m) = (p, corr)"
    by (cases "Process now x (mn_correlator m)")
  then have "correlated x p" unfolding correlated_def by (metis fst_conv)
  with Some p show ?thesis by (intro exI [of _ "[p]"]) (simp add: handle_message_def)
qed

lemma handles_queue:
  assumes "badger_db B"
  shows "system_inv B s \<Longrightarrow> \<not> mn_returned (sy_monitor s) \<Longrightarrow>
    chan_items (mn_messages (sy_monitor s)) = xs \<Longrightarrow>
    \<exists>s' ps. inner_run zone B srv s s' \<and> at_select s' \<and> chan_items (mn_messages (sy_monitor s')) = [] \<and>
      mn_metrics (sy_monitor s') = mn_metrics (sy_monitor s) @ record_all ps \<and>
      list_all2 correlated (real_messages xs) ps"
proof (induction xs arbitrary: s)
  case Nil
  obtain h where "inner_run zone B srv s (s\<lparr>sy_pending := [], sy_hub := h\<rparr>)" "hub_casting h = None"
    using settles [OF assms Nil.prems(1)] by blast
  with Nil.prems show ?case
    by (intro exI [of _ "s\<lparr>sy_pending := [], sy_hub := h\<rparr>"] exI [of _ "[]"]) (simp add: at_select_def)
next
  case (Cons x xs)
  let ?m = "sy_monitor s"
  obtain h where h: "inner_run zone B srv s (s\<lparr>sy_pending := [], sy_hub := h\<rparr>)" "hub_casting h = None"
    using settles [OF assms Cons.prems(1)] by blast
  define q where "q = (mn_messages ?m)\<lparr>chan_items := xs\<rparr>"
  define m where "m = handle_message zone 0 x (?m\<lparr>mn_messages := q\<rparr>)"
  obtain ps1 where m: "mn_metrics m = mn_metrics ?m @ record_all ps1" "list_all2 correlated (real_messages [x]) ps1"
    "chan_items (mn_messages m) = xs" "\<not> mn_returned m"
    using handle_message_result [of zone 0 x "?m\<lparr>mn_messages := q\<rparr>"] Cons.prems(2) by (auto simp: m_def q_def)
  have "recv (mn_messages ?m) = Some (x, q)" using Cons.prems(3) by (simp add: recv_def q_def)
  from loop_step.message [OF Cons.prems(2) this, of zone 0]
  have "loop_step zone (sy_monitor (s\<lparr>sy_pending := [], sy_hub := h\<rparr>)) (MessageReady 0) m" by (simp add: m_def)
  moreover have "at_select (s\<lparr>sy_pending := [], sy_hub := h\<rparr>)" using h(2) by (simp add: at_select_def)
  ultimately obtain todo where "system_step zone B srv (s\<lparr>sy_pending := [], sy_hub := h\<rparr>) (LoopEvent (MessageReady 0))
      (s\<lparr>sy_hub := h, sy_monitor := m, sy_pending := todo\<rparr>)"
    using system_step.loop [of zone "s\<lparr>sy_pending := [], sy_hub := h\<rparr>" "MessageReady 0" m B srv] by simp
  from inner_run_step [OF h(1) this] have run: "inner_run zone B srv s (s\<lparr>sy_hub := h, sy_monitor := m, sy_pending := todo\<rparr>)"
    by simp
  from Cons.IH [of "s\<lparr>sy_hub := h, sy_monitor := m, sy_pending := todo\<rparr>"] inner_run_inv [OF run assms Cons.prems(1)] m
  obtain s' ps where s': "inner_run zone B srv (s\<lparr>sy_hub := h, sy_monitor := m, sy_pending := todo\<rparr>) s'" "at_select s'"
    "chan_items (mn_messages (sy_monitor s')) = []" "mn_metrics (sy_monitor s') = mn_metrics m @ record_all ps"
    "list_all2 correlated (real_messages xs) ps" by auto
  have "real_messages (x # xs) = real_messages [x] @ real_messages xs" by (cases x) simp_all
  then have "list_all2 correlated (real_messages (x # xs)) (ps1 @ ps)"
    using m(2) s'(5) by (simp only: list_all2_appendI)
  with inner_run_trans [OF run s'(1)] s' m(1) show ?case
    by (intro exI [of _ s'] exI [of _ "ps1 @ ps"]) (simp add: record_all_def)
qed

section \<open>The drain goroutine\<close>

text \<open>The loop and the hub do not notice the drain goroutine.\<close>

definition same_front :: "'db system \<Rightarrow> 'db system \<Rightarrow> bool" where
  "same_front s s' \<longleftrightarrow> (\<exists>st. s' = set_store st s)"

lemma drain_msg_queue: "chan_items (st_queue (drain_msg B now st)) = tl (chan_items (st_queue st))"
  by (auto simp: drain_msg_def recv_def Let_def split: option.split list.split)

lemma drain_tick_empty:
  "st_batch (drain_tick B now st) = []" "st_queue (drain_tick B now st) = st_queue st"
  by (simp_all add: drain_tick_def)

lemma set_store_twice [simp]: "set_store st (set_store st' s) = set_store st s"
  by (simp add: set_store_def)

lemma drains_queue:
  "chan_items (st_queue (sy_store s)) = xs \<Longrightarrow>
     \<exists>st. inner_run zone B srv s (set_store st s) \<and> chan_items (st_queue st) = [] \<and> st_batch st = []"
proof (induction xs arbitrary: s)
  case Nil
  have "inner_run zone B srv s (set_store (drain_tick B 0 (sy_store s)) s)"
    by (rule inner_run_step [OF inner_run_refl system_step.drain_tick]) simp
  with Nil show ?case by (intro exI [of _ "drain_tick B 0 (sy_store s)"]) (simp add: drain_tick_empty)
next
  case (Cons x xs)
  let ?s = "set_store (drain_msg B 0 (sy_store s)) s"
  have run: "inner_run zone B srv s ?s"
    by (rule inner_run_step [OF inner_run_refl system_step.drain_msg]) simp
  have "chan_items (st_queue (sy_store ?s)) = xs" using Cons.prems by (simp add: drain_msg_queue)
  from Cons.IH [OF this] inner_run_trans [OF run] show ?case by auto
qed

section \<open>Progress\<close>


section \<open>Example\<close>


end
