(* ===== verification/Main_Flags.thy ===== *)
theory Main_Flags
  imports Main_Config
begin

text \<open>
  The command line of \<open>main.go\<close>: the flags it defines and what the standard library's
  \<open>flag.Parse\<close> makes of the arguments, including \<open>flag.Visit\<close>, the set of flags that were
  given. Only \<open>strconv.ParseFloat\<close>, which one flag uses, is an argument.
\<close>

section \<open>\<open>strconv\<close>\<close>

text \<open>\<open>strconv.ParseInt(s, 0, 64)\<close>: the base is that of a Go literal.\<close>

definition base_of :: "bytes \<Rightarrow> int \<times> bytes" where
  "base_of s =
     (if take 1 s = ''0'' then
        (let c = map ascii_lower (take 1 (drop 1 s)) in
         if 3 \<le> length s \<and> c = ''b'' then (2, drop 2 s)
         else if 3 \<le> length s \<and> c = ''o'' then (8, drop 2 s)
         else if 3 \<le> length s \<and> c = ''x'' then (16, drop 2 s)
         else (8, drop 1 s))
      else (10, s))"

definition letter_digit :: "char \<Rightarrow> int option" where
  "letter_digit c =
     (if is_digit c then Some (digit_val c)
      else let n = of_char (ascii_lower c) in if 97 \<le> n \<and> n \<le> 122 then Some (n - 87) else None)"

fun uint_digits :: "int \<Rightarrow> int \<Rightarrow> bytes \<Rightarrow> int option" where
  "uint_digits base n [] = Some n"
| "uint_digits base n (c # s) =
     (if c = CHR ''_'' then uint_digits base n s
      else (case letter_digit c of
              None \<Rightarrow> None
            | Some d \<Rightarrow> if d \<ge> base then None else uint_digits base (n * base + d) s))"

text \<open>Underscores stand between digits, or between the prefix and a digit.\<close>

datatype seen = Start | Digit | Underscore | Other

fun underscores_ok :: "bool \<Rightarrow> seen \<Rightarrow> bytes \<Rightarrow> bool" where
  "underscores_ok hex saw [] = (saw \<noteq> Underscore)"
| "underscores_ok hex saw (c # s) =
     (if is_digit c \<or> hex \<and> (let n = of_char (ascii_lower c) in (97 :: int) \<le> n \<and> n \<le> 102)
      then underscores_ok hex Digit s
      else if c = CHR ''_'' then (if saw \<noteq> Digit then False else underscores_ok hex Underscore s)
      else if saw = Underscore then False
      else underscores_ok hex Other s)"

definition underscoreOK :: "bytes \<Rightarrow> bool" where
  "underscoreOK s =
     (let c = map ascii_lower (take 1 (drop 1 s)) in
      if take 1 s = ''0'' \<and> (c = ''b'' \<or> c = ''o'' \<or> c = ''x'')
      then underscores_ok (c = ''x'') Digit (drop 2 s)
      else underscores_ok False Start s)"

definition parse_uint0 :: "bytes \<Rightarrow> int option" where
  "parse_uint0 s =
     (if s = [] then None
      else case base_of s of (base, ds) \<Rightarrow>
        (case uint_digits base 0 ds of
           None \<Rightarrow> None
         | Some n \<Rightarrow> if CHR ''_'' \<in> set ds \<and> \<not> underscoreOK s then None else Some n))"

definition ParseInt :: "bytes \<Rightarrow> int option" where
  "ParseInt s =
     (let neg = take 1 s = ''-''; ds = (if take 1 s = ''-'' \<or> take 1 s = ''+'' then drop 1 s else s)
      in case parse_uint0 ds of
           None \<Rightarrow> None
         | Some n \<Rightarrow> if int64_range (signed neg n) then Some (signed neg n) else None)"

definition ParseBool :: "bytes \<Rightarrow> bool option" where
  "ParseBool s =
     (if s \<in> {''1'', ''t'', ''T'', ''true'', ''TRUE'', ''True''} then Some True
      else if s \<in> {''0'', ''f'', ''F'', ''false'', ''FALSE'', ''False''} then Some False
      else None)"

section \<open>The flags\<close>

text \<open>The variables behind the flags, and the flags that were set.\<close>

record flag_state =
  fl_config :: Config
  fl_configFile :: bytes
  fl_version :: bool
  fl_actual :: "bytes set"

definition flag_start :: flag_state where
  "flag_start = \<lparr>fl_config = flag_defaults, fl_configFile = [], fl_version = False, fl_actual = {}\<rparr>"

text \<open>A flag by the type of its value, with the assignment to its variable.\<close>

datatype flag_kind =
    StringFlag "bytes \<Rightarrow> flag_state \<Rightarrow> flag_state"
  | IntFlag "int \<Rightarrow> flag_state \<Rightarrow> flag_state"
  | FloatFlag "float64 \<Rightarrow> flag_state \<Rightarrow> flag_state"
  | BoolFlag "bool \<Rightarrow> flag_state \<Rightarrow> flag_state"

definition in_config :: "('a \<Rightarrow> Config \<Rightarrow> Config) \<Rightarrow> 'a \<Rightarrow> flag_state \<Rightarrow> flag_state" where
  "in_config put x st = st\<lparr>fl_config := put x (fl_config st)\<rparr>"

definition flag_table :: "(bytes \<times> flag_kind) list" where
  "flag_table =
     [(''wrap'', StringFlag (in_config (\<lambda>x c. c\<lparr>WrapCmd := x\<rparr>))),
      (''proxy'', StringFlag (in_config (\<lambda>x c. c\<lparr>ProxyURL := x\<rparr>))),
      (''proxy-port'', StringFlag (in_config (\<lambda>x c. c\<lparr>ProxyPort := x\<rparr>))),
      (''pid'', IntFlag (in_config (\<lambda>x c. c\<lparr>PID := x\<rparr>))),
      (''db'', StringFlag (in_config (\<lambda>x c. c\<lparr>DBPath := x\<rparr>))),
      (''ui'', StringFlag (in_config (\<lambda>x c. c\<lparr>UIPort := x\<rparr>))),
      (''log-level'', StringFlag (in_config (\<lambda>x c. c\<lparr>LogLevel := x\<rparr>))),
      (''log-json'', BoolFlag (in_config (\<lambda>x c. c\<lparr>LogJSON := x\<rparr>))),
      (''auth-user'', StringFlag (in_config (\<lambda>x c. c\<lparr>AuthUser := x\<rparr>))),
      (''auth-pass'', StringFlag (in_config (\<lambda>x c. c\<lparr>AuthPass := x\<rparr>))),
      (''tls-cert'', StringFlag (in_config (\<lambda>x c. c\<lparr>TLSCert := x\<rparr>))),
      (''tls-key'', StringFlag (in_config (\<lambda>x c. c\<lparr>TLSKey := x\<rparr>))),
      (''alert-webhook'', StringFlag (in_config (\<lambda>x c. c\<lparr>AlertWebhook := x\<rparr>))),
      (''alert-error-rate'', FloatFlag (in_config (\<lambda>x c. c\<lparr>AlertErrorRate := x\<rparr>))),
      (''alert-latency'', IntFlag (in_config (\<lambda>x c. c\<lparr>AlertLatency := x\<rparr>))),
      (''alert-window'', IntFlag (in_config (\<lambda>x c. c\<lparr>AlertWindow := x\<rparr>))),
      (''gc-percent'', IntFlag (in_config (\<lambda>x c. c\<lparr>GCPercent := x\<rparr>))),
      (''socket-local'', StringFlag (in_config (\<lambda>x c. c\<lparr>SocketLocal := x\<rparr>))),
      (''socket-target'', StringFlag (in_config (\<lambda>x c. c\<lparr>SocketTarget := x\<rparr>))),
      (''config'', StringFlag (\<lambda>x st. st\<lparr>fl_configFile := x\<rparr>)),
      (''version'', BoolFlag (\<lambda>x st. st\<lparr>fl_version := x\<rparr>))]"

definition formal :: "bytes \<Rightarrow> flag_kind option" where
  "formal = map_of flag_table"

definition is_bool_flag :: "flag_kind \<Rightarrow> bool" where
  "is_bool_flag k = (case k of BoolFlag put \<Rightarrow> True | _ \<Rightarrow> False)"

text \<open>\<open>flag.Value.Set\<close>.\<close>

definition flag_set ::
  "(bytes \<Rightarrow> float64 option) \<Rightarrow> flag_kind \<Rightarrow> bytes \<Rightarrow> flag_state \<Rightarrow> flag_state option"
where
  "flag_set ParseFloat k value st =
     (case k of
        StringFlag put \<Rightarrow> Some (put value st)
      | IntFlag put \<Rightarrow> map_option (\<lambda>x. put x st) (ParseInt value)
      | FloatFlag put \<Rightarrow> map_option (\<lambda>x. put x st) (ParseFloat value)
      | BoolFlag put \<Rightarrow> map_option (\<lambda>x. put x st) (ParseBool value))"

section \<open>\<open>flag.Parse\<close>\<close>

datatype parse_result = Parsed flag_state "bytes list" | Help | BadFlag

definition split_name :: "bytes \<Rightarrow> bytes \<times> bytes option" where
  "split_name s =
     (case IndexByte s CHR ''='' of
        None \<Rightarrow> (s, None)
      | Some i \<Rightarrow> (take i s, Some (drop (Suc i) s)))"

text \<open>Assign one flag and mark it as given.\<close>

definition give ::
  "(bytes \<Rightarrow> float64 option) \<Rightarrow> bytes \<Rightarrow> flag_kind \<Rightarrow> bytes \<Rightarrow> flag_state \<Rightarrow> flag_state option"
where
  "give ParseFloat name k value st =
     map_option (\<lambda>st. st\<lparr>fl_actual := insert name (fl_actual st)\<rparr>) (flag_set ParseFloat k value st)"

text \<open>\<open>parseOne\<close>: either parsing is over, or one flag is consumed.\<close>

definition parse_one ::
  "(bytes \<Rightarrow> float64 option) \<Rightarrow> bytes list \<Rightarrow> flag_state \<Rightarrow> parse_result + flag_state \<times> bytes list"
where
  "parse_one ParseFloat args st =
     (case args of
        [] \<Rightarrow> Inl (Parsed st [])
      | s # rest \<Rightarrow>
          if length s < 2 \<or> hd s \<noteq> CHR ''-'' then Inl (Parsed st args)
          else if s = ''--'' then Inl (Parsed st rest)
          else (let body = (if s ! 1 = CHR ''-'' then drop 2 s else drop 1 s) in
            if body = [] \<or> hd body = CHR ''-'' \<or> hd body = CHR ''='' then Inl BadFlag
            else (case split_name body of (name, value) \<Rightarrow>
              (case formal name of
                 None \<Rightarrow> Inl (if name = ''help'' \<or> name = ''h'' then Help else BadFlag)
               | Some k \<Rightarrow>
                   (case (if is_bool_flag k then Some (case value of Some v \<Rightarrow> v | None \<Rightarrow> ''true'', rest)
                          else (case value of
                                  Some v \<Rightarrow> Some (v, rest)
                                | None \<Rightarrow> (case rest of [] \<Rightarrow> None | v # rest' \<Rightarrow> Some (v, rest')))) of
                      None \<Rightarrow> Inl BadFlag
                    | Some (v, rest') \<Rightarrow>
                        (case give ParseFloat name k v st of
                           None \<Rightarrow> Inl BadFlag
                         | Some st' \<Rightarrow> Inr (st', rest')))))))"

lemma parse_one_shorter: "parse_one pf args st = Inr (st', args') \<Longrightarrow> length args' < length args"
  by (auto simp: parse_one_def Let_def split: list.splits if_splits option.splits prod.splits)

function parse_flags ::
  "(bytes \<Rightarrow> float64 option) \<Rightarrow> bytes list \<Rightarrow> flag_state \<Rightarrow> parse_result"
where
  "parse_flags ParseFloat args st =
     (case parse_one ParseFloat args st of
        Inl r \<Rightarrow> r
      | Inr (st', args') \<Rightarrow> parse_flags ParseFloat args' st')"
  by pat_completeness auto
termination
  by (relation "measure (\<lambda>(pf, args, st). length args)") (auto dest: parse_one_shorter)

declare parse_flags.simps [simp del]

text \<open>\<open>flag.Parse()\<close> on the arguments after the program name; a bad flag exits with status 2.\<close>

definition parse_command_line :: "(bytes \<Rightarrow> float64 option) \<Rightarrow> bytes list \<Rightarrow> parse_result" where
  "parse_command_line ParseFloat args = parse_flags ParseFloat args flag_start"

datatype start_result = Exits int | Runs Config "handler option"

definition start_main ::
  "(bytes \<Rightarrow> bytes option) \<Rightarrow> (bytes \<Rightarrow> float64 option) \<Rightarrow> bytes list \<Rightarrow> start_result"
where
  "start_main ReadFile ParseFloat args =
     (case parse_command_line ParseFloat args of
        Help \<Rightarrow> Exits 0
      | BadFlag \<Rightarrow> Exits 2
      | Parsed st rest \<Rightarrow>
          if fl_version st then Exits 0
          else (case startup ReadFile (fl_actual st) (fl_config st) (fl_configFile st) of
                  Inl reason \<Rightarrow> Exits 1
                | Inr (cfg, h) \<Rightarrow> Runs cfg h))"

section \<open>What is handed to \<open>main\<close>\<close>

text \<open>Setting one variable and marking its flag keeps the defaults of all others.\<close>

lemma flags_given_put:
  "flags_given E c \<Longrightarrow> flags_given (insert ''wrap'' E) (c\<lparr>WrapCmd := x0\<rparr>)"
  "flags_given E c \<Longrightarrow> flags_given (insert ''proxy'' E) (c\<lparr>ProxyURL := x1\<rparr>)"
  "flags_given E c \<Longrightarrow> flags_given (insert ''proxy-port'' E) (c\<lparr>ProxyPort := x2\<rparr>)"
  "flags_given E c \<Longrightarrow> flags_given (insert ''pid'' E) (c\<lparr>PID := x3\<rparr>)"
  "flags_given E c \<Longrightarrow> flags_given (insert ''db'' E) (c\<lparr>DBPath := x4\<rparr>)"
  "flags_given E c \<Longrightarrow> flags_given (insert ''ui'' E) (c\<lparr>UIPort := x5\<rparr>)"
  "flags_given E c \<Longrightarrow> flags_given (insert ''log-level'' E) (c\<lparr>LogLevel := x6\<rparr>)"
  "flags_given E c \<Longrightarrow> flags_given (insert ''log-json'' E) (c\<lparr>LogJSON := x7\<rparr>)"
  "flags_given E c \<Longrightarrow> flags_given (insert ''auth-user'' E) (c\<lparr>AuthUser := x8\<rparr>)"
  "flags_given E c \<Longrightarrow> flags_given (insert ''auth-pass'' E) (c\<lparr>AuthPass := x9\<rparr>)"
  "flags_given E c \<Longrightarrow> flags_given (insert ''tls-cert'' E) (c\<lparr>TLSCert := x10\<rparr>)"
  "flags_given E c \<Longrightarrow> flags_given (insert ''tls-key'' E) (c\<lparr>TLSKey := x11\<rparr>)"
  "flags_given E c \<Longrightarrow> flags_given (insert ''alert-webhook'' E) (c\<lparr>AlertWebhook := x12\<rparr>)"
  "flags_given E c \<Longrightarrow> flags_given (insert ''alert-error-rate'' E) (c\<lparr>AlertErrorRate := x13\<rparr>)"
  "flags_given E c \<Longrightarrow> flags_given (insert ''alert-latency'' E) (c\<lparr>AlertLatency := x14\<rparr>)"
  "flags_given E c \<Longrightarrow> flags_given (insert ''alert-window'' E) (c\<lparr>AlertWindow := x15\<rparr>)"
  "flags_given E c \<Longrightarrow> flags_given (insert ''gc-percent'' E) (c\<lparr>GCPercent := x16\<rparr>)"
  "flags_given E c \<Longrightarrow> flags_given (insert ''socket-local'' E) (c\<lparr>SocketLocal := x17\<rparr>)"
  "flags_given E c \<Longrightarrow> flags_given (insert ''socket-target'' E) (c\<lparr>SocketTarget := x18\<rparr>)"
  "flags_given E c \<Longrightarrow> flags_given (insert ''config'' E) c"
  "flags_given E c \<Longrightarrow> flags_given (insert ''version'' E) c"
  by (simp_all add: flags_given_def)

definition keeps_defaults :: "bytes \<Rightarrow> flag_kind \<Rightarrow> bool" where
  "keeps_defaults name k \<longleftrightarrow>
     (\<forall>pf v st st'. flag_set pf k v st = Some st' \<longrightarrow> flags_given (fl_actual st) (fl_config st) \<longrightarrow>
        fl_actual st' = fl_actual st \<and> flags_given (insert name (fl_actual st)) (fl_config st'))"

lemma flag_table_keeps: "list_all (\<lambda>(name, k). keeps_defaults name k) flag_table"
  by (auto simp: flag_table_def keeps_defaults_def flag_set_def in_config_def
      intro: flags_given_put)

lemma give_keeps:
  assumes "formal name = Some k" "give pf name k v st = Some st'"
    and "flags_given (fl_actual st) (fl_config st)"
  shows "flags_given (fl_actual st') (fl_config st')"
proof -
  have "keeps_defaults name k"
    using flag_table_keeps map_of_SomeD [OF assms(1) [unfolded formal_def]]
    by (fastforce simp: list_all_iff)
  with assms(2,3) show ?thesis by (auto simp: keeps_defaults_def give_def)
qed

lemma parse_one_given:
  assumes "flags_given (fl_actual st) (fl_config st)"
  shows "parse_one pf args st = Inr (st', args') \<Longrightarrow> flags_given (fl_actual st') (fl_config st')"
    and "parse_one pf args st = Inl (Parsed st' rest) \<Longrightarrow> st' = st"
  using assms by (auto simp: parse_one_def Let_def dest: give_keeps
      split: list.splits if_splits option.splits prod.splits)

lemma parse_flags_given:
  "parse_flags pf args st = Parsed st' rest \<Longrightarrow> flags_given (fl_actual st) (fl_config st) \<Longrightarrow>
     flags_given (fl_actual st') (fl_config st')"
proof (induction pf args st rule: parse_flags.induct)
  case (1 pf args st)
  show ?case
  proof (cases "parse_one pf args st")
    case (Inl r)
    with 1(2,3) show ?thesis by (auto simp: parse_flags.simps [of pf args] dest: parse_one_given(2))
  next
    case (Inr x)
    obtain st1 args1 where x: "x = (st1, args1)" by fastforce
    with Inr 1 parse_one_given(1) [OF 1(3)] show ?thesis
      by (auto simp: parse_flags.simps [of pf args])
  qed
qed

text \<open>
  Flags that were not given have their defaults: whatever the command line, the variables
  \<open>flag.Parse\<close> fills and the set of given flags that \<open>flag.Visit\<close> reports agree in this way, which is
  what the merging with the configuration file relies on.
\<close>

theorem command_line_defaults:
  assumes "parse_command_line pf args = Parsed st rest"
  shows "flags_given (fl_actual st) (fl_config st)"
  using assms parse_flags_given [of pf args flag_start st rest]
  by (simp add: parse_command_line_def flag_start_def flags_given_def)

section \<open>Command lines are read as they were written\<close>

text \<open>
  The ways to write a setting: with one or two dashes, the value behind an equals sign or as the
  next argument, and a boolean flag alone for \<open>true\<close>.
\<close>

inductive renders :: "(bytes \<times> bytes) list \<Rightarrow> bytes list \<Rightarrow> bool" where
  nothing: "renders [] []"
| equals: "renders ss args \<Longrightarrow> formal n = Some k \<Longrightarrow> dash \<in> {''-'', ''--''} \<Longrightarrow>
    renders ((n, v) # ss) ((dash @ n @ CHR ''='' # v) # args)"
| separate: "renders ss args \<Longrightarrow> formal n = Some k \<Longrightarrow> \<not> is_bool_flag k \<Longrightarrow> dash \<in> {''-'', ''--''} \<Longrightarrow>
    renders ((n, v) # ss) ((dash @ n) # v # args)"
| alone: "renders ss args \<Longrightarrow> formal n = Some k \<Longrightarrow> is_bool_flag k \<Longrightarrow> dash \<in> {''-'', ''--''} \<Longrightarrow>
    renders ((n, ''true'') # ss) ((dash @ n) # args)"

fun give_all ::
  "(bytes \<Rightarrow> float64 option) \<Rightarrow> (bytes \<times> bytes) list \<Rightarrow> flag_state \<Rightarrow> flag_state option"
where
  "give_all pf [] st = Some st"
| "give_all pf ((n, v) # ss) st =
     (case formal n of
        None \<Rightarrow> None
      | Some k \<Rightarrow> Option.bind (give pf n k v st) (give_all pf ss))"

definition plain_name :: "bytes \<Rightarrow> bool" where
  "plain_name n \<longleftrightarrow> n \<noteq> [] \<and> hd n \<noteq> CHR ''-'' \<and> CHR ''='' \<notin> set n"

lemma formal_plain: "formal n = Some k \<Longrightarrow> plain_name n"
proof -
  have "list_all plain_name (map fst flag_table)" by (simp add: flag_table_def plain_name_def)
  then show "formal n = Some k \<Longrightarrow> plain_name n"
    by (auto simp: formal_def list_all_iff dest!: map_of_SomeD)
qed

lemma split_name_plain:
  "plain_name n \<Longrightarrow> split_name n = (n, None)"
  "plain_name n \<Longrightarrow> split_name (n @ CHR ''='' # v) = (n, Some v)"
proof -
  assume n: "plain_name n"
  then have "IndexByte n CHR ''='' = None" by (simp add: IndexByte_None plain_name_def)
  then show "split_name n = (n, None)" by (simp add: split_name_def)
  have "IndexByte (n @ CHR ''='' # v) CHR ''='' = Some (length n)"
    using n \<open>IndexByte n CHR ''='' = None\<close> by (simp add: IndexByte_def index_where_append)
  then show "split_name (n @ CHR ''='' # v) = (n, Some v)" by (simp add: split_name_def)
qed

lemma dashed_body:
  assumes "plain_name n" "dash \<in> {''-'', ''--''}"
  shows "\<not> length (dash @ n @ t) < 2" "hd (dash @ n @ t) = CHR ''-''" "dash @ n @ t \<noteq> ''--''"
    and "(if (dash @ n @ t) ! 1 = CHR ''-'' then drop 2 (dash @ n @ t) else drop 1 (dash @ n @ t)) = n @ t"
    and "n @ t \<noteq> [] \<and> hd (n @ t) \<noteq> CHR ''-'' \<and> hd (n @ t) \<noteq> CHR ''=''"
  using assms by (cases n; auto simp: plain_name_def)+

lemma parse_one_dashed:
  assumes "plain_name n" "dash \<in> {''-'', ''--''}"
  shows "parse_one pf ((dash @ n @ t) # rest) st =
    (case split_name (n @ t) of (name, value) \<Rightarrow>
      (case formal name of
         None \<Rightarrow> Inl (if name = ''help'' \<or> name = ''h'' then Help else BadFlag)
       | Some k \<Rightarrow>
           (case (if is_bool_flag k then Some (case value of Some v \<Rightarrow> v | None \<Rightarrow> ''true'', rest)
                  else (case value of
                          Some v \<Rightarrow> Some (v, rest)
                        | None \<Rightarrow> (case rest of [] \<Rightarrow> None | v # rest' \<Rightarrow> Some (v, rest')))) of
              None \<Rightarrow> Inl BadFlag
            | Some (v, rest') \<Rightarrow>
                (case give pf name k v st of
                   None \<Rightarrow> Inl BadFlag
                 | Some st' \<Rightarrow> Inr (st', rest')))))"
  using dashed_body(5) [OF assms, of t]
  by (simp only: parse_one_def list.case dashed_body(1-4) [OF assms] Let_def if_False simp_thms)

lemma parse_one_equals:
  assumes "formal n = Some k" "dash \<in> {''-'', ''--''}"
  shows "parse_one pf ((dash @ n @ CHR ''='' # v) # args) st =
    (case give pf n k v st of None \<Rightarrow> Inl BadFlag | Some st' \<Rightarrow> Inr (st', args))"
  unfolding parse_one_dashed [OF formal_plain [OF assms(1)] assms(2)]
  by (simp add: split_name_plain formal_plain [OF assms(1)] assms(1) split: option.split)

lemma parse_one_bare:
  assumes "formal n = Some k" "dash \<in> {''-'', ''--''}"
  shows "\<not> is_bool_flag k \<Longrightarrow> parse_one pf ((dash @ n) # v # args) st =
      (case give pf n k v st of None \<Rightarrow> Inl BadFlag | Some st' \<Rightarrow> Inr (st', args))"
    and "is_bool_flag k \<Longrightarrow> parse_one pf ((dash @ n) # args) st =
      (case give pf n k ''true'' st of None \<Rightarrow> Inl BadFlag | Some st' \<Rightarrow> Inr (st', args))"
  using parse_one_dashed [OF formal_plain [OF assms(1)] assms(2), of pf "[]"]
  by (simp_all add: split_name_plain formal_plain [OF assms(1)] assms(1) split: option.split)

lemma renders_parse:
  "renders ss args \<Longrightarrow> give_all pf ss st = Some st' \<Longrightarrow>
     parse_flags pf (args @ tail) st = parse_flags pf tail st'"
proof (induction arbitrary: st rule: renders.induct)
  case (equals ss args n k dash v)
  then show ?case
    using parse_one_equals [OF equals(2,3), of pf v "args @ tail" st]
    by (subst parse_flags.simps) (auto simp: bind_eq_Some_conv)
next
  case (separate ss args n k dash v)
  then show ?case
    using parse_one_bare(1) [OF separate(2,4,3), of pf v "args @ tail" st]
    by (subst parse_flags.simps) (auto simp: bind_eq_Some_conv)
next
  case (alone ss args n k dash)
  then show ?case
    using parse_one_bare(2) [OF alone(2,4,3), of pf "args @ tail" st]
    by (subst parse_flags.simps) (auto simp: bind_eq_Some_conv)
qed simp

definition operand :: "bytes \<Rightarrow> bool" where
  "operand w \<longleftrightarrow> length w < 2 \<or> hd w \<noteq> CHR ''-''"

lemma parse_flags_stop: "parse_flags pf [] st = Parsed st []"
    "operand w \<Longrightarrow> parse_flags pf (w # junk) st = Parsed st (w # junk)"
  by (simp_all add: parse_flags.simps parse_one_def operand_def)


section \<open>Integer flags\<close>

lemma uint_digits_decimal:
  "list_all is_digit ds \<Longrightarrow> uint_digits 10 n ds = Some (digits_val_acc n ds)"
proof (induction ds arbitrary: n)
  case (Cons c ds)
  then have "c \<noteq> CHR ''_''" "digit_val c < 10"
    by (auto simp: is_digit_def digit_val_def)
  with Cons show ?case by (simp add: letter_digit_def mult.commute)
qed simp

text \<open>
  An integer flag reads every decimal number of 64 bits back, and nothing outside this range. A
  leading zero makes the number octal.
\<close>

theorem integer_flags:
  "(int64_range i \<longrightarrow> ParseInt (format_d i) = Some i) \<and>
   (ParseInt s = Some n \<longrightarrow> int64_range n) \<and> ParseInt ''060'' = Some 48"
proof (intro conjI impI)
  have ds: "list_all is_digit (decimal \<bar>i\<bar>)" using decimal_digits [of "\<bar>i\<bar>"] by (simp add: list_all_iff)
  have uint: "parse_uint0 (decimal \<bar>i\<bar>) = Some \<bar>i\<bar>"
  proof (cases "i = 0")
    case True
    moreover have "parse_uint0 (decimal 0) = Some 0" by code_simp
    ultimately show ?thesis by simp
  next
    case False
    then have "hd (decimal \<bar>i\<bar>) \<noteq> CHR ''0''" by (intro decimal_hd) simp
    then have "base_of (decimal \<bar>i\<bar>) = (10, decimal \<bar>i\<bar>)"
      by (cases "decimal \<bar>i\<bar>") (auto simp: base_of_def)
    moreover have "CHR ''_'' \<notin> set (decimal \<bar>i\<bar>)" using ds by (auto simp: list_all_iff is_digit_def)
    ultimately show ?thesis
      using uint_digits_decimal [OF ds, of 0] by (simp add: parse_uint0_def flip: digits_val_def)
  qed
  assume "int64_range i"
  moreover have "hd (decimal \<bar>i\<bar>) \<noteq> CHR ''-''" "hd (decimal \<bar>i\<bar>) \<noteq> CHR ''+''"
    using ds by (cases "decimal \<bar>i\<bar>"; auto simp: is_digit_def)+
  ultimately show "ParseInt (format_d i) = Some i"
    using uint by (cases "decimal \<bar>i\<bar>") (auto simp: ParseInt_def format_d_sign sign_text_def signed_def Let_def)
next
  show "ParseInt s = Some n \<Longrightarrow> int64_range n"
    by (auto simp: ParseInt_def Let_def split: option.splits if_splits)
next
  show "ParseInt ''060'' = Some 48" by code_simp
qed

section \<open>Examples\<close>

text \<open>\<open>mcpwatch --wrap node server.js --ui 9000\<close>, with the quotes forgotten.\<close>

lemma example_renders: "renders [(''wrap'', ''node'')] [''--wrap'', ''node'']"
proof -
  have "formal ''wrap'' = Some (StringFlag (in_config (\<lambda>x c. c\<lparr>WrapCmd := x\<rparr>)))"
    by (simp add: formal_def flag_table_def)
  from renders.separate [OF renders.nothing this, of "''--''" "''node''"] show ?thesis
    by (simp add: is_bool_flag_def)
qed

definition example_given :: flag_state where
  "example_given = flag_start\<lparr>fl_config := flag_defaults\<lparr>WrapCmd := ''node''\<rparr>, fl_actual := {''wrap''}\<rparr>"

lemma example_gives: "give_all pf [(''wrap'', ''node'')] flag_start = Some example_given"
  by (simp add: formal_def flag_table_def give_def flag_set_def in_config_def flag_start_def example_given_def)


lemma command_line_defaults_witness:
  "UIPort (fl_config example_given) = ''8080''"
proof -
  have "parse_command_line (\<lambda>s. None) ([''--wrap'', ''node''] @ []) = Parsed example_given []"
    unfolding parse_command_line_def
    using renders_parse [OF example_renders example_gives] by (simp only: parse_flags_stop)
  from command_line_defaults [OF this] show ?thesis
    by (simp add: flags_given_def example_given_def flag_defaults_def)
qed

end
