(* ===== verification/Tracing_Init.thy ===== *)
theory Tracing_Init
  imports Go_Bytes
begin

text \<open>
  \<open>internal/tracing\<close>: which tracer provider and which propagators the program installs in the
  global state of OpenTelemetry. The exporter and the resource are third-party; the environment
  says whether they can be made.
\<close>

text \<open>
  A provider that exports nothing, or one that samples every span and sends batches to the
  exporter of an endpoint, with a service name.
\<close>

datatype provider = NewTracerProvider | BatchingProvider bytes bytes

text \<open>The globals of the OpenTelemetry API, and the package's own variable \<open>Tracer\<close>.\<close>

record otel =
  ot_provider :: "provider option"
  ot_propagators :: "bytes list"
  ot_Tracer :: "(bytes \<times> provider) option"

definition otel_start :: otel where
  "otel_start = \<lparr>ot_provider = None, ot_propagators = [], ot_Tracer = None\<rparr>"

datatype tracing_call = NewExporter bytes | NewResource bytes

definition install :: "provider \<Rightarrow> otel \<Rightarrow> otel" where
  "install tp g = g\<lparr>ot_provider := Some tp, ot_Tracer := Some (''mcpwatch'', tp)\<rparr>"

definition InitTracer ::
  "(tracing_call \<Rightarrow> bytes option) \<Rightarrow> bytes \<Rightarrow> otel \<Rightarrow> provider option \<times> otel"
where
  "InitTracer fails endpoint g =
     (if endpoint = [] then (Some NewTracerProvider, install NewTracerProvider g)
      else if fails (NewExporter endpoint) \<noteq> None then (None, g)
      else if fails (NewResource ''mcpwatch'') \<noteq> None then (None, g)
      else (let tp = BatchingProvider endpoint ''mcpwatch'' in
            (Some tp, (install tp g)\<lparr>ot_propagators := [''traceparent'', ''tracestate'', ''baggage'']\<rparr>)))"

text \<open>
  Tracing is all or nothing. \<open>InitTracer\<close> returns the provider it has installed, which exports
  to the endpoint if there is one; if the exporter or the resource cannot be made it returns no
  provider and leaves the globals as they were. Trace contexts are propagated only to an
  endpoint: with none the propagators stay what they were.
\<close>

theorem InitTracer_all_or_nothing:
  "case InitTracer fails endpoint g of (tp, g') \<Rightarrow>
     (case tp of
        None \<Rightarrow> g' = g \<and> endpoint \<noteq> [] \<and>
          (fails (NewExporter endpoint) \<noteq> None \<or> fails (NewResource ''mcpwatch'') \<noteq> None)
      | Some p \<Rightarrow> ot_provider g' = Some p \<and> ot_Tracer g' = Some (''mcpwatch'', p) \<and>
          p = (if endpoint = [] then NewTracerProvider else BatchingProvider endpoint ''mcpwatch'') \<and>
          (endpoint = [] \<longleftrightarrow> p = NewTracerProvider) \<and>
          ot_propagators g' =
            (if endpoint = [] then ot_propagators g else [''traceparent'', ''tracestate'', ''baggage'']))"
  by (simp add: InitTracer_def install_def Let_def)

end
