(* ===== verification/Alert_Check.thy ===== *)
theory Alert_Check
  imports Go_Time
begin

text \<open>
  \<open>internal/alert/alert.go\<close>: the periodic check of the stored messages against the thresholds,
  and the webhook request it sends. The messages come from \<open>QueryAll\<close>; the four readings of the
  clock in one check are separate arguments, since the webhook call between them takes time.
\<close>

section \<open>State\<close>

record Alerter =
  webhookURL :: bytes
  errorRateThreshold :: float64
  latencyThreshold :: int
  window :: int
  lastAlerted :: time

definition second :: int where
  "second = 1000000000"

definition NewAlerter :: "bytes \<Rightarrow> float64 \<Rightarrow> int \<Rightarrow> int \<Rightarrow> Alerter" where
  "NewAlerter webhook errorRate latency windowSeconds =
     \<lparr>webhookURL = webhook, errorRateThreshold = errorRate, latencyThreshold = latency,
      window = wrap64 (windowSeconds * second), lastAlerted = zero_time\<rparr>"

section \<open>Counting\<close>

record tally =
  totalMsgs :: int
  errorMsgs :: int
  totalLatency :: int
  latencyCount :: int

definition alert_error :: "message \<Rightarrow> bool" where
  "alert_error m \<longleftrightarrow> ErrorCode m \<noteq> [] \<or> (ErrorData m \<noteq> [] \<and> ErrorData m \<noteq> ''null'')"

definition count_message :: "time \<Rightarrow> message \<Rightarrow> tally \<Rightarrow> tally" where
  "count_message cutoff m t =
     (if cutoff < Timestamp m
      then let t = (if MsgType m = ''request'' \<or> MsgType m = ''response''
                    then let t = t\<lparr>totalMsgs := wrap64 (totalMsgs t + 1)\<rparr> in
                      if alert_error m then t\<lparr>errorMsgs := wrap64 (errorMsgs t + 1)\<rparr> else t
                    else t)
           in if MsgType m = ''response'' \<and> LatencyMS m > 0
              then t\<lparr>totalLatency := wrap64 (totalLatency t + LatencyMS m),
                     latencyCount := wrap64 (latencyCount t + 1)\<rparr>
              else t
      else t)"

definition count_messages :: "time \<Rightarrow> message list \<Rightarrow> tally" where
  "count_messages cutoff ms =
     fold (count_message cutoff) ms
       \<lparr>totalMsgs = 0, errorMsgs = 0, totalLatency = 0, latencyCount = 0\<rparr>"

definition hundred :: float64 where
  "hundred = f64_of_int 100"

definition error_rate :: "tally \<Rightarrow> float64" where
  "error_rate t = f64_mul (f64_div (f64_of_int (errorMsgs t)) (f64_of_int (totalMsgs t))) hundred"

definition avg_latency :: "tally \<Rightarrow> int" where
  "avg_latency t = (if latencyCount t > 0 then go_quot (totalLatency t) (latencyCount t) else 0)"

section \<open>The decision\<close>

text \<open>\<open>%.1f\<close>: the exact value rounded to one decimal, ties to even.\<close>

fun format_f1 :: "float64 \<Rightarrow> bytes" where
  "format_f1 (Fin s m e) =
     (let q = round_half_even (10 * m * pow2 e) (pow2 (- e)) in
      sign_text s @ decimal (q div 10) @ [CHR ''.'', digit_char (q mod 10)])"
| "format_f1 (Inf s) = (if s then ''-Inf'' else ''+Inf'')"
| "format_f1 NaN = ''NaN''"

definition f64_positive :: "float64 \<Rightarrow> bool" where
  "f64_positive x = f64_less (Fin False 0 0) x"

definition breach :: "Alerter \<Rightarrow> float64 \<Rightarrow> int \<Rightarrow> bytes option" where
  "breach a errorRate avgLatency =
     (if f64_positive (errorRateThreshold a) \<and> f64_less (errorRateThreshold a) errorRate
      then Some (''Error rate is '' @ format_f1 errorRate @ ''% (threshold: '' @
        format_f1 (errorRateThreshold a) @ ''%)'')
      else if latencyThreshold a > 0 \<and> avgLatency > latencyThreshold a
      then Some (''Average request latency is '' @ format_d avgLatency @ ''ms (threshold: '' @
        format_d (latencyThreshold a) @ ''ms)'')
      else None)"

section \<open>The webhook\<close>

definition warning_sign :: bytes where
  "warning_sign = [CHR 0xE2, CHR 0x9A, CHR 0xA0, CHR 0xEF, CHR 0xB8, CHR 0x8F]"

definition alert_text :: "(time \<Rightarrow> int) \<Rightarrow> time \<Rightarrow> bytes \<Rightarrow> float64 \<Rightarrow> int \<Rightarrow> bytes" where
  "alert_text zone now reason errorRate avgLatency =
     warning_sign @ '' *MCPWatch Alert Triggered* '' @ warning_sign @ [nl] @
     ''*Reason*: '' @ reason @ [nl] @ ''*Current Error Rate*: '' @ format_f1 errorRate @ ''%'' @ [nl] @
     ''*Current Avg Latency*: '' @ format_d avgLatency @ ''ms'' @ [nl] @
     ''*Time*: '' @ RFC3339 zone now"

text \<open>The body of the POST request that \<open>fireAlert\<close> sends; its outcome is only logged.\<close>

definition fireAlert :: "(time \<Rightarrow> int) \<Rightarrow> time \<Rightarrow> bytes \<Rightarrow> float64 \<Rightarrow> int \<Rightarrow> bytes" where
  "fireAlert zone now reason errorRate avgLatency =
     json_marshal (JObj [(''text'', JStr (alert_text zone now reason errorRate avgLatency))])"

record clock =
  at_query :: time
  at_since :: time
  at_send :: time
  at_done :: time

text \<open>
  The rest of \<open>fireAlert\<close>: the request may not be made, not be delivered, or be answered with a status.
  The webhook receives the body or not, and a line is logged; \<open>check\<close> does not learn the outcome.
\<close>

datatype delivery = NoRequest | NotDelivered | Answered int

datatype alert_log = AlertError bytes | AlertInfo bytes

definition dispatch :: "bytes \<Rightarrow> delivery \<Rightarrow> bytes list \<times> alert_log" where
  "dispatch body d =
     (case d of
        NoRequest \<Rightarrow> ([], AlertError ''failed to create webhook request'')
      | NotDelivered \<Rightarrow> ([], AlertError ''failed to dispatch webhook alert'')
      | Answered StatusCode \<Rightarrow>
          ([body], if StatusCode \<ge> 400 then AlertError ''alert webhook returned failure status''
                   else AlertInfo ''Alert webhook successfully dispatched!''))"

text \<open>\<open>check\<close>: the request bodies to dispatch to the webhook, none or one, and the new state.\<close>

definition check :: "(time \<Rightarrow> int) \<Rightarrow> clock \<Rightarrow> message list option \<Rightarrow> Alerter \<Rightarrow> bytes list \<times> Alerter" where
  "check zone now queried a =
     (case queried of
        None \<Rightarrow> ([], a)
      | Some messages \<Rightarrow>
          if messages = [] then ([], a)
          else let t = count_messages (at_query now + wrap64 (- window a)) messages in
            if totalMsgs t = 0 then ([], a)
            else (case breach a (error_rate t) (avg_latency t) of
                    None \<Rightarrow> ([], a)
                  | Some reason \<Rightarrow>
                      if time_sub (at_since now) (lastAlerted a) > window a
                      then ([fireAlert zone (at_send now) reason (error_rate t) (avg_latency t)],
                            a\<lparr>lastAlerted := at_done now\<rparr>)
                      else ([], a)))"

text \<open>\<open>Start\<close>: nothing without a webhook, else one check at every tick.\<close>

fun ticks :: "(time \<Rightarrow> int) \<Rightarrow> (clock \<times> message list option) list \<Rightarrow> Alerter \<Rightarrow> bytes list \<times> Alerter" where
  "ticks zone [] a = ([], a)"
| "ticks zone ((now, queried) # evs) a =
     (let (sent, a) = check zone now queried a; (sent', a) = ticks zone evs a in (sent @ sent', a))"

definition alert_loop ::
  "(time \<Rightarrow> int) \<Rightarrow> (clock \<times> message list option) list \<Rightarrow> Alerter \<Rightarrow> bytes list \<times> Alerter" where
  "alert_loop zone evs a = (if webhookURL a = [] then ([], a) else ticks zone evs a)"

section \<open>What the loop counts\<close>

text \<open>The messages of the window that count, and the responses with a latency.\<close>

definition counted :: "time \<Rightarrow> message list \<Rightarrow> message list" where
  "counted cutoff ms =
     filter (\<lambda>m. cutoff < Timestamp m \<and> MsgType m \<in> {MsgTypeRequest, MsgTypeResponse}) ms"

definition latencies :: "time \<Rightarrow> message list \<Rightarrow> int list" where
  "latencies cutoff ms =
     map LatencyMS (filter (\<lambda>m. cutoff < Timestamp m \<and> MsgType m = MsgTypeResponse \<and> LatencyMS m > 0) ms)"

lemma counted_simps [simp]:
  "counted c [] = []"
  "counted c (m # ms) = (if c < Timestamp m \<and> MsgType m \<in> {MsgTypeRequest, MsgTypeResponse}
     then [m] else []) @ counted c ms"
  by (simp_all add: counted_def)

lemma latencies_simps [simp]:
  "latencies c [] = []"
  "latencies c (m # ms) = (if c < Timestamp m \<and> MsgType m = MsgTypeResponse \<and> LatencyMS m > 0
     then [LatencyMS m] else []) @ latencies c ms"
  by (simp_all add: latencies_def)

lemma latencies_pos: "x \<in> set (latencies c ms) \<Longrightarrow> 0 < x"
  by (auto simp: latencies_def)

definition wrapped :: "int \<Rightarrow> int \<Rightarrow> int \<Rightarrow> int \<Rightarrow> tally" where
  "wrapped n e l k = \<lparr>totalMsgs = wrap64 n, errorMsgs = wrap64 e, totalLatency = wrap64 l,
     latencyCount = wrap64 k\<rparr>"

lemma count_step:
  "count_message c m (wrapped n e l k) =
     wrapped (n + int (length (counted c [m]))) (e + int (length (filter alert_error (counted c [m]))))
       (l + sum_list (latencies c [m])) (k + int (length (latencies c [m])))"
  by (simp add: count_message_def wrapped_def)

lemma fold_count:
  "fold (count_message c) ms (wrapped n e l k) =
     wrapped (n + int (length (counted c ms))) (e + int (length (filter alert_error (counted c ms))))
       (l + sum_list (latencies c ms)) (k + int (length (latencies c ms)))"
proof (induction ms arbitrary: n e l k)
  case (Cons m ms)
  have "counted c (m # ms) = counted c [m] @ counted c ms"
    "latencies c (m # ms) = latencies c [m] @ latencies c ms" by simp_all
  then show ?case
    unfolding fold_Cons o_apply count_step Cons.IH by (simp only: length_append filter_append
        sum_list_append of_nat_add add.assoc)
qed (simp add: counted_def latencies_def)

lemma wrap64_zero [simp]: "wrap64 0 = 0"
  by (simp add: int64_range_def)

lemma count_messages_eq:
  "count_messages c ms =
   \<lparr>totalMsgs = wrap64 (int (length (counted c ms))),
    errorMsgs = wrap64 (int (length (filter alert_error (counted c ms)))),
    totalLatency = wrap64 (sum_list (latencies c ms)),
    latencyCount = wrap64 (int (length (latencies c ms)))\<rparr>"
  using fold_count [of c ms 0 0 0 0] by (simp add: count_messages_def wrapped_def)

section \<open>Times of the alerts\<close>

text \<open>The checks of a run that send an alert, with the clock they read.\<close>

fun fired :: "(time \<Rightarrow> int) \<Rightarrow> (clock \<times> message list option) list \<Rightarrow> Alerter \<Rightarrow> clock list" where
  "fired zone [] a = []"
| "fired zone ((now, queried) # evs) a =
     (let (sent, a') = check zone now queried a in
      (if sent = [] then [] else [now]) @ fired zone evs a')"

lemma check_quiet: "check zone now queried a = ([], a') \<Longrightarrow> a' = a"
  by (auto simp: check_def Let_def split: option.splits if_splits)

lemma time_sub_gt: "int64_range w \<Longrightarrow> w < time_sub t u \<Longrightarrow> w < t - u"
  by (auto simp: time_sub_def int64_range_def split: if_splits)

lemma check_fires_state:
  assumes "check zone now queried a = (sent, a')" "sent \<noteq> []"
  shows "length sent = 1 \<and> a' = a\<lparr>lastAlerted := at_done now\<rparr> \<and>
    window a < time_sub (at_since now) (lastAlerted a)"
  using assms by (auto simp: check_def Let_def split: option.splits if_splits)

lemma ticks_fired:
  assumes "int64_range (window a)" "0 \<le> window a" "\<forall>(now, q)\<in>set evs. at_since now \<le> at_done now"
  shows "length (fst (ticks zone evs a)) = length (fired zone evs a) \<and>
    (\<forall>now\<in>set (fired zone evs a). window a < at_since now - lastAlerted a) \<and>
    sorted_wrt (\<lambda>x y. window a < at_since y - at_done x) (fired zone evs a)"
  using assms
proof (induction zone evs a rule: fired.induct)
  case (2 zone now queried evs a)
  obtain sent a' where c: "check zone now queried a = (sent, a')" by fastforce
  show ?case
  proof (cases "sent = []")
    case True
    with 2 c check_quiet [of zone now queried a a'] show ?thesis by (simp add: split_def)
  next
    case False
    note st = check_fires_state [OF c False]
    then have w: "window a' = window a" and l: "lastAlerted a' = at_done now" by simp_all
    have now: "window a < at_since now - lastAlerted a"
      using st time_sub_gt 2(2) by blast
    have IH: "length (fst (ticks zone evs a')) = length (fired zone evs a') \<and>
        (\<forall>x\<in>set (fired zone evs a'). window a < at_since x - at_done now) \<and>
        sorted_wrt (\<lambda>x y. window a < at_since y - at_done x) (fired zone evs a')"
      using 2(1) [OF c [symmetric] refl] 2(2-4) w l by auto
    have "window a < at_since x - lastAlerted a" if "x \<in> set (fired zone evs a')" for x
      using IH that now 2(3,4) by force
    with IH now False c st show ?thesis by (simp add: split_def Let_def)
  qed
qed simp

section \<open>Properties\<close>

definition percentage :: "int \<Rightarrow> int \<Rightarrow> float64" where
  "percentage e n = f64_mul (f64_div (f64_of_int e) (f64_of_int n)) hundred"

lemma length_counted: "length (counted c ms) \<le> length ms"
  by (simp add: counted_def)

lemma length_latencies: "length (latencies c ms) \<le> length ms"
  by (simp add: latencies_def)

lemma wrap64_small: "0 \<le> x \<Longrightarrow> x < 2 ^ 63 \<Longrightarrow> wrap64 x = x"
  by (simp add: int64_range_def)

text \<open>
  C33. When an alert is sent: as long as the counters do not overflow, a check sends a request
  exactly when some request or response lies in the window, the percentage of them with an
  error exceeds a positive error threshold or the mean positive latency of the responses
  (rounded down) a positive latency threshold, and more than a window has passed since the
  last alert.
\<close>

theorem check_decision:
  assumes "int (length ms) < 2 ^ 63" "sum_list (latencies cutoff ms) < 2 ^ 63"
    and "cutoff = at_query now + wrap64 (- window a)"
  shows "fst (check zone now (Some ms) a) \<noteq> [] \<longleftrightarrow>
    counted cutoff ms \<noteq> [] \<and>
    (f64_positive (errorRateThreshold a) \<and>
       f64_less (errorRateThreshold a)
         (percentage (int (length (filter alert_error (counted cutoff ms)))) (int (length (counted cutoff ms)))) \<or>
     0 < latencyThreshold a \<and> latencies cutoff ms \<noteq> [] \<and>
       latencyThreshold a < sum_list (latencies cutoff ms) div int (length (latencies cutoff ms))) \<and>
    window a < time_sub (at_since now) (lastAlerted a)"
proof -
  let ?n = "int (length (counted cutoff ms))"
  let ?e = "int (length (filter alert_error (counted cutoff ms)))"
  let ?l = "sum_list (latencies cutoff ms)"
  let ?k = "int (length (latencies cutoff ms))"
  have bounds: "?n < 2 ^ 63" "?e < 2 ^ 63" "?k < 2 ^ 63"
    using assms(1) length_counted [of cutoff ms] length_latencies [of cutoff ms]
      length_filter_le [of alert_error "counted cutoff ms"] by linarith+
  have l: "0 \<le> ?l" by (rule sum_list_nonneg) (meson latencies_pos less_imp_le)
  have tally: "count_messages cutoff ms =
      \<lparr>totalMsgs = ?n, errorMsgs = ?e, totalLatency = ?l, latencyCount = ?k\<rparr>"
    unfolding count_messages_eq using bounds l assms(2) by (simp only: wrap64_small of_nat_0_le_iff)
  have avg: "avg_latency (count_messages cutoff ms) = (if 0 < ?k then ?l div ?k else 0)"
    unfolding tally avg_latency_def using l by (simp add: go_quot_nonneg)
  have rate: "error_rate (count_messages cutoff ms) = percentage ?e ?n"
    by (simp add: tally error_rate_def percentage_def)
  have empty: "ms = [] \<Longrightarrow> counted cutoff ms = []" by simp
  have fires: "fst (check zone now (Some ms) a) \<noteq> [] \<longleftrightarrow> counted cutoff ms \<noteq> [] \<and>
      breach a (percentage ?e ?n) (if 0 < ?k then ?l div ?k else 0) \<noteq> None \<and>
      window a < time_sub (at_since now) (lastAlerted a)"
    unfolding check_def option.case Let_def assms(3) [symmetric] rate avg
    using empty by (auto simp: tally split: option.split)
  show ?thesis
    unfolding fires breach_def using l by (auto simp: pos_imp_zdiv_neg_iff)
qed

text \<open>
  The cool-down: alerts are more than a window apart, each measured from the end of the
  webhook call of any earlier one to the check that sends the later one, and a run sends one
  request per such check.
\<close>

theorem alerts_cool_down:
  assumes "int64_range (window a)" "0 \<le> window a" "\<forall>(now, q)\<in>set evs. at_since now \<le> at_done now"
  shows "sorted_wrt (\<lambda>x y. window a < at_since y - at_done x) (fired zone evs a) \<and>
    length (fst (ticks zone evs a)) = length (fired zone evs a)"
  using ticks_fired [OF assms] by blast

text \<open>
  An alert that does not reach the webhook starts the cool-down all the same: until the window has
  passed since it was dispatched, nothing more is sent, however long the failure lasts.
\<close>

theorem failed_delivery_cools_down:
  assumes "check zone now queried a = (body # sent, a')"
    and "\<forall>(now', q)\<in>set evs. time_sub (at_since now') (at_done now) \<le> window a"
  shows "sent = [] \<and> fst (dispatch body NotDelivered) = [] \<and> ticks zone evs a' = ([], a')"
proof -
  have a': "a' = a\<lparr>lastAlerted := at_done now\<rparr>" "sent = []"
    using assms(1) by (auto simp: check_def Let_def split: option.splits if_splits)
  have "ticks zone evs a' = ([], a')"
    using assms(2)
  proof (induction evs)
    case (Cons x evs)
    obtain now' q where x: "x = (now', q)" by fastforce
    have "check zone now' q a' = ([], a')"
      using Cons.prems by (auto simp: x a' check_def Let_def split: option.split)
    with Cons show ?case by (simp add: x)
  qed simp
  with a' show ?thesis by (simp add: dispatch_def)
qed

subsection \<open>The percentage when every request fails\<close>

text \<open>A positive integer below \<open>2 ^ 53\<close> is a \<open>float64\<close>, and doubling only moves the exponent.\<close>

lemma f64_of_int_exact:
  assumes "0 < k" "k < 2 ^ 53"
  obtains m e where "f64_of_int k = Fin False m e" "2 ^ 52 \<le> m" "m < 2 ^ 53" "- 1074 \<le> e" "e \<le> 0"
    "rat_of k = rat_of m * 2 powi e"
proof -
  obtain b where b: "2 ^ b \<le> k" "k < 2 * 2 ^ b" using bit_len_bounds [OF assms(1)] by blast
  have "(2::int) ^ b < 2 ^ 53" using b assms(2) by linarith
  then have b52: "b \<le> 52" by (metis power_less_imp_less_exp one_less_numeral_iff semiring_norm(76)
      less_Suc_eq_le numeral_eq_Suc pred_numeral_simps(3) not_less_eq_eq order_less_imp_le)
  define m where "m = k * 2 ^ (52 - b)"
  have sum: "(2::int) ^ b * 2 ^ (52 - b) = 2 ^ 52" using b52 by (simp flip: power_add)
  have m: "2 ^ 52 \<le> m" "m < 2 ^ 53"
    using b mult_right_mono [OF b(1), of "2 ^ (52 - b)"]
      mult_strict_right_mono [OF b(2), of "2 ^ (52 - b)"] sum by (simp_all add: m_def mult.assoc)
  have eq: "rat_of k = rat_of m * 2 powi (int b - 52)"
  proof -
    have "(2::rat) powi (int b - 52) = inverse (2 ^ (52 - b))"
      using b52 by (simp add: power_int_def nat_diff_distrib power_inverse power_one_over inverse_eq_divide)
    then show ?thesis by (simp add: m_def)
  qed
  have "f64_of_int k = Fin False m (int b - 52)"
    unfolding f64_of_int_def using assms m b52 eq
    by (simp add: f64_of_ratio_exact f64_canonical_def)
  with m eq b52 show thesis by (intro that) simp_all
qed

lemma fifty_percent:
  assumes "0 < k" "k < 2 ^ 52"
  shows "percentage k (2 * k) = f64_of_int 50"
proof -
  obtain m e where k: "f64_of_int k = Fin False m e" "2 ^ 52 \<le> m" "m < 2 ^ 53" "- 1074 \<le> e" "e \<le> 0"
    "rat_of k = rat_of m * 2 powi e"
    using f64_of_int_exact [of k] assms by auto
  have "rat_of (2 * k) = rat_of m * 2 powi (e + 1)"
    using k(6) by (simp add: power_int_add)
  then have k2: "f64_of_int (2 * k) = Fin False m (e + 1)"
    unfolding f64_of_int_def using assms k(2-5)
    by (simp add: f64_of_ratio_exact f64_canonical_def)
  have "f64_div (Fin False m e) (Fin False m (e + 1)) = f64_of_ratio False m (m * 2)"
    using k(2) by (simp add: pow2_def)
  also have "\<dots> = Fin False (2 ^ 52) (- 53)"
    using k(2) by (intro f64_of_ratio_exact) (simp_all add: f64_canonical_def power_int_def field_simps)
  finally have half: "f64_div (f64_of_int k) (f64_of_int (2 * k)) = Fin False (2 ^ 52) (- 53)"
    by (simp only: k(1) k2)
  have "f64_mul (Fin False (2 ^ 52) (- 53)) hundred = f64_of_int 50" by code_simp
  with half show ?thesis by (simp only: percentage_def)
qed

text \<open>
  The error rate counts requests and responses alike, so when every request of the window
  is answered by an error the rate is exactly 50 per cent, whatever their number: an error
  threshold of 50 or more never raises an alert on it.
\<close>

theorem all_failing_is_fifty_percent:
  assumes "0 < k" "k < 2 ^ 52"
    and "length (filter alert_error (counted cutoff ms)) = nat k"
    and "length (counted cutoff ms) = nat (2 * k)"
  shows "error_rate (count_messages cutoff ms) = f64_of_int 50"
proof -
  have "wrap64 k = k" "wrap64 (2 * k) = 2 * k" using assms(1,2) by (simp_all add: int64_range_def)
  then have "error_rate (count_messages cutoff ms) = percentage k (2 * k)"
    using assms by (simp add: error_rate_def percentage_def count_messages_eq)
  then show ?thesis using fifty_percent [OF assms(1,2)] by simp
qed

subsection \<open>The request body\<close>

lemma valid_append: "valid_utf8 s \<Longrightarrow> valid_utf8 t \<Longrightarrow> valid_utf8 (s @ t)"
  by (simp add: valid_utf8_append)

lemma error_rate_wf: "f64_wf (error_rate t)"
proof -
  have mul: "f64_wf (f64_mul x y)" if "f64_wf x" "f64_wf y" for x y
    using that by (cases "(x, y)" rule: f64_mul.cases)
      (auto intro!: f64_of_ratio_wf mult_nonneg_nonneg simp: f64_canonical_def less_imp_le)
  have "f64_wf (f64_div x y)" if "f64_wf x" "f64_wf y" for x y
    using that by (cases "(x, y)" rule: f64_div.cases)
      (auto intro!: f64_of_ratio_wf mult_nonneg_nonneg simp: f64_canonical_def less_imp_le)
  then show ?thesis by (simp add: error_rate_def mul hundred_def f64_of_int_wf)
qed

lemma round_half_even_nonneg: "0 \<le> num \<Longrightarrow> 0 < den \<Longrightarrow> 0 \<le> round_half_even num den"
  by (auto simp: round_half_even_def Let_def pos_imp_zdiv_nonneg_iff)

lemma format_f1_ascii: "f64_wf x \<Longrightarrow> list_all ascii (format_f1 x)"
proof (cases x)
  case (Fin s m e)
  assume "f64_wf x"
  then have "0 \<le> m" using Fin by (auto simp: f64_canonical_def)
  then have "0 \<le> round_half_even (10 * m * pow2 e) (pow2 (- e))"
    by (intro round_half_even_nonneg mult_nonneg_nonneg) (simp_all add: less_imp_le)
  then show ?thesis
    using Fin by (simp add: Let_def sign_text_def decimal_ascii digit_ascii pos_imp_zdiv_nonneg_iff)
qed (simp_all add: ascii_def byte_in_def)

lemma warning_sign_valid [simp]: "valid_utf8 warning_sign"
  by code_simp

lemma breach_ascii:
  assumes "f64_wf (errorRateThreshold a)" "breach a (error_rate t) l = Some reason"
  shows "list_all ascii reason"
  using assms error_rate_wf [of t]
  by (auto simp: breach_def format_f1_ascii ascii_def byte_in_def
      split: if_splits simp del: ascii_simps)

text \<open>
  The webhook receives JSON: the body of an alert decodes to an object whose single member
  \<open>text\<close> is the alert's text.
\<close>

theorem alert_body_decodes:
  assumes "check zone now queried a = (sent, a')" "body \<in> set sent"
    and "f64_wf (errorRateThreshold a)"
  shows "\<exists>reason rate latency. json_decode body =
    Some (JObj [(''text'', JStr (alert_text zone (at_send now) reason rate latency))])"
proof -
  from assms(1,2) obtain t reason where r: "breach a (error_rate t) (avg_latency t) = Some reason"
    and body: "body = fireAlert zone (at_send now) reason (error_rate t) (avg_latency t)"
    by (auto simp: check_def Let_def split: option.splits if_splits)
  have "valid_utf8 (alert_text zone (at_send now) reason (error_rate t) (avg_latency t))"
    unfolding alert_text_def
    by (intro valid_append warning_sign_valid; rule ascii_valid)
      (simp_all add: breach_ascii [OF assms(3) r] format_f1_ascii error_rate_wf,
       simp_all add: ascii_def byte_in_def)
  then have "json_decode body = Some (JObj [(''text'', JStr
      (alert_text zone (at_send now) reason (error_rate t) (avg_latency t)))])"
    unfolding body fireAlert_def
    by (intro json_roundtrip)
      (simp add: max_nesting_def ascii_valid ascii_def byte_in_def)
  then show ?thesis by blast
qed

section \<open>Examples\<close>

text \<open>A request and its error response one second before a check at a threshold of 10 per cent.\<close>

definition example_alerter :: Alerter where
  "example_alerter = NewAlerter ''http://hook'' (f64_of_int 10) 0 60"

definition example_now :: time where
  "example_now = 1700000000000000000"

definition example_clock :: clock where
  "example_clock = \<lparr>at_query = example_now, at_since = example_now, at_send = example_now,
     at_done = example_now + 2000000000\<rparr>"

definition example_messages :: "message list" where
  "example_messages =
     [zero_message\<lparr>Timestamp := example_now - 1000000000, MsgType := MsgTypeRequest\<rparr>,
      zero_message\<lparr>Timestamp := example_now - 1000000000, MsgType := MsgTypeResponse,
                   ErrorCode := ''-32601''\<rparr>]"

definition example_cutoff :: time where
  "example_cutoff = at_query example_clock + wrap64 (- window example_alerter)"

lemma check_decision_witness:
  "fst (check (\<lambda>t. 0) example_clock (Some example_messages) example_alerter) \<noteq> []"
proof -
  have "counted example_cutoff example_messages \<noteq> [] \<and>
      f64_positive (errorRateThreshold example_alerter) \<and>
      f64_less (errorRateThreshold example_alerter)
        (percentage (int (length (filter alert_error (counted example_cutoff example_messages))))
          (int (length (counted example_cutoff example_messages)))) \<and>
      window example_alerter < time_sub (at_since example_clock) (lastAlerted example_alerter)"
    "int (length example_messages) < 2 ^ 63" "sum_list (latencies example_cutoff example_messages) < 2 ^ 63"
    by code_simp+
  then show ?thesis
    using check_decision [OF _ _ example_cutoff_def, of example_messages "\<lambda>t. 0"] by blast
qed

lemma alerts_cool_down_witness:
  "length (fst (ticks (\<lambda>t. 0) [(example_clock, Some example_messages), (example_clock, Some example_messages)]
      example_alerter)) =
   length (fired (\<lambda>t. 0) [(example_clock, Some example_messages), (example_clock, Some example_messages)]
      example_alerter)"
proof -
  have "int64_range (window example_alerter)" "0 \<le> window example_alerter"
    "at_since example_clock \<le> at_done example_clock"
    by code_simp+
  then show ?thesis
    using alerts_cool_down [of example_alerter
        "[(example_clock, Some example_messages), (example_clock, Some example_messages)]"] by simp
qed

lemma failed_delivery_cools_down_witness:
  "\<exists>body a'. check (\<lambda>t. 0) example_clock (Some example_messages) example_alerter = ([body], a') \<and>
     fst (ticks (\<lambda>t. 0) [(example_clock, Some example_messages)] a') = []"
proof -
  have "fst (check (\<lambda>t. 0) example_clock (Some example_messages) example_alerter) \<noteq> []"
    by code_simp
  then obtain body sent a' where
    c: "check (\<lambda>t. 0) example_clock (Some example_messages) example_alerter = (body # sent, a')"
    by (metis neq_Nil_conv prod.collapse)
  have "time_sub (at_since example_clock) (at_done example_clock) \<le> window example_alerter"
    by code_simp
  with failed_delivery_cools_down [OF c, of "[(example_clock, Some example_messages)]"] c show ?thesis by simp
qed

lemma all_failing_is_fifty_percent_witness:
  "error_rate (count_messages example_cutoff example_messages) = f64_of_int 50"
proof -
  have "length (filter alert_error (counted example_cutoff example_messages)) = nat 1"
    "length (counted example_cutoff example_messages) = nat (2 * 1)"
    by code_simp+
  then show ?thesis by (intro all_failing_is_fifty_percent [of 1]) simp_all
qed

lemma alert_body_decodes_witness:
  "\<exists>body reason rate latency.
     body \<in> set (fst (check (\<lambda>t. 0) example_clock (Some example_messages) example_alerter)) \<and>
     json_decode body = Some (JObj [(''text'', JStr (alert_text (\<lambda>t. 0) example_now reason rate latency))])"
proof -
  have "fst (check (\<lambda>t. 0) example_clock (Some example_messages) example_alerter) \<noteq> []"
    by code_simp
  then obtain body sent a' where
    c: "check (\<lambda>t. 0) example_clock (Some example_messages) example_alerter = (sent, a')" "body \<in> set sent"
    by (metis list.set_intros(1) neq_Nil_conv prod.collapse)
  have "f64_wf (errorRateThreshold example_alerter)"
    by (simp add: example_alerter_def NewAlerter_def f64_of_int_wf)
  with alert_body_decodes [OF c] c show ?thesis by (auto simp: example_clock_def)
qed

end
