(* ===== verification/Main_Run.thy ===== *)
theory Main_Run
  imports Go_Defer Main_Flags Main_Loop Tracing_Init Server_HTTP Alert_Check
begin

text \<open>
  The function \<open>main\<close> as a whole: the command line and the configuration, the logger and the
  garbage collector, the signals, tracing, the store, the alerter, the dashboard, the transport,
  the loop, and what is released at the end. Goroutines are logged where they are started. The
  calls of \<open>main\<close> and its deferred calls are those of \<open>Go_Defer\<close>; the environment is a record.
\<close>

section \<open>The environment and the calls\<close>

record 'db world =
  w_args :: "bytes list"
  w_ReadFile :: "bytes \<Rightarrow> bytes option"
  w_ParseFloat :: "bytes \<Rightarrow> float64 option"
  w_endpoint :: bytes
  w_tracing :: "tracing_call \<Rightarrow> bytes option"
  w_badger :: "'db badger"
  w_opened :: "bytes \<Rightarrow> 'db option"
  w_now :: time
  w_zone :: "time \<Rightarrow> int"

datatype main_call =
    PrintVersion | PrintUsage
  | SetLogger log_level bool | SetGCPercent int
  | NotifyContext | Cancel
  | CallInitTracer bytes | TpShutdown
  | StorageNew bytes | StoreClose
  | AlerterStart Alerter
  | ListenAndServe bytes Server | ListenAndServeTLS bytes bytes bytes Server
  | TransportStart handler

datatype 'db main_end = ExitCode int | Finished "'db monitor" | Serving "'db monitor" | Crashed

definition main_tracing :: "'db world \<Rightarrow> provider option \<times> otel" where
  "main_tracing W = InitTracer (w_tracing W) (w_endpoint W) otel_start"

definition main_store :: "'db world \<Rightarrow> bytes \<Rightarrow> 'db store option" where
  "main_store W path = New (w_badger W) (w_now W) (w_opened W path)"

definition main_fails :: "'db world \<Rightarrow> main_call \<Rightarrow> bytes option" where
  "main_fails W c =
     (case c of
        CallInitTracer endpoint \<Rightarrow> if fst (main_tracing W) = None then Some [] else None
      | StorageNew path \<Rightarrow> if main_store W path = None then Some [] else None
      | _ \<Rightarrow> None)"

fun main_role :: "main_call \<Rightarrow> main_call role" where
  "main_role NotifyContext = Opens Cancel"
| "main_role (CallInitTracer endpoint) = Opens TpShutdown"
| "main_role (StorageNew path) = Opens StoreClose"
| "main_role Cancel = Closes"
| "main_role TpShutdown = Closes"
| "main_role StoreClose = Closes"
| "main_role _ = Uses"

section \<open>The loop as a function\<close>

text \<open>An event that is not ready is not taken.\<close>

fun loop_turn :: "(time \<Rightarrow> int) \<Rightarrow> loop_event \<Rightarrow> 'db monitor \<Rightarrow> 'db monitor" where
  "loop_turn zone (Report msg) m = m\<lparr>mn_messages := try_send msg (mn_messages m)\<rparr>"
| "loop_turn zone Interrupted m = m\<lparr>mn_cancelled := True\<rparr>"
| "loop_turn zone (MessageReady now) m =
     (if mn_returned m then m
      else case recv (mn_messages m) of
             None \<Rightarrow> m
           | Some (msg, q) \<Rightarrow> handle_message zone now msg (m\<lparr>mn_messages := q\<rparr>))"
| "loop_turn zone TransportEnded m = (if mn_returned m then m else m\<lparr>mn_cancelled := True\<rparr>)"
| "loop_turn zone ContextDone m =
     (if mn_returned m \<or> \<not> mn_cancelled m then m else m\<lparr>mn_returned := True\<rparr>)"

definition loop_exec :: "(time \<Rightarrow> int) \<Rightarrow> loop_event list \<Rightarrow> 'db monitor \<Rightarrow> 'db monitor" where
  "loop_exec zone evs m = fold (loop_turn zone) evs m"

section \<open>\<open>main\<close>\<close>

definition configured_server :: "Config \<Rightarrow> Server" where
  "configured_server cfg = (if AuthUser cfg \<noteq> [] \<and> AuthPass cfg \<noteq> []
     then SetAuth (AuthUser cfg) (AuthPass cfg) NewServer else NewServer)"

text \<open>\<open>Start\<close> and \<open>StartTLS\<close> of the dashboard server, which serve \<open>setupMux\<close> at the port.\<close>

definition Server_Start :: "bytes \<Rightarrow> Server \<Rightarrow> main_call" where
  "Server_Start port s = ListenAndServe ('':'' @ port) s"

definition Server_StartTLS :: "bytes \<Rightarrow> bytes \<Rightarrow> bytes \<Rightarrow> Server \<Rightarrow> main_call" where
  "Server_StartTLS port certFile keyFile s = ListenAndServeTLS ('':'' @ port) certFile keyFile s"

definition server_call :: "Config \<Rightarrow> main_call" where
  "server_call cfg =
     (if uses_tls cfg
      then Server_StartTLS (UIPort cfg) (TLSCert cfg) (TLSKey cfg) (configured_server cfg)
      else Server_Start (UIPort cfg) (configured_server cfg))"

lemmas server_defs = server_call_def Server_Start_def Server_StartTLS_def

definition alerter_calls :: "Config \<Rightarrow> main_call list" where
  "alerter_calls cfg =
     (if AlertWebhook cfg \<noteq> []
      then [AlerterStart (NewAlerter (AlertWebhook cfg) (AlertErrorRate cfg) (AlertLatency cfg) (AlertWindow cfg))]
      else [])"

definition run_services ::
  "'db world \<Rightarrow> Config \<Rightarrow> loop_event list \<Rightarrow> (main_call, 'db main_end) body"
where
  "run_services W cfg evs =
     fold do_call (rev (alerter_calls cfg))
    (do_call (server_call cfg)
    (case (select_handler cfg, main_store W (DBPath cfg)) of
       (Some h, Some store) \<Rightarrow>
         do_call (TransportStart h)
        (let m = loop_exec (w_zone W) evs (start_monitor True store) in
         if mn_returned m then finish (Finished m) else leave_now (Serving m))
     | _ \<Rightarrow> leave_now Crashed))"

definition run_main ::
  "'db world \<Rightarrow> Config \<Rightarrow> loop_event list \<Rightarrow> (main_call, 'db main_end) body"
where
  "run_main W cfg evs =
     (let open_and_run =
        try_call (main_fails W) (StorageNew (DBPath cfg)) (\<lambda>e. leave_now (ExitCode 1))
       (defer_call StoreClose
       (run_services W cfg evs))
      in do_call (SetLogger (log_level cfg) (LogJSON cfg))
        (do_call (SetGCPercent (GCPercent cfg))
        (if modes cfg \<noteq> 1 then do_call PrintUsage (leave_now (ExitCode 1))
         else do_call NotifyContext
             (defer_call Cancel
             (try_call (main_fails W) (CallInitTracer (w_endpoint W)) (\<lambda>e. open_and_run)
             (defer_call TpShutdown open_and_run))))))"

definition main :: "'db world \<Rightarrow> loop_event list \<Rightarrow> 'db main_end \<times> main_call list" where
  "main W evs =
     (case parse_command_line (w_ParseFloat W) (w_args W) of
        Help \<Rightarrow> leave_now (ExitCode 0)
      | BadFlag \<Rightarrow> leave_now (ExitCode 2)
      | Parsed st rest \<Rightarrow>
          if fl_version st then do_call PrintVersion (leave_now (ExitCode 0))
          else (case load_config (w_ReadFile W) (fl_actual st) (fl_config st) (fl_configFile st) of
                  Inl reason \<Rightarrow> leave_now (ExitCode 1)
                | Inr cfg \<Rightarrow> run_main W cfg evs)) new_frame"

section \<open>What \<open>main\<close> calls\<close>

definition start_log :: "'db world \<Rightarrow> Config \<Rightarrow> main_call list" where
  "start_log W cfg =
     [SetLogger (log_level cfg) (LogJSON cfg), SetGCPercent (GCPercent cfg), NotifyContext,
      CallInitTracer (w_endpoint W), StorageNew (DBPath cfg)]"

definition service_log :: "Config \<Rightarrow> handler \<Rightarrow> main_call list" where
  "service_log cfg h = alerter_calls cfg @ [server_call cfg, TransportStart h]"

definition close_log :: "'db world \<Rightarrow> main_call list" where
  "close_log W = StoreClose # (if fst (main_tracing W) = None then [] else [TpShutdown]) @ [Cancel]"

lemma fold_do_call: "fold do_call cs k fr = k (fr\<lparr>fr_log := fr_log fr @ rev cs\<rparr>)"
  by (induction cs arbitrary: k) (simp_all add: do_call_def)

lemma run_main_eq:
  assumes "modes cfg = 1" "select_handler cfg = Some h"
  shows "run_main W cfg evs new_frame =
    (case main_store W (DBPath cfg) of
       None \<Rightarrow> (ExitCode 1, start_log W cfg)
     | Some store \<Rightarrow>
         (let m = loop_exec (w_zone W) evs (start_monitor True store) in
          if mn_returned m then (Finished m, start_log W cfg @ service_log cfg h @ close_log W)
          else (Serving m, start_log W cfg @ service_log cfg h)))"
  using assms
  by (simp add: run_main_def run_services_def body_simps fold_do_call main_fails_def start_log_def
      service_log_def close_log_def Let_def split: option.split)

lemma run_main_usage:
  "modes cfg \<noteq> 1 \<Longrightarrow> run_main W cfg evs new_frame =
     (ExitCode 1, [SetLogger (log_level cfg) (LogJSON cfg), SetGCPercent (GCPercent cfg), PrintUsage])"
  by (simp add: run_main_def body_simps)

text \<open>The exits before the program has opened anything are those of the command line and the configuration.\<close>

definition main_config :: "'db world \<Rightarrow> start_result" where
  "main_config W = start_main (w_ReadFile W) (w_ParseFloat W) (w_args W)"

definition idle :: "main_call \<Rightarrow> bool" where
  "idle c \<longleftrightarrow> (case c of PrintVersion \<Rightarrow> True | PrintUsage \<Rightarrow> True | SetLogger l j \<Rightarrow> True
     | SetGCPercent n \<Rightarrow> True | _ \<Rightarrow> False)"

lemma main_exits:
  "main_config W = Exits n \<Longrightarrow> \<exists>calls. main W evs = (ExitCode n, calls) \<and> list_all idle calls"
  by (auto simp: main_config_def start_main_def main_def startup_def body_simps idle_def
      run_main_usage [unfolded new_frame_def One_nat_def]
      split: parse_result.splits if_splits sum.splits)

lemma main_runs:
  "main_config W = Runs cfg h \<Longrightarrow>
     main W evs = run_main W cfg evs new_frame \<and> modes cfg = 1 \<and> h = select_handler cfg"
  by (auto simp: main_config_def start_main_def main_def startup_def body_simps
      split: parse_result.splits if_splits sum.splits)

section \<open>The loop\<close>

lemma loop_turn_step:
  "loop_turn zone e m = m \<or> loop_step zone m e (loop_turn zone e m)"
  by (cases e) (auto simp: loop_step_simps split: option.split)

lemma loop_step_turn: "loop_step zone m e m' \<Longrightarrow> loop_turn zone e m = m'"
  by (induction rule: loop_step.induct) auto


text \<open>Only the end of the transport or a signal cancels the context, and nothing else ends the loop.\<close>

lemma loop_turn_cancelled:
  "mn_cancelled (loop_turn zone e m) \<Longrightarrow> mn_cancelled m \<or> e = TransportEnded \<or> e = Interrupted"
  "mn_cancelled m \<Longrightarrow> mn_cancelled (loop_turn zone e m)"
  "mn_returned m \<Longrightarrow> mn_returned (loop_turn zone e m)"
  "mn_returned (loop_turn zone e m) \<Longrightarrow> mn_returned m \<or> mn_cancelled m"
  by (cases e; auto simp: handle_message_def split: if_splits option.splits prod.splits)+

lemma loop_exec_cancelled:
  "mn_cancelled (loop_exec zone evs m) \<or> mn_returned (loop_exec zone evs m) \<Longrightarrow>
     mn_cancelled m \<or> mn_returned m \<or> TransportEnded \<in> set evs \<or> Interrupted \<in> set evs"
proof (induction evs arbitrary: m)
  case (Cons e evs)
  from Cons.IH [of "loop_turn zone e m"] Cons.prems
  show ?case using loop_turn_cancelled [where zone = zone and e = e and m = m] by (auto simp: loop_exec_def)
qed (simp add: loop_exec_def)

text \<open>The loop itself writes nothing to the database.\<close>

lemma loop_turn_database: "st_db (mn_store (loop_turn zone e m)) = st_db (mn_store m)"
  by (cases e) (auto simp: handle_message_def Insert_def split: option.split prod.split)

lemma loop_exec_database: "st_db (mn_store (loop_exec zone evs m)) = st_db (mn_store m)"
proof (induction evs arbitrary: m)
  case (Cons e evs)
  from Cons [of "loop_turn zone e m"] show ?case by (simp add: loop_exec_def loop_turn_database)
qed (simp add: loop_exec_def)

section \<open>Properties\<close>

definition transports_started :: "main_call list \<Rightarrow> handler list" where
  "transports_started calls = List.map_filter (\<lambda>c. case c of TransportStart h \<Rightarrow> Some h | _ \<Rightarrow> None) calls"

definition servers_started :: "main_call list \<Rightarrow> main_call list" where
  "servers_started calls = filter (\<lambda>c. case c of ListenAndServe a s \<Rightarrow> True
     | ListenAndServeTLS a c k s \<Rightarrow> True | _ \<Rightarrow> False) calls"

lemma started_simps [simp]:
  "transports_started (xs @ ys) = transports_started xs @ transports_started ys"
  "servers_started (xs @ ys) = servers_started xs @ servers_started ys"
  "transports_started (start_log W cfg) = []" "servers_started (start_log W cfg) = []"
  "transports_started (service_log cfg t) = [t]" "servers_started (service_log cfg t) = [server_call cfg]"
  "transports_started (close_log W) = []" "servers_started (close_log W) = []"
  by (simp_all add: transports_started_def servers_started_def List.map_filter_def start_log_def
      service_log_def close_log_def alerter_calls_def server_defs)

lemma start_bracketed:
  "main_store W (DBPath cfg) \<noteq> None \<Longrightarrow>
     bracketed (main_fails W) main_role [] (start_log W cfg @ calls) = bracketed (main_fails W) main_role (close_log W) calls"
  by (auto simp: start_log_def close_log_def main_fails_def)

lemma close_bracketed: "bracketed (main_fails W) main_role (close_log W) (close_log W)"
  by (simp add: close_log_def)

lemma service_bracketed:
  "bracketed (main_fails W) main_role ds (service_log cfg h @ calls) = bracketed (main_fails W) main_role ds calls"
  by (simp add: service_log_def alerter_calls_def server_defs)

text \<open>
  C13. What the program starts. If the command line and the configuration do not ask for exactly
  one transport the program exits with the code for that, having opened and started nothing. If
  the store cannot be opened it exits with code 1, no server or transport started, and without
  running what it has deferred: the tracer provider is not shut down. In
  all other cases it starts exactly one transport, the one that is asked for, and exactly one
  dashboard, on the configured port and with the configured credentials, after the store is
  open, and enters its loop; it never crashes.
\<close>

theorem main_starts:
  "case main W evs of (r, calls) \<Rightarrow>
     (case main_config W of
        Exits n \<Rightarrow> r = ExitCode n \<and> list_all idle calls
      | Runs cfg h \<Rightarrow>
          \<exists>t. h = Some t \<and> requested cfg = {t} \<and>
            (case main_store W (DBPath cfg) of
               None \<Rightarrow> r = ExitCode 1 \<and> transports_started calls = [] \<and> servers_started calls = [] \<and>
                 TpShutdown \<notin> set calls \<and> Cancel \<notin> set calls
             | Some store \<Rightarrow>
                 transports_started calls = [t] \<and> servers_started calls = [server_call cfg] \<and>
                 prefix (start_log W cfg) calls \<and>
                 (let m = loop_exec (w_zone W) evs (start_monitor True store) in
                  r = (if mn_returned m then Finished m else Serving m))))"
proof (cases "main_config W")
  case (Exits n)
  with main_exits [OF this, of evs] show ?thesis by auto
next
  case (Runs cfg h)
  from main_runs [OF this, of evs] have run: "main W evs = run_main W cfg evs new_frame"
    "modes cfg = 1" "h = select_handler cfg" by auto
  obtain t where "select_handler cfg = Some t" "requested cfg = {t}" using one_mode [OF run(2)] by blast
  with run Runs show ?thesis
    by (auto simp: run_main_eq Let_def split: option.split) (auto simp: start_log_def)
qed

lemma main_Finished:
  assumes "main W evs = (Finished m, calls)"
  obtains cfg t store where "main_config W = Runs cfg (Some t)" "main_store W (DBPath cfg) = Some store"
    "m = loop_exec (w_zone W) evs (start_monitor True store)" "mn_returned m"
    "calls = start_log W cfg @ service_log cfg t @ close_log W"
proof (cases "main_config W")
  case (Exits n)
  with main_exits [OF this, of evs] assms show ?thesis by auto
next
  case (Runs cfg h)
  from main_runs [OF this, of evs] have run: "main W evs = run_main W cfg evs new_frame"
    "modes cfg = 1" "h = select_handler cfg" by auto
  obtain t where t: "select_handler cfg = Some t" using one_mode [OF run(2)] by blast
  with run Runs assms that show ?thesis
    by (auto simp: run_main_eq [OF run(2) t] Let_def split: option.splits if_splits)
qed


text \<open>
  C37. The program runs until it is told to stop, and then stops. Once its store is open, \<open>main\<close>
  returns as soon as the loop sees the context done after the end of the transport or a signal,
  whatever happened before; and it returns for no other reason.
\<close>

theorem main_stops:
  assumes "main_config W = Runs cfg h" "main_store W (DBPath cfg) \<noteq> None"
  shows "(e = TransportEnded \<or> e = Interrupted \<longrightarrow>
      (\<exists>m calls. main W (evs @ [e, ContextDone]) = (Finished m, calls) \<and> calls \<noteq> [] \<and> last calls = Cancel)) \<and>
    (main W evs = (Finished m, calls) \<longrightarrow> TransportEnded \<in> set evs \<or> Interrupted \<in> set evs)"
proof
  obtain store where store: "main_store W (DBPath cfg) = Some store" using assms(2) by blast
  from main_runs [OF assms(1)] have run: "main W xs = run_main W cfg xs new_frame" "modes cfg = 1" for xs
    by auto
  obtain t where t: "select_handler cfg = Some t" using one_mode [OF run(2)] by blast
  let ?m = "loop_exec (w_zone W) evs (start_monitor True store)"
  have exec: "loop_exec (w_zone W) (evs @ [e, ContextDone]) (start_monitor True store) =
      loop_turn (w_zone W) ContextDone (loop_turn (w_zone W) e ?m)" by (simp add: loop_exec_def)
  have "mn_returned (loop_turn (w_zone W) ContextDone (loop_turn (w_zone W) e ?m))"
    if "e = TransportEnded \<or> e = Interrupted" using that by (auto split: if_splits)
  then show "e = TransportEnded \<or> e = Interrupted \<longrightarrow>
      (\<exists>m calls. main W (evs @ [e, ContextDone]) = (Finished m, calls) \<and> calls \<noteq> [] \<and> last calls = Cancel)"
    unfolding run(1) run_main_eq [OF run(2) t] store option.case exec Let_def
    by (simp add: close_log_def)
  show "main W evs = (Finished m, calls) \<longrightarrow> TransportEnded \<in> set evs \<or> Interrupted \<in> set evs"
  proof
    assume "main W evs = (Finished m, calls)"
    then obtain store where "m = loop_exec (w_zone W) evs (start_monitor True store)" "mn_returned m"
      by (elim main_Finished)
    with loop_exec_cancelled [of "w_zone W" evs "start_monitor True store"]
    show "TransportEnded \<in> set evs \<or> Interrupted \<in> set evs" by (auto simp: start_monitor_def)
  qed
qed

section \<open>Examples\<close>

text \<open>\<open>mcpwatch --wrap node\<close> on an empty database, ended by a signal.\<close>

definition example_world :: "memory world" where
  "example_world =
     \<lparr>w_args = [''--wrap'', ''node''], w_ReadFile = (\<lambda>f. None), w_ParseFloat = (\<lambda>s. None),
      w_endpoint = [], w_tracing = (\<lambda>c. None), w_badger = memory_badger, w_opened = (\<lambda>p. Some []),
      w_now = 5, w_zone = (\<lambda>t. 0)\<rparr>"

lemma example_main_config:
  "main_config example_world = Runs (fl_config example_given) (Some (NewStdio ''node''))"
proof -
  have "parse_command_line (\<lambda>s. None) ([''--wrap'', ''node''] @ []) = Parsed example_given []"
    unfolding parse_command_line_def
    using renders_parse [OF example_renders example_gives] by (simp only: parse_flags_stop)
  moreover have "load_config (\<lambda>f. None) E cfg [] = Inr cfg" for E cfg
    by (simp add: load_config_def)
  ultimately show ?thesis
    by (simp add: main_config_def start_main_def example_world_def startup_def example_given_def
        flag_start_def flag_defaults_def modes_def select_handler_def)
qed

lemma example_main_store: "main_store example_world p \<noteq> None"
  by (simp add: main_store_def example_world_def New_def memory_badger_def memory_get_def)

lemma main_stops_witness:
  "\<exists>m calls. main example_world ([Report None] @ [Interrupted, ContextDone]) = (Finished m, calls) \<and> last calls = Cancel"
  using main_stops [OF example_main_config example_main_store, of Interrupted "[Report None]"] by blast



end
