(* ===== verification/Spec2Isabelle.thy ===== *)
theory Spec2Isabelle
  imports Transport_Loader Transport_Handler System_Progress Main_Run
begin

text \<open>
  MCPWatch is a monitor for JSON-RPC traffic between MCP clients and servers, written in Go. A
  transport (a wrapped command, an HTTP proxy, a Unix socket relay or an eBPF tracer) passes
  the traffic on and copies it: the copy is cut into JSON texts, each is parsed into a message,
  and the messages are queued for the loop of \<open>main.go\<close>. The loop correlates responses with
  requests, updates the metrics, inserts the message into the store and broadcasts it to the
  dashboards. An HTTP server answers queries, exports the store, clears it and serves the
  dashboards; an alerter checks the stored messages every ten seconds.

  \<^bold>\<open>The theories\<close>

  \<^item> \<open>Prelude\<close>, \<open>Go_Bytes\<close>, \<open>Go_Chan\<close>, \<open>Go_Float\<close>, \<open>Go_UTF8\<close>, \<open>Go_JSON\<close>, \<open>Go_JSON_Roundtrip\<close>,
    \<open>Go_JSON_Struct\<close>, \<open>Go_Time\<close>, \<open>Go_Time_Parse\<close>, \<open>Go_CSV\<close>, \<open>Go_HTTP\<close>, \<open>Go_Defer\<close>: what the program
    uses of the Go language and its standard library: \<open>int64\<close> arithmetic with its wrap-around, byte
    strings, buffered channels (\<open>lossy_queue\<close>), \<open>float64\<close> with correct rounding and shortest
    printing, UTF-8, \<open>encoding/json\<close> in both directions and into structs, RFC 3339 times both ways,
    \<open>encoding/csv\<close>, base64, basic authentication, the request multiplexer, and functions with
    deferred calls, early returns and \<open>os.Exit\<close>. Their lemmas are the laws the components need:
    \<open>json_roundtrip\<close>, \<open>read_csv_text\<close>, \<open>b64_roundtrip\<close>, \<open>civil_of_days_inverse\<close>.
  \<^item> \<open>Engine_Message\<close>, \<open>Engine_Marshal\<close>, \<open>Engine_Codec\<close>, \<open>Engine_Parser\<close>, \<open>Engine_Tracing\<close>,
    \<open>Engine_Correlator\<close>: \<open>internal/engine\<close>. A message decodes from its JSON text; \<open>ParseJSONRPC\<close> is
    proved to implement a specification of the protocol; \<open>Process\<close> is proved correct over the
    table interface \<open>pending_table\<close>, and its span calls respect the tracer's protocol.
  \<^item> \<open>Framing\<close>, \<open>Transport_Stream\<close>, \<open>Transport_Tap\<close>, \<open>Transport_Proxy\<close>, \<open>Transport_Socket\<close>,
    \<open>Transport_Stdio\<close>, \<open>Transport_EBPF\<close>: the data paths of \<open>internal/transport\<close>. The interface
    \<open>framer\<close> states that cutting a stream into units does not depend on the reads; each transport is
    shown to pass the traffic on unchanged and to report exactly its lines or JSON texts.
  \<^item> \<open>Transport_Start\<close>, \<open>Transport_Lifecycle\<close>, \<open>Transport_Loader\<close>, \<open>Transport_Handler\<close>: the \<open>Start\<close>
    methods with their set-up, errors, releases and concurrent parts. The interface \<open>Handler\<close> of
    \<open>handler.go\<close> is the locale \<open>transport\<close>, interpreted by all four; \<open>Transport_Loader\<close> is the loader of
    the kernel programs (\<open>tracer_bpfel.go\<close>) over the interface \<open>ebpf_library\<close>.
  \<^item> \<open>Storage_Keys\<close>, \<open>Storage_Badger\<close>, \<open>Storage_Properties\<close>, \<open>Storage_Clear\<close>,
    \<open>Storage_Codec\<close>: \<open>internal/storage\<close> over the interface \<open>badger_db\<close>, interpreted by an ordered map
    with expiry. \<open>Storage_Clear\<close> takes \<open>Clear\<close> apart into the steps other goroutines may fall
    between; \<open>Storage_Codec\<close> refines the stored values to their bytes.
  \<^item> \<open>Metrics_Record\<close>, \<open>Alert_Check\<close> and \<open>Tracing_Init\<close>: \<open>internal/metrics\<close>, \<open>internal/alert\<close> and
    \<open>internal/tracing\<close>.
  \<^item> \<open>Server_Hub\<close> and \<open>Server_HTTP\<close>: \<open>internal/server\<close>. The hub is a step relation with one
    step per goroutine action that the mutex makes atomic; its invariant gives that no
    interleaving panics.
  \<^item> \<open>Main_Flags\<close>, \<open>Main_Config\<close>, \<open>Main_Loop\<close> and \<open>Main_Run\<close>: \<open>main.go\<close>: the command line, the
    configuration, the loop as a step relation, and \<open>main\<close> as a whole from its exits to its deferred calls.
  \<^item> \<open>System_Run\<close>: the goroutines that \<open>main\<close> starts, together over the shared store and hub: the loop,
    the transport's reports, the drain goroutine, the dashboards and the HTTP handlers, in every
    interleaving. \<open>System_Progress\<close>: they never block each other for good.
  \<^item> This theory: properties of several components together, from the bytes of a stream to the
    reported messages, from the transports to the metrics, from the loop to the queries and exports,
    and from the configuration to the dashboard.

  \<^bold>\<open>How the code is modelled\<close>

  A Go struct is a record, a string or byte slice a list of characters, \<open>int64\<close> an \<open>int\<close> in range
  with \<open>wrap64\<close> where the code computes, \<open>time.Time\<close> the nanoseconds since the Unix epoch, and a
  Go \<open>error\<close> or early return a value of an option, sum or flag. State is passed explicitly;
  operations of concurrent goroutines are single steps, and the properties quantify over their
  interleavings (\<open>system_run\<close>, \<open>hub_run\<close>, \<open>loop_run\<close>, the event lists of the transports and of the
  store, whose events carry their own reading of the clock). A function that calls the outside world
  is written over \<open>Go_Defer\<close>: it gives its result and the log of its calls, deferred ones included.
  Loops are recursion with a termination proof, so every operation is total; there is no fuel.
  The clock, the local time zone, the file system, BadgerDB, \<open>cilium/ebpf\<close>, the OpenTelemetry tracer,
  the Prometheus client, the file server and the WebSocket library are arguments of the definitions,
  logs of calls, or records of operations with their documented laws as hypotheses.

  \<^bold>\<open>Bounds that matter\<close>

  The channels hold 1000 (messages), 4096 (store) and 256 (dashboard) values and drop the rest;
  a line of 1 MB ends a standard input, a body may buffer 10 MB; nesting of JSON stops at 10000;
  message numbers are ordered in the keys up to six digits; stored messages expire after a day.

  \<^bold>\<open>Not modelled\<close>

  \<^item> The inside of libraries and of the operating system: \<open>net/http\<close>, TLS, the WebSocket handshake,
    BadgerDB and its garbage collection ticker, \<open>cilium/ebpf\<close> and the kernel's verifier, the
    OpenTelemetry SDK. Their calls are environment, with the failures the code handles.
  \<^item> What is only printed: the usage and version texts and the log lines, the log level apart.
  \<^item> \<open>utils/goroutine.go\<close>, a query of the Go runtime (a field of the environment of \<open>/health\<close>), the embed
    directive of \<open>web/embed.go\<close> and the test programs of \<open>src/test\<close>.
  \<^item> \<open>tracer_bpfeb.go\<close> has the same functions as \<open>tracer_bpfel.go\<close>; they are modelled once.
  \<^item> Interleavings finer than the steps: the code shares a message between goroutines by pointer, so the
    number \<open>flush\<close> assigns may race with the JSON text of the broadcast; the model copies messages and
    shows the usual order, broadcast before numbering.
  \<^item> The map from threads to buffers in \<open>tracer.c\<close> holds 1024 entries; the model's is unbounded.
\<close>

section \<open>Streams of JSON-RPC messages\<close>

definition rpc_valid :: "rpc \<Rightarrow> bool" where
  "rpc_valid r \<longleftrightarrow> rpc_ok r \<and> json_wf max_nesting (JObj (rpc_members r))"

lemma rpc_text_shape: "\<exists>mid. rpc_text r = lbrace # mid @ [rbrace]"
  by (simp add: rpc_text_def json_text_JObj)

lemma rpc_text_ends:
  "rpc_text r \<noteq> []" "hd (rpc_text r) = lbrace" "last (rpc_text r) = rbrace"
  using rpc_text_shape [of r] by auto

lemma rpc_text_no_nl: "rpc_valid r \<Longrightarrow> nl \<notin> set (rpc_text r)"
  using json_text_no_nl [of max_nesting "JObj (rpc_members r)"]
  by (simp add: rpc_valid_def rpc_text_def del: json_text.simps json_wf.simps)

lemma braces_not_space:
  "lbrace \<notin> set space_heads" "rbrace \<notin> set space_lasts" "CHR ''d'' \<notin> set space_heads"
  by (simp_all add: space_heads_def space_lasts_def space_runes_def)

lemma TrimSpace_rpc [simp]: "TrimSpace (rpc_text r) = rpc_text r"
  by (rule TrimSpace_id) (simp_all add: rpc_text_ends braces_not_space)

text \<open>A server-sent event: the message in a \<open>data\<close> field, then an empty line.\<close>

definition sse_event :: "rpc \<Rightarrow> bytes" where
  "sse_event r = ''data: '' @ rpc_text r @ [nl, nl]"

lemma sse_payload_event: "sse_payload (''data: '' @ rpc_text r) = Some (rpc_text r)"
proof -
  have "TrimSpace (''data: '' @ rpc_text r) = ''data: '' @ rpc_text r"
    by (rule TrimSpace_id) (simp_all add: rpc_text_ends braces_not_space)
  moreover have "TrimPrefix (''data: '' @ rpc_text r) [CHR 0x1E] = ''data: '' @ rpc_text r"
    by (simp add: TrimPrefix_def HasPrefix_def)
  moreover have "sse_field (''data: '' @ rpc_text r) = TrimSpace (CHR '' '' # rpc_text r)"
    by (simp add: sse_field_def TrimPrefix_def HasPrefix_def)
  moreover have "TrimSpace (CHR '' '' # rpc_text r) = rpc_text r"
    using TrimSpace_blank [of "rpc_text r"] by (simp add: rpc_text_ends braces_not_space)
  ultimately show ?thesis by (simp add: sse_payload_def rpc_text_ends)
qed

lemma sse_payload_empty: "sse_payload [] = None"
  by (simp add: sse_payload_def sse_field_def TrimPrefix_def HasPrefix_def)

lemma emit_sse_events:
  "\<forall>r\<in>set rs. rpc_valid r \<Longrightarrow>
     emit_lines sse_payload ParseJSONRPC now d t (all_lines (concat (map sse_event rs))) =
       map (rpc_message now d t) rs"
proof (induction rs)
  case Nil
  then show ?case by (simp add: all_lines_NoneI)
next
  case (Cons r rs)
  then have r: "rpc_valid r" by simp
  have "all_lines (sse_event r @ concat (map sse_event rs)) =
      (''data: '' @ rpc_text r) # [] # all_lines (concat (map sse_event rs))"
    using all_lines_line [of "''data: '' @ rpc_text r" "nl # concat (map sse_event rs)"]
      all_lines_line [of "[]" "concat (map sse_event rs)"] rpc_text_no_nl [OF r]
    by (simp add: sse_event_def)
  moreover have "ParseJSONRPC now (rpc_text r) d t = Some (rpc_message now d t r)"
    using r parse_rpc unfolding rpc_valid_def by blast
  ultimately show ?case
    using Cons sse_payload_event [of r] by (simp add: emit_line_def sse_payload_empty)
qed

lemma emit_text_lines:
  "\<forall>r\<in>set rs. rpc_valid r \<Longrightarrow>
     emit_lines Some ParseJSONRPC now d t (map strip_cr (all_lines (concat (map (\<lambda>r. rpc_text r @ [nl]) rs)))) =
       map (rpc_message now d t) rs"
proof (induction rs)
  case Nil
  then show ?case by (simp add: all_lines_NoneI)
next
  case (Cons r rs)
  then have r: "rpc_valid r" by simp
  have "all_lines (rpc_text r @ nl # concat (map (\<lambda>r. rpc_text r @ [nl]) rs)) =
      rpc_text r # all_lines (concat (map (\<lambda>r. rpc_text r @ [nl]) rs))"
    by (rule all_lines_line [OF rpc_text_no_nl [OF r]])
  moreover have "strip_cr (rpc_text r) = rpc_text r"
    by (simp add: strip_cr_def rpc_text_ends)
  moreover have "ParseJSONRPC now (rpc_text r) d t = Some (rpc_message now d t r)"
    using r parse_rpc unfolding rpc_valid_def by blast
  ultimately show ?case using Cons by (simp add: emit_line_def)
qed

lemma text_lines:
  "\<forall>r\<in>set rs. rpc_valid r \<Longrightarrow> all_lines (concat (map (\<lambda>r. rpc_text r @ [nl]) rs)) = map rpc_text rs"
proof (induction rs)
  case (Cons r rs)
  then show ?case
    using all_lines_line [OF rpc_text_no_nl [of r], of "concat (map (\<lambda>r. rpc_text r @ [nl]) rs)"] by simp
qed (simp add: all_lines_NoneI)

text \<open>
  C5. The proxy reports a whole event stream: when the server answers with server-sent events
  that carry JSON-RPC messages, however the stream is cut into reads, the client reads the
  stream unchanged and the monitor receives exactly the messages the protocol prescribes for
  them, in order, as long as its channel has room.
\<close>

theorem sse_stream_reported:
  assumes "\<forall>r\<in>set rs. rpc_valid r" "concat cs = concat (map sse_event rs)"
    and "fits [] cs" "ic_buf s = []" "length (chan_items ch) + length rs \<le> chan_cap ch"
  shows "\<exists>ch'. read_all (stream_read ParseJSONRPC now) cs (s, ch) =
      (map (\<lambda>c. (length c, None)) cs @ [(0, Some EOF)], s, ch') \<and>
    chan_items ch' = chan_items ch @ map (rpc_message now ''OUT'' (ic_transType s)) rs"
  using stream_read_all [OF assms(3,4), of ParseJSONRPC now ch]
    fold_try_send_room [of ch "map (rpc_message now ''OUT'' (ic_transType s)) rs"] assms(2,5)
  by (simp add: emit_sse_events [OF assms(1)])

text \<open>
  The wrapper reports a whole session: JSON-RPC messages written to the standard input,
  one to a line and none of 1 MB, all reach the child, and the monitor receives exactly the
  messages the protocol prescribes for them, in order, as long as its channel has room.
\<close>

theorem stdio_session_reported:
  assumes "\<forall>r\<in>set rs. rpc_valid r \<and> length (rpc_text r) < max_token"
    and "input = concat (map (\<lambda>r. rpc_text r @ [nl]) rs)"
    and "length (chan_items ch) + length rs \<le> chan_cap ch"
  shows "pm_forwarded (stdin_pump ParseJSONRPC now input ch) = input \<and>
    chan_items (pm_channel (stdin_pump ParseJSONRPC now input ch)) =
      chan_items ch @ map (rpc_message now ''IN'' ''stdio'') rs"
proof -
  have v: "\<forall>r\<in>set rs. rpc_valid r" using assms(1) by blast
  have "\<forall>l\<in>set (all_lines input). length l < max_token"
    using assms(1,2) text_lines [OF v] by simp
  then have "scan_stream input =
      \<lparr>sc_tokens = map strip_cr (all_lines input), sc_forwarded = input, sc_tooLong = False\<rparr>"
    by (rule scan_stream_short)
  then show ?thesis
    using emit_text_lines [OF v, of now "''IN''" "''stdio''"] assms(2)
      fold_try_send_room [of ch "map (rpc_message now ''IN'' ''stdio'') rs"] assms(3)
    by (simp add: stdin_pump_def fold_stdio_line)
qed

section \<open>From the transports to the metrics\<close>

text \<open>What a transport reports: a parsed message, or a line of the standard error.\<close>

definition reported :: "message \<Rightarrow> bool" where
  "reported m \<longleftrightarrow>
     (\<exists>now raw dir tr. list_all ascii dir \<and> list_all ascii tr \<and> ParseJSONRPC now raw dir tr = Some m) \<or>
     (\<exists>now tr line. list_all ascii tr \<and> m = stderr_message now tr line)"

lemma parsed_labels_valid:
  assumes "ParseJSONRPC now raw dir tr = Some m" "list_all ascii dir" "list_all ascii tr"
  shows "labels_valid m"
proof -
  obtain obj where obj: "unmarshal_object raw = Some obj" and m: "m = parsed_message now raw dir tr obj"
    using assms(1) by (auto simp: ParseJSONRPC_eq)
  have "valid_utf8 (obj_method obj)"
  proof (cases "map_of obj ''method''")
    case (Some v)
    then have "json_decode raw = Some (JObj obj)"
      using obj by (auto simp: unmarshal_object_def split: option.splits json.splits)
    then have "json_wf max_nesting v" using map_of_wf [OF json_decode_wf Some] by simp
    with Some show ?thesis by (auto simp: obj_method_def split: json.splits)
  qed (simp add: obj_method_def)
  moreover have "list_all ascii (msg_type_of x y)" for x y
    by (simp add: msg_type_of_def ascii_def byte_in_def)
  ultimately show ?thesis
    using assms(2,3) by (simp add: m labels_valid_def parsed_message_def ascii_valid)
qed

lemma reported_labels_valid: "reported m \<Longrightarrow> labels_valid m"
proof -
  have "labels_valid (stderr_message now tr line)" if "list_all ascii tr" for now tr line
    using that by (simp add: labels_valid_def stderr_message_def zero_message_def ascii_valid
        ascii_def byte_in_def)
  then show "reported m \<Longrightarrow> labels_valid m"
    using parsed_labels_valid unfolding reported_def by blast
qed

definition methods_valid :: "Correlator \<Rightarrow> bool" where
  "methods_valid c \<longleftrightarrow> (\<forall>j. valid_utf8 (slot_method (slots c j)))"

lemma process_labels_valid:
  assumes "labels_valid m" "methods_valid c"
  shows "labels_valid (fst (Process now m (c, tr))) \<and> methods_valid (fst (snd (Process now m (c, tr))))"
  using assms
  by (auto simp: Process_def process_request_def process_response_def labels_valid_def
      methods_valid_def set_slot_def empty_slot_def Let_def split: prod.split option.split)

lemma process_all_labels_valid:
  "\<forall>x\<in>set ms. labels_valid (snd x) \<Longrightarrow> methods_valid c \<Longrightarrow>
     \<forall>m\<in>set (fst (process_all ms (c, tr))). labels_valid m"
proof (induction ms arbitrary: c tr)
  case (Cons x ms)
  obtain now m where x: "x = (now, m)" by fastforce
  obtain m' c' tr' where p: "Process now m (c, tr) = (m', c', tr')" by (metis prod_cases3)
  have "labels_valid m' \<and> methods_valid c'"
    using process_labels_valid [of m c now tr] Cons.prems x p by simp
  with Cons x p show ?case by (auto simp: Let_def split_def)
qed simp

text \<open>
  C23. The metrics never panic: for whatever the transports report, every call \<open>RecordMetrics\<close>
  makes has as many label values as its vector has labels, all of them valid UTF-8, and adds
  nothing negative to a counter, also after the correlator has filled in methods.
\<close>

theorem metrics_never_panic:
  assumes "\<forall>x\<in>set ms. reported (snd x)"
  shows "list_all admissible (mn_metrics (handle_all zone ms (start_monitor tracing s)))"
proof -
  let ?m = "start_monitor tracing s"
  obtain ps corr where p: "process_all ms (mn_correlator ?m) = (ps, corr)"
    by (cases "process_all ms (mn_correlator ?m)") blast
  have "methods_valid NewCorrelator"
    by (simp add: methods_valid_def NewCorrelator_def empty_slot_def)
  then have "\<forall>m\<in>set ps. labels_valid m"
    using process_all_labels_valid [of ms NewCorrelator "new_tracer tracing"] assms p
      reported_labels_valid by (simp add: start_monitor_def)
  then have "list_all admissible (record_all ps)"
    using RecordMetrics_admissible by (induction ps) simp_all
  with handle_all_sinks [OF p, of zone] show ?thesis by (simp add: start_monitor_def)
qed

section \<open>From the configuration to the dashboard\<close>

text \<open>
  What protects the dashboard: a request is let through exactly if user name or password is
  not configured, or its \<open>Authorization\<close> header decodes to the configured pair. In
  particular a user name without a password protects nothing.
\<close>

theorem dashboard_protection:
  "authorized (configured_server cfg) r \<longleftrightarrow>
     AuthUser cfg = [] \<or> AuthPass cfg = [] \<or>
     BasicAuth (rq_authorization r) = Some (AuthUser cfg, AuthPass cfg)"
  by (auto simp: configured_server_def authorized_def SetAuth_def NewServer_def
      split: option.split)

section \<open>From the store's queue to the dashboard\<close>

text \<open>The drain goroutine takes fewer messages than a batch holds, then its ticker fires.\<close>

definition drain_some :: "'db badger \<Rightarrow> time \<Rightarrow> nat \<Rightarrow> 'db store \<Rightarrow> 'db store" where
  "drain_some B now n s = drain_tick B now ((drain_msg B now ^^ n) s)"

lemma insert_all:
  "length (chan_items (st_queue s)) + length ps \<le> chan_cap (st_queue s) \<Longrightarrow>
     fold Insert ps s = s\<lparr>st_queue := (st_queue s)\<lparr>chan_items := chan_items (st_queue s) @ ps\<rparr>\<rparr>"
  by (induction ps arbitrary: s) (simp_all add: Insert_def try_send_def chan_has_room_def)

lemma drain_all:
  "chan_items (st_queue s) = ps \<Longrightarrow> length (st_batch s) + length ps < 256 \<Longrightarrow>
     (drain_msg B now ^^ length ps) s =
       s\<lparr>st_queue := (st_queue s)\<lparr>chan_items := []\<rparr>, st_batch := st_batch s @ ps\<rparr>"
proof (induction ps arbitrary: s)
  case (Cons p ps)
  have step: "drain_msg B now s =
      s\<lparr>st_queue := (st_queue s)\<lparr>chan_items := ps\<rparr>, st_batch := st_batch s @ [p]\<rparr>"
    using Cons.prems by (simp add: drain_msg_def recv_def Let_def)
  show ?case
    unfolding funpow_Suc_right length_Cons o_apply step
    by (subst Cons.IH) (use Cons.prems in simp_all)
qed simp

lemma handled_query:
  assumes "badger_db B" "db_inv B (st_db s)" "chan_items (st_queue s) = []" "st_batch s = []"
    and "chan_cap (st_queue s) = 4096" "0 \<le> st_idCounter s" "st_idCounter s + 256 < 2 ^ 63"
    and "process_all ms (NewCorrelator, new_tracer tracing) = (ps, corr)" "ps \<noteq> []" "length ps < 256"
    and "\<forall>m\<in>set ps. key_time_ok (Timestamp m)"
    and "fst (flush B now ps (s\<lparr>st_batch := ps\<rparr>))" "t < now + one_day"
  shows "let batch = set (map (message_utf8 \<circ> snd) (numbered (st_idCounter s) ps));
      queried = set (QueryAll B t
        (drain_some B now (length ps) (mn_store (handle_all zone ms (start_monitor tracing s)))))
    in batch \<subseteq> queried \<and> queried \<subseteq> set (QueryAll B t s) \<union> batch"
proof -
  have "process_all ms (mn_correlator (start_monitor tracing s)) = (ps, corr)"
    using assms(8) by (simp add: start_monitor_def)
  from handle_all_sinks [OF this, of zone]
  have "mn_store (handle_all zone ms (start_monitor tracing s)) = fold Insert ps s"
    by (simp add: start_monitor_def)
  also have "\<dots> = s\<lparr>st_queue := (st_queue s)\<lparr>chan_items := ps\<rparr>\<rparr>"
    using insert_all [of s ps] assms(3,5,10) by simp
  finally have store: "mn_store (handle_all zone ms (start_monitor tracing s)) =
      s\<lparr>st_queue := (st_queue s)\<lparr>chan_items := ps\<rparr>\<rparr>" .
  have queue: "(st_queue s)\<lparr>chan_items := []\<rparr> = st_queue s"
    using assms(3) by (cases "st_queue s") simp
  have "(drain_msg B now ^^ length ps) (s\<lparr>st_queue := (st_queue s)\<lparr>chan_items := ps\<rparr>\<rparr>) = s\<lparr>st_batch := ps\<rparr>"
    using drain_all [of "s\<lparr>st_queue := (st_queue s)\<lparr>chan_items := ps\<rparr>\<rparr>" ps B now] assms(4,10) queue
    by (cases s) simp
  then have drained: "drain_some B now (length ps) (mn_store (handle_all zone ms (start_monitor tracing s))) =
      (snd (flush B now ps (s\<lparr>st_batch := ps\<rparr>)))\<lparr>st_batch := []\<rparr>"
    unfolding store drain_some_def using assms(9) by (simp add: drain_tick_def)
  obtain s' where s': "flush B now ps (s\<lparr>st_batch := ps\<rparr>) = (True, s')"
    using assms(12) by (cases "flush B now ps (s\<lparr>st_batch := ps\<rparr>)") auto
  have "QueryAll B t (s'\<lparr>st_batch := []\<rparr>) = QueryAll B t s'" "QueryAll B t (s\<lparr>st_batch := ps\<rparr>) = QueryAll B t s"
    by (simp_all add: QueryAll_def)
  then show ?thesis
    using flush_visible [OF assms(1) _ s' _ _ assms(11,13)] assms(2,6,7,10) unfolding drained s'
    by (simp add: Let_def)
qed

text \<open>
  C18. What the loop handles becomes visible: fewer than 256 messages handled between two ticks
  of an idle store are all returned by \<open>QueryAll\<close> after the tick, if its transaction commits,
  numbered consecutively and as the correlator left them.
\<close>

theorem handled_become_visible:
  assumes "badger_db B" "db_inv B (st_db s)" "chan_items (st_queue s) = []" "st_batch s = []"
    and "chan_cap (st_queue s) = 4096" "0 \<le> st_idCounter s" "st_idCounter s + 256 < 2 ^ 63"
    and "process_all ms (NewCorrelator, new_tracer tracing) = (ps, corr)" "ps \<noteq> []" "length ps < 256"
    and "\<forall>m\<in>set ps. key_time_ok (Timestamp m)"
    and "fst (flush B now ps (s\<lparr>st_batch := ps\<rparr>))" "t < now + one_day"
  shows "set (map (message_utf8 \<circ> snd) (numbered (st_idCounter s) ps)) \<subseteq>
    set (QueryAll B t (drain_some B now (length ps) (mn_store (handle_all zone ms (start_monitor tracing s)))))"
  using handled_query [OF assms] by (simp add: Let_def)

section \<open>A whole session\<close>

text \<open>A message of a session of a wrapped command: its time, whether the client sent it, and itself.\<close>

type_synonym exchange = "time \<times> bool \<times> rpc"

definition session_event :: "exchange \<Rightarrow> time \<times> stdio_event" where
  "session_event x =
     (case x of (t, client, r) \<Rightarrow> (t, if client then StdinLine (rpc_text r) else StdoutLine (rpc_text r)))"

definition session_message :: "exchange \<Rightarrow> message" where
  "session_message x =
     (case x of (t, client, r) \<Rightarrow> rpc_message t (if client then ''IN'' else ''OUT'') ''stdio'' r)"

lemma session_message_time: "Timestamp (session_message (t, client, r)) = t"
  by (cases r) (simp_all add: session_message_def rpc_message_def)

lemma session_emits:
  "\<forall>(t, client, r)\<in>set xs. rpc_valid r \<Longrightarrow>
     concat (map (\<lambda>x. stdio_emits (session_event x)) xs) = map session_message xs"
proof (induction xs)
  case (Cons x xs)
  obtain t client r where x: "x = (t, client, r)" by (cases x)
  have "ParseJSONRPC now (rpc_text r) dir tr = Some (rpc_message now dir tr r)" for now dir tr
    using Cons.prems parse_rpc unfolding x rpc_valid_def by simp
  with Cons x show ?case by (simp add: stdio_emits_def session_event_def session_message_def)
qed simp

lemma session_queued:
  assumes "\<forall>(t, client, r)\<in>set xs. rpc_valid r" "length xs \<le> 1000" "command \<noteq> []" "\<forall>c. fails c = None"
  shows "\<exists>ch calls. Stdio_Start ParseJSONRPC windows fails command (map session_event xs) (make_chan 1000) =
      ((Returned None, ch), calls) \<and> chan_items ch = map session_message xs"
proof -
  have "fold (at_time (stdio_step ParseJSONRPC)) (map session_event xs) (make_chan 1000) =
      fold try_send (map session_message xs) (make_chan 1000)"
    by (simp only: stdio_steps_emit map_map comp_def session_emits [OF assms(1)])
  moreover have "chan_items (fold try_send (map session_message xs) (make_chan 1000)) = map session_message xs"
    using fold_try_send_room [of "make_chan 1000" "map session_message xs"] assms(2)
    by (simp add: make_chan_def)
  ultimately show ?thesis
    using assms(3,4) by (auto simp: Stdio_Start_def stdio_command_def body_simps)
qed

lemma numbered_message_ok:
  "list_all (message_ok zone) ms \<Longrightarrow> (i, m) \<in> set (numbered c ms) \<Longrightarrow> message_ok zone (message_utf8 m)"
  by (induction ms arbitrary: c) (auto simp: Let_def message_ok_def message_ints_ok_def)


section \<open>Examples\<close>

definition example_rpc :: rpc where
  "example_rpc = RpcRequest (JNum (f64_of_int 1)) ''tools/list'' None"

lemma example_rpc_valid: "rpc_valid example_rpc"
proof -
  have "rpc_ok example_rpc" "json_wf max_nesting (JObj (rpc_members example_rpc))" by code_simp+
  then show ?thesis by (simp only: rpc_valid_def simp_thms)
qed

definition example_interceptor :: interceptor where
  "example_interceptor = \<lparr>ic_transType = ''sse'', ic_direction = ''OUT'', ic_buf = []\<rparr>"

lemma example_event_length: "length (sse_event example_rpc) = 54"
  by code_simp

lemma sse_stream_reported_witness:
  "\<exists>ch'. chan_items ch' = [rpc_message 5 ''OUT'' ''sse'' example_rpc] \<and>
     read_all (stream_read ParseJSONRPC 5) [take 9 (sse_event example_rpc), drop 9 (sse_event example_rpc)]
       (example_interceptor, make_chan 1000) = ([(9, None), (45, None), (0, Some EOF)], example_interceptor, ch')"
proof -
  let ?cs = "[take 9 (sse_event example_rpc), drop 9 (sse_event example_rpc)]"
  have "concat ?cs = sse_event example_rpc" by simp
  then have "fits [] ?cs"
    by (intro fits_total) (simp only: example_event_length list.size, simp add: max_stream_buffer_def)
  then show ?thesis
    using sse_stream_reported [of "[example_rpc]" ?cs example_interceptor "make_chan 1000" 5]
      example_rpc_valid example_event_length
    by (auto simp: make_chan_def example_interceptor_def)
qed

lemma stdio_session_reported_witness:
  "chan_items (pm_channel (stdin_pump ParseJSONRPC 5 (rpc_text example_rpc @ [nl]) (make_chan 1000))) =
     [rpc_message 5 ''IN'' ''stdio'' example_rpc]"
proof -
  have "length (rpc_text example_rpc) = 46" using example_event_length by (simp add: sse_event_def)
  then have "length (rpc_text example_rpc) < max_token" by (simp add: max_token_def)
  then show ?thesis
    using stdio_session_reported [of "[example_rpc]" "rpc_text example_rpc @ [nl]" "make_chan 1000" 5]
      example_rpc_valid by (simp add: make_chan_def)
qed

lemma metrics_never_panic_witness:
  "list_all admissible (mn_metrics (handle_all (\<lambda>t. 0) [(5, stderr_message 4 ''stdio'' [CHR 0xFF])]
     (start_monitor False (make_store ([] :: memory) 0))))"
proof -
  have "list_all ascii ''stdio''" by (simp add: ascii_def byte_in_def)
  then have "reported (stderr_message 4 ''stdio'' [CHR 0xFF])" unfolding reported_def by blast
  then show ?thesis by (intro metrics_never_panic) simp
qed

lemma handled_become_visible_witness:
  "message_utf8 (example_request\<lparr>ID := 1\<rparr>) \<in>
     set (QueryAll memory_badger 7 (drain_some memory_badger 6 1
       (mn_store (handle_all (\<lambda>t. 0) [(5, example_request)] (start_monitor False (make_store [] 0))))))"
proof -
  have "process_all [(5, example_request)] (NewCorrelator, new_tracer False) =
      ([example_request], snd (process_all [(5, example_request)] (NewCorrelator, new_tracer False)))"
    by (simp add: Process_def example_request_def Let_def)
  note p = this
  have "db_inv memory_badger ([] :: memory)" by (simp add: db_inv_def memory_get_def)
  moreover have "fst (flush memory_badger 6 [example_request] ((make_store [] 0)\<lparr>st_batch := [example_request]\<rparr>))"
    by code_simp
  moreover have "key_time_ok (Timestamp example_request)"
    by (simp add: key_time_ok_def example_request_def)
  moreover have "7 < (6 :: int) + one_day" by (simp add: one_day_def)
  moreover have "numbered 0 [example_request] = [(1, example_request\<lparr>ID := 1\<rparr>)]"
    by (simp add: int64_range_def)
  ultimately show ?thesis
    using handled_become_visible [OF memory.badger_db_axioms _ _ _ _ _ _ p, of "make_store [] 0" 6 7 "\<lambda>t. 0"]
    by (simp add: make_store_def make_chan_def)
qed

text \<open>One request through \<open>mcpwatch --wrap node\<close>, at a quarter past ten in the evening, UTC.\<close>

definition example_session :: "exchange list" where
  "example_session = [(1700000000000000000, True, example_rpc)]"

definition example_sent :: message where
  "example_sent = rpc_message 1700000000000000000 ''IN'' ''stdio'' example_rpc"

lemma example_correlated:
  "process_all (zip [1700000000000000001] (map session_message example_session)) (NewCorrelator, new_tracer True) =
     ([example_sent], snd (process_all [(1700000000000000001, example_sent)] (NewCorrelator, new_tracer True)))"
  by (simp add: example_session_def session_message_def example_sent_def Process_def rpc_message_def
      example_rpc_def Let_def)

lemma example_sent_ok:
  "list_all (message_ok (\<lambda>t. 0)) [example_sent]"
  "fst (flush memory_badger 1700000000050000000 [example_sent] ((make_store [] 0)\<lparr>st_batch := [example_sent]\<rparr>))"
  by code_simp+


end
